(* ===== verification/Egg_Prelude.thy ===== *)
theory Egg_Prelude
  imports Main "HOL-Library.Word"
begin

text \<open>
  Shared vocabulary of the development: the machine integer types of the C++ sources, the
  \<open>Metrics\<close> counters that every component updates, and the generic facts on words and lists
  that the component theories use.

  \<open>std::uint64_t\<close>, \<open>std::size_t\<close> and \<open>std::uintptr_t\<close> are \<open>64 word\<close> (the target is
  AArch64 Linux), \<open>unsigned\<close> and \<open>std::uint32_t\<close> are \<open>32 word\<close>, \<open>std::uint8_t\<close> is
  \<open>8 word\<close>: arithmetic on them wraps exactly as in the source.
\<close>

type_synonym u8 = "8 word"
type_synonym u32 = "32 word"
type_synonym u64 = "64 word"

abbreviation u64_max :: u64 where
  "u64_max \<equiv> -1"

section \<open>Metrics\<close>

text \<open>
  \<open>struct Metrics\<close> (\<open>include/eggvision/metrics.hpp\<close>) is a block of independent atomic 64-bit
  counters. Each counter is a constructor, grouped by the component that updates it, and the
  block is the function from a counter to its current content; \<open>fetch_add(1)\<close> is \<open>bump\<close>, \<open>fetch_add(n)\<close> is \<open>bump_by\<close>
  and \<open>store(v)\<close> is a function update.
\<close>

datatype capture_counter =
    captured | capture_errors | outstanding_leases | outstanding_leases_peak

datatype encoder_counter =
    encoder_access_units | encoder_output_bytes | encoder_dropped | encoder_errors
  | encoder_recoveries | encoder_recovery_failures

datatype rtsp_counter =
    rtsp_pushed | rtsp_dropped | rtsp_errors | rtsp_recoveries | rtsp_recovery_failures
  | rtsp_sessions_current | rtsp_sessions_peak | rtsp_sessions_cleaned

datatype inference_counter =
    inference_processed | inference_dropped | inference_zero_copy_ingress
  | inference_copy_fallback | inference_preprocess_errors | inference_dma_sync_errors
  | inference_backend_errors | detected_persons | inference_input_total_us
  | inference_total_us

datatype i420_counter =
    inference_i420_invalid_dimensions | inference_i420_unexpected_plane_count
  | inference_i420_unexpected_stride | inference_i420_invalid_fd
  | inference_i420_separate_fds | inference_i420_missing_mapping
  | inference_i420_inconsistent_mapping | inference_i420_non_compact_offsets
  | inference_i420_plane_too_short | inference_i420_payload_too_short
  | inference_i420_mapping_too_short

datatype event_counter =
    events_triggered | events_suppressed | events_completed | events_partial_preroll
  | events_partial_postroll | events_failed | event_video_bytes | event_snapshot_bytes
  | event_mux_errors | event_snapshot_errors | event_disk_space_rejections

datatype counter =
    Cap capture_counter | Enc encoder_counter | Rtsp rtsp_counter
  | Inf inference_counter | I420 i420_counter | Ev event_counter

type_synonym metrics = "counter \<Rightarrow> u64"

definition metrics_init :: metrics where
  "metrics_init = (\<lambda>_. 0)"

definition bump_by :: "counter \<Rightarrow> u64 \<Rightarrow> metrics \<Rightarrow> metrics" where
  "bump_by c n m = m(c := m c + n)"

abbreviation bump :: "counter \<Rightarrow> metrics \<Rightarrow> metrics" where
  "bump c \<equiv> bump_by c 1"

lemma bump_by_same [simp]: "bump_by c n m c = m c + n"
  by (simp add: bump_by_def)

lemma bump_by_other [simp]: "c \<noteq> d \<Longrightarrow> bump_by c n m d = m d"
  by (simp add: bump_by_def)

section \<open>Words\<close>

lemma word_le_iff_unat: "(a :: 'a::len word) \<le> b \<longleftrightarrow> unat a \<le> unat b"
  by (rule word_le_nat_alt)

lemma word_less_iff_unat: "(a :: 'a::len word) < b \<longleftrightarrow> unat a < unat b"
  by (rule word_less_nat_alt)

lemmas word_order_unat = word_le_iff_unat word_less_iff_unat

lemma unat_sub_le: "(b :: 'a::len word) \<le> a \<Longrightarrow> unat (a - b) = unat a - unat b"
  by (rule unat_sub)

lemma word_diff_mono: "(c :: 'a::len word) \<le> a \<Longrightarrow> a \<le> b \<Longrightarrow> a - c \<le> b - c"
  by (simp add: word_le_iff_unat unat_sub)

lemma unat_add_no_wrap:
  "unat (a :: u64) + unat b < 2 ^ 64 \<Longrightarrow> unat (a + b) = unat a + unat b"
  by (simp add: unat_word_ariths)

lemma unat_mult_no_wrap:
  "unat (a :: u64) * unat b < 2 ^ 64 \<Longrightarrow> unat (a * b) = unat a * unat b"
  by (simp add: unat_word_ariths)

lemma unat_u64_max [simp]: "unat u64_max = 2 ^ 64 - 1"
  by (simp add: unat_eq_nat_uint uint_word_ariths)

section \<open>Decimal output\<close>

text \<open>\<open>std::to_string\<close> and \<open>operator<<\<close> on integers.\<close>

definition digit_char :: "nat \<Rightarrow> char" where
  "digit_char d = char_of (48 + d)"

fun show_nat :: "nat \<Rightarrow> string" where
  "show_nat n = (if n < 10 then [digit_char n] else show_nat (n div 10) @ [digit_char (n mod 10)])"

declare show_nat.simps [simp del]

definition show_int :: "int \<Rightarrow> string" where
  "show_int i = (if i < 0 then ''-'' @ show_nat (nat (- i)) else show_nat (nat i))"

lemma show_nat_ne [simp]: "show_nat n \<noteq> []"
  by (subst show_nat.simps) simp

lemma show_int_ne [simp]: "show_int i \<noteq> []"
  by (simp add: show_int_def)

end
