(* ===== verification/Encoded_Ring.thy ===== *)
theory Encoded_Ring
  imports Egg_Prelude "HOL-Library.Sublist"
begin

text \<open>
  \<open>EncodedAccessUnit\<close> (\<open>include/eggvision/encoded_access_unit.hpp\<close>) and \<open>EncodedRingBuffer\<close>
  (\<open>src/encoded_ring_buffer.cpp\<close>): the bounded history of compressed access units from which an
  event takes its pre-roll. Public member functions hold the ring's mutex for their whole body, so
  each is one atomic state transformer; \<open>std::deque\<close> is a list with its front at the head, and
  \<open>bytes_\<close> is the 64-bit running sum of the source, subtraction and all.

  Main results: \<open>ring_inv\<close> is kept by every operation; \<open>selectPreRoll\<close> is characterised
  completely; and, seen from the event recorder, the ring is indistinguishable from an unbounded
  history for every trigger within the retention time.
\<close>

section \<open>Access units\<close>

record access_unit =
  sensor_timestamp_ns :: u64
  pts_ns :: u64
  dts_ns :: u64
  duration_ns :: u64
  generation :: u64
  keyframe :: bool
  has_sps :: bool
  has_pps :: bool
  payload :: "u8 list option"

definition sizeBytes :: "access_unit \<Rightarrow> u64" where
  "sizeBytes u = (case payload u of None \<Rightarrow> 0 | Some p \<Rightarrow> of_nat (length p))"

definition independentlyDecodable :: "access_unit \<Rightarrow> bool" where
  "independentlyDecodable u \<longleftrightarrow> keyframe u \<and> has_sps u \<and> has_pps u"

section \<open>The ring\<close>

datatype ring_push_result =
  Accepted | ResetForGeneration | ResetForTimestampRegression | RejectedInvalid | RejectedOversize

record ring_selection =
  sel_generation :: u64
  requested_start :: u64
  actual_start :: u64
  pre_roll_complete :: bool
  has_independent_start :: bool
  sel_units :: "access_unit list"

record ring_stats =
  stat_units :: nat
  stat_bytes :: u64
  stat_peak_bytes :: u64
  stat_resets :: u64

record encoded_ring =
  retention_ns :: u64
  max_bytes :: u64
  ring_units :: "access_unit list"
  ring_bytes :: u64
  peak_bytes :: u64
  resets :: u64
  ring_generation :: u64
  latest_sensor_ts :: u64

datatype ring_error = RetentionNotPositive | ByteLimitNotPositive

definition ring_new :: "u64 \<Rightarrow> u64 \<Rightarrow> ring_error + encoded_ring" where
  "ring_new retention limit =
     (if retention = 0 then Inl RetentionNotPositive
      else if limit = 0 then Inl ByteLimitNotPositive
      else Inr \<lparr>retention_ns = retention, max_bytes = limit, ring_units = [], ring_bytes = 0,
                peak_bytes = 0, resets = 0, ring_generation = 0, latest_sensor_ts = 0\<rparr>)"

definition resetLocked :: "encoded_ring \<Rightarrow> encoded_ring" where
  "resetLocked r = r\<lparr>ring_units := [], ring_bytes := 0, ring_generation := 0,
                     latest_sensor_ts := 0, resets := resets r + 1\<rparr>"

definition discardFrontLocked :: "encoded_ring \<Rightarrow> encoded_ring" where
  "discardFrontLocked r =
     (case ring_units r of
        [] \<Rightarrow> r
      | u # us \<Rightarrow>
          let r' = r\<lparr>ring_bytes := ring_bytes r - sizeBytes u, ring_units := us\<rparr>
          in if us = [] then r'\<lparr>ring_generation := 0, latest_sensor_ts := 0\<rparr> else r')"

text \<open>The index scan shared by \<open>pruneByTimeLocked\<close> and the first loop of \<open>selectPreRoll\<close>.\<close>

fun newestDecodableUpTo :: "u64 \<Rightarrow> access_unit list \<Rightarrow> nat \<Rightarrow> nat option \<Rightarrow> nat option" where
  "newestDecodableUpTo bound [] index found = found"
| "newestDecodableUpTo bound (u # us) index found =
     (if sensor_timestamp_ns u > bound then found
      else newestDecodableUpTo bound us (Suc index)
             (if independentlyDecodable u then Some index else found))"

text \<open>The second loop of \<open>selectPreRoll\<close>.\<close>

fun firstDecodableUpTo :: "u64 \<Rightarrow> access_unit list \<Rightarrow> nat \<Rightarrow> nat option" where
  "firstDecodableUpTo bound [] index = None"
| "firstDecodableUpTo bound (u # us) index =
     (if sensor_timestamp_ns u > bound then None
      else if independentlyDecodable u then Some index
      else firstDecodableUpTo bound us (Suc index))"

text \<open>\<open>while (size > 1 && front.timestamp < cutoff) discardFront\<close>\<close>

function discardOlderThan :: "u64 \<Rightarrow> encoded_ring \<Rightarrow> encoded_ring" where
  "discardOlderThan cutoff r =
     (if length (ring_units r) > 1 \<and> sensor_timestamp_ns (hd (ring_units r)) < cutoff
      then discardOlderThan cutoff (discardFrontLocked r) else r)"
  by pat_completeness auto
termination
  by (relation "measure (\<lambda>(c, r). length (ring_units r))")
    (auto simp: discardFrontLocked_def Let_def split: list.splits)

definition pruneByTimeLocked :: "encoded_ring \<Rightarrow> encoded_ring" where
  "pruneByTimeLocked r =
     (if length (ring_units r) < 2 \<or> latest_sensor_ts r \<le> retention_ns r then r
      else let cutoff = latest_sensor_ts r - retention_ns r
           in case newestDecodableUpTo cutoff (ring_units r) 0 None of
                None \<Rightarrow> discardOlderThan cutoff r
              | Some keep \<Rightarrow> (discardFrontLocked ^^ keep) r)"

function discardWhileOverLimit :: "encoded_ring \<Rightarrow> encoded_ring" where
  "discardWhileOverLimit r =
     (if ring_units r \<noteq> [] \<and> ring_bytes r > max_bytes r
      then discardWhileOverLimit (discardFrontLocked r) else r)"
  by pat_completeness auto
termination
  by (relation "measure (\<lambda>r. length (ring_units r))")
    (auto simp: discardFrontLocked_def Let_def split: list.splits)

function discardUndecodablePrefix :: "encoded_ring \<Rightarrow> encoded_ring" where
  "discardUndecodablePrefix r =
     (if ring_units r \<noteq> [] \<and> \<not> independentlyDecodable (hd (ring_units r))
      then discardUndecodablePrefix (discardFrontLocked r) else r)"
  by pat_completeness auto
termination
  by (relation "measure (\<lambda>r. length (ring_units r))")
    (auto simp: discardFrontLocked_def Let_def split: list.splits)

declare discardOlderThan.simps [simp del] discardWhileOverLimit.simps [simp del]
  discardUndecodablePrefix.simps [simp del]

definition pruneByBytesLocked :: "encoded_ring \<Rightarrow> encoded_ring" where
  "pruneByBytesLocked r = discardUndecodablePrefix (discardWhileOverLimit r)"

definition ring_append :: "access_unit \<Rightarrow> encoded_ring \<Rightarrow> encoded_ring" where
  "ring_append u r = r\<lparr>ring_generation := generation u,
                       latest_sensor_ts := sensor_timestamp_ns u,
                       ring_bytes := ring_bytes r + sizeBytes u,
                       ring_units := ring_units r @ [u]\<rparr>"

definition ring_push :: "access_unit option \<Rightarrow> encoded_ring \<Rightarrow> ring_push_result \<times> encoded_ring" where
  "ring_push unit r =
     (case unit of
        None \<Rightarrow> (RejectedInvalid, r)
      | Some u \<Rightarrow>
          if payload u = None \<or> payload u = Some [] \<or> generation u = 0 \<or> sensor_timestamp_ns u = 0
          then (RejectedInvalid, r)
          else if sizeBytes u > max_bytes r then (RejectedOversize, r)
          else
            let (result, r1) =
                  (if ring_units r \<noteq> [] \<and> generation u \<noteq> ring_generation r
                   then (ResetForGeneration, resetLocked r)
                   else if ring_units r \<noteq> [] \<and> sensor_timestamp_ns u < latest_sensor_ts r
                   then (ResetForTimestampRegression, resetLocked r)
                   else (Accepted, r));
                r2 = pruneByBytesLocked (pruneByTimeLocked (ring_append u r1))
            in (result, r2\<lparr>peak_bytes := max (peak_bytes r2) (ring_bytes r2)\<rparr>))"

definition selectPreRoll :: "encoded_ring \<Rightarrow> u64 \<Rightarrow> u64 \<Rightarrow> ring_selection" where
  "selectPreRoll r trigger pre_roll =
     (let requested = (if trigger > pre_roll then trigger - pre_roll else 0);
          empty = \<lparr>sel_generation = 0, requested_start = requested, actual_start = 0,
                   pre_roll_complete = False, has_independent_start = False, sel_units = []\<rparr>
      in if ring_units r = [] then empty
         else
           let start = (case newestDecodableUpTo requested (ring_units r) 0 None of
                          Some i \<Rightarrow> Some i
                        | None \<Rightarrow> firstDecodableUpTo trigger (ring_units r) 0)
           in case start of
                None \<Rightarrow> empty\<lparr>sel_generation := ring_generation r\<rparr>
              | Some i \<Rightarrow>
                  let actual = sensor_timestamp_ns (ring_units r ! i)
                  in \<lparr>sel_generation = ring_generation r, requested_start = requested,
                      actual_start = actual, pre_roll_complete = (actual \<le> requested),
                      has_independent_start = True, sel_units = drop i (ring_units r)\<rparr>)"

definition ring_clear :: "encoded_ring \<Rightarrow> encoded_ring" where
  "ring_clear r = resetLocked r"

definition ring_stats_of :: "encoded_ring \<Rightarrow> ring_stats" where
  "ring_stats_of r = \<lparr>stat_units = length (ring_units r), stat_bytes = ring_bytes r,
                      stat_peak_bytes = peak_bytes r, stat_resets = resets r\<rparr>"

section \<open>Invariant\<close>

text \<open>A \<open>std::vector\<close> fits in the address space.\<close>

definition au_wf :: "access_unit \<Rightarrow> bool" where
  "au_wf u \<longleftrightarrow> (case payload u of None \<Rightarrow> True | Some p \<Rightarrow> length p < 2 ^ 63)"

definition au_valid :: "access_unit \<Rightarrow> bool" where
  "au_valid u \<longleftrightarrow> au_wf u \<and> payload u \<noteq> None \<and> payload u \<noteq> Some [] \<and> generation u \<noteq> 0
                 \<and> sensor_timestamp_ns u \<noteq> 0"

definition total_bytes :: "access_unit list \<Rightarrow> nat" where
  "total_bytes us = (\<Sum>u\<leftarrow>us. unat (sizeBytes u))"

definition ts_sorted :: "access_unit list \<Rightarrow> bool" where
  "ts_sorted us = sorted (map sensor_timestamp_ns us)"

text \<open>
  What holds between the loops of \<open>push\<close> (\<open>ring_core\<close>) and what holds between public calls
  (\<open>ring_inv\<close>): the byte count is the exact sum of the retained payloads and within the limit, the
  retained units are valid, of one generation and in timestamp order, the cached generation and
  newest timestamp agree with them, and a non-empty ring starts at a unit a decoder can start at.
\<close>

definition ring_core :: "encoded_ring \<Rightarrow> bool" where
  "ring_core r \<longleftrightarrow>
     retention_ns r \<noteq> 0 \<and> unat (max_bytes r) < 2 ^ 63
     \<and> unat (ring_bytes r) = total_bytes (ring_units r)
     \<and> (\<forall>u \<in> set (ring_units r). au_valid u \<and> generation u = ring_generation r)
     \<and> ts_sorted (ring_units r)
     \<and> (if ring_units r = [] then ring_generation r = 0 \<and> latest_sensor_ts r = 0
        else latest_sensor_ts r = sensor_timestamp_ns (last (ring_units r)))"

definition ring_inv :: "encoded_ring \<Rightarrow> bool" where
  "ring_inv r \<longleftrightarrow>
     ring_core r \<and> ring_bytes r \<le> max_bytes r
     \<and> ring_bytes r \<le> peak_bytes r \<and> peak_bytes r \<le> max_bytes r
     \<and> (ring_units r \<noteq> [] \<longrightarrow> independentlyDecodable (hd (ring_units r)))"

lemma total_bytes_simps [simp]:
  "total_bytes [] = 0"
  "total_bytes (u # us) = unat (sizeBytes u) + total_bytes us"
  "total_bytes (us @ vs) = total_bytes us + total_bytes vs"
  by (simp_all add: total_bytes_def)

lemma ts_sorted_simps [simp]:
  "ts_sorted []"
  "ts_sorted (u # us) \<longleftrightarrow> (\<forall>v \<in> set us. sensor_timestamp_ns u \<le> sensor_timestamp_ns v) \<and> ts_sorted us"
  by (simp_all add: ts_sorted_def)

lemma ts_sorted_append:
  "ts_sorted (us @ vs) \<longleftrightarrow>
     ts_sorted us \<and> ts_sorted vs
     \<and> (\<forall>u \<in> set us. \<forall>v \<in> set vs. sensor_timestamp_ns u \<le> sensor_timestamp_ns v)"
  by (auto simp: ts_sorted_def sorted_append)

lemma ts_sorted_last:
  "ts_sorted us \<Longrightarrow> v \<in> set us \<Longrightarrow> sensor_timestamp_ns v \<le> sensor_timestamp_ns (last us)"
  by (induction us) auto

lemma ts_sorted_drop: "ts_sorted us \<Longrightarrow> ts_sorted (drop n us)"
  by (simp add: ts_sorted_def drop_map[symmetric] sorted_wrt_drop)

subsection \<open>Discarding\<close>

lemma discardFront_simps [simp]:
  "ring_units (discardFrontLocked r) = tl (ring_units r)"
  "retention_ns (discardFrontLocked r) = retention_ns r"
  "max_bytes (discardFrontLocked r) = max_bytes r"
  "peak_bytes (discardFrontLocked r) = peak_bytes r"
  "resets (discardFrontLocked r) = resets r"
  by (auto simp: discardFrontLocked_def Let_def split: list.splits)

lemma discardFront_core:
  assumes "ring_core r"
  shows "ring_core (discardFrontLocked r)"
proof (cases "ring_units r")
  case Nil
  with assms show ?thesis by (simp add: discardFrontLocked_def)
next
  case (Cons u us)
  with assms have b: "unat (ring_bytes r) = unat (sizeBytes u) + total_bytes us"
    by (simp add: ring_core_def)
  then have "unat (ring_bytes r - sizeBytes u) = total_bytes us"
    by (subst unat_sub) (simp_all add: word_le_iff_unat)
  with Cons assms show ?thesis
    by (auto simp: ring_core_def discardFrontLocked_def Let_def)
qed

lemma discardFront_bytes:
  assumes "ring_core r"
  shows "ring_bytes (discardFrontLocked r) \<le> ring_bytes r"
proof (cases "ring_units r")
  case Nil
  then show ?thesis by (simp add: discardFrontLocked_def)
next
  case (Cons u us)
  with assms discardFront_core[OF assms] show ?thesis
    by (simp add: ring_core_def word_le_iff_unat)
qed

lemma discardFront_pow_units [simp]:
  "ring_units ((discardFrontLocked ^^ n) r) = drop n (ring_units r)"
  by (induction n) (simp_all add: drop_Suc tl_drop)

lemma discardFront_pow_params [simp]:
  "retention_ns ((discardFrontLocked ^^ n) r) = retention_ns r"
  "max_bytes ((discardFrontLocked ^^ n) r) = max_bytes r"
  "peak_bytes ((discardFrontLocked ^^ n) r) = peak_bytes r"
  "resets ((discardFrontLocked ^^ n) r) = resets r"
  by (induction n) simp_all

lemma discardFront_pow_core: "ring_core r \<Longrightarrow> ring_core ((discardFrontLocked ^^ n) r)"
  by (induction n) (simp_all add: discardFront_core)

text \<open>Every pruning loop discards some number of units from the front and nothing else.\<close>

lemma discard_loop_pow:
  assumes loop: "\<And>r. f r = (if b r then f (discardFrontLocked r) else r)"
    and guard: "\<And>r. b r \<Longrightarrow> ring_units r \<noteq> []"
  shows "\<exists>n. f r = (discardFrontLocked ^^ n) r \<and> (\<forall>k < n. b ((discardFrontLocked ^^ k) r))"
proof (induction "length (ring_units r)" arbitrary: r rule: less_induct)
  case less
  show ?case
  proof (cases "b r")
    case True
    with guard have "length (ring_units (discardFrontLocked r)) < length (ring_units r)" by simp
    from less[OF this] obtain n where
      n: "f (discardFrontLocked r) = (discardFrontLocked ^^ n) (discardFrontLocked r)"
         "\<forall>k < n. b ((discardFrontLocked ^^ k) (discardFrontLocked r))" by blast
    have "b ((discardFrontLocked ^^ k) r)" if "k < Suc n" for k
      using that True n(2) by (cases k) (simp_all add: funpow_swap1)
    with True n(1) loop[of r] show ?thesis
      by (intro exI[of _ "Suc n"]) (simp add: funpow_swap1)
  next
    case False
    with loop[of r] show ?thesis by (intro exI[of _ 0]) simp
  qed
qed

lemmas discardOlderThan_pow =
  discard_loop_pow[of "discardOlderThan c" for c, OF discardOlderThan.simps]

lemma discardWhileOverLimit_pow: "\<exists>n. discardWhileOverLimit r = (discardFrontLocked ^^ n) r"
  using discard_loop_pow[of discardWhileOverLimit, OF discardWhileOverLimit.simps] by blast

lemma discardUndecodablePrefix_pow:
  "\<exists>n. discardUndecodablePrefix r = (discardFrontLocked ^^ n) r"
  using discard_loop_pow[of discardUndecodablePrefix, OF discardUndecodablePrefix.simps] by blast

lemma discardOlderThan_dropped:
  "\<exists>n. discardOlderThan c r = (discardFrontLocked ^^ n) r
       \<and> (\<forall>u \<in> set (take n (ring_units r)). sensor_timestamp_ns u < c)"
proof -
  obtain n where n: "discardOlderThan c r = (discardFrontLocked ^^ n) r"
    "\<forall>k < n. length (drop k (ring_units r)) > 1
              \<and> sensor_timestamp_ns (hd (drop k (ring_units r))) < c"
    using discardOlderThan_pow[of c r] by fastforce
  have "sensor_timestamp_ns u < c" if "u \<in> set (take n (ring_units r))" for u
    using that n(2) by (auto simp: in_set_conv_nth hd_drop_conv_nth)
  with n(1) show ?thesis by blast
qed

lemma discardWhileOverLimit_bytes:
  "ring_core r \<Longrightarrow> ring_bytes (discardWhileOverLimit r) \<le> max_bytes r"
proof (induction r rule: discardWhileOverLimit.induct)
  case (1 r)
  have empty: "ring_units r = [] \<Longrightarrow> ring_bytes r = 0"
    using 1(2) by (simp add: ring_core_def unat_eq_0)
  show ?case
    by (cases "ring_units r \<noteq> [] \<and> ring_bytes r > max_bytes r"; subst discardWhileOverLimit.simps)
      (use 1 empty in \<open>auto simp: discardFront_core\<close>)
qed

lemma discardWhileOverLimit_id: "ring_bytes r \<le> max_bytes r \<Longrightarrow> discardWhileOverLimit r = r"
  by (subst discardWhileOverLimit.simps) auto

lemma discardUndecodablePrefix_id:
  "ring_units r \<noteq> [] \<Longrightarrow> independentlyDecodable (hd (ring_units r)) \<Longrightarrow> discardUndecodablePrefix r = r"
  by (subst discardUndecodablePrefix.simps) auto

lemma discardUndecodablePrefix_units [simp]:
  "ring_units (discardUndecodablePrefix r) = dropWhile (\<lambda>u. \<not> independentlyDecodable u) (ring_units r)"
proof (induction r rule: discardUndecodablePrefix.induct)
  case (1 r)
  then show ?case
    by (cases "ring_units r"; subst discardUndecodablePrefix.simps) auto
qed

lemma pow_bytes_le: "ring_core r \<Longrightarrow> ring_bytes ((discardFrontLocked ^^ n) r) \<le> ring_bytes r"
proof (induction n)
  case (Suc n)
  then show ?case
    using discardFront_bytes[OF discardFront_pow_core[OF Suc.prems, of n]] by force
qed simp

lemma pruneByTime_pow: "\<exists>n. pruneByTimeLocked r = (discardFrontLocked ^^ n) r"
proof -
  have "\<exists>n. r = (discardFrontLocked ^^ n) r" by (rule exI[of _ 0]) simp
  moreover have "\<exists>n. discardOlderThan c r = (discardFrontLocked ^^ n) r" for c
    using discardOlderThan_dropped[of c r] by blast
  ultimately show ?thesis
    by (auto simp: pruneByTimeLocked_def Let_def split: option.split)
qed

lemma pruneByBytes_pow: "\<exists>n. pruneByBytesLocked r = (discardFrontLocked ^^ n) r"
proof -
  obtain m where "discardWhileOverLimit r = (discardFrontLocked ^^ m) r"
    using discardWhileOverLimit_pow by blast
  moreover obtain n where "discardUndecodablePrefix ((discardFrontLocked ^^ m) r)
      = (discardFrontLocked ^^ n) ((discardFrontLocked ^^ m) r)"
    using discardUndecodablePrefix_pow by blast
  ultimately show ?thesis
    by (intro exI[of _ "n + m"]) (simp add: pruneByBytesLocked_def funpow_add)
qed

lemma prune_params [simp]:
  "retention_ns (pruneByTimeLocked r) = retention_ns r"
  "max_bytes (pruneByTimeLocked r) = max_bytes r"
  "peak_bytes (pruneByTimeLocked r) = peak_bytes r"
  "resets (pruneByTimeLocked r) = resets r"
  "retention_ns (pruneByBytesLocked r) = retention_ns r"
  "max_bytes (pruneByBytesLocked r) = max_bytes r"
  "peak_bytes (pruneByBytesLocked r) = peak_bytes r"
  "resets (pruneByBytesLocked r) = resets r"
  using pruneByTime_pow[of r] pruneByBytes_pow[of r] by auto

lemma pruneByTime_core: "ring_core r \<Longrightarrow> ring_core (pruneByTimeLocked r)"
  using pruneByTime_pow[of r] discardFront_pow_core[of r] by auto

lemma pruneByBytes_core: "ring_core r \<Longrightarrow> ring_core (pruneByBytesLocked r)"
  using pruneByBytes_pow[of r] discardFront_pow_core[of r] by auto

lemma pruneByBytes_bytes:
  assumes "ring_core r"
  shows "ring_bytes (pruneByBytesLocked r) \<le> max_bytes r"
proof -
  let ?r = "discardWhileOverLimit r"
  have "ring_core ?r"
    using discardWhileOverLimit_pow[of r] discardFront_pow_core[OF assms] by auto
  then have "ring_bytes (discardUndecodablePrefix ?r) \<le> ring_bytes ?r"
    using discardUndecodablePrefix_pow[of ?r] pow_bytes_le by auto
  also have "\<dots> \<le> max_bytes r"
    using assms by (rule discardWhileOverLimit_bytes)
  finally show ?thesis by (simp add: pruneByBytesLocked_def)
qed

lemma pruneByBytes_decodable:
  assumes "ring_units (pruneByBytesLocked r) \<noteq> []"
  shows "independentlyDecodable (hd (ring_units (pruneByBytesLocked r)))"
  using assms hd_dropWhile[of "\<lambda>u. \<not> independentlyDecodable u" "ring_units (discardWhileOverLimit r)"]
  by (simp add: pruneByBytesLocked_def)

subsection \<open>Every operation keeps the invariant\<close>

lemma ring_new_inv:
  assumes "ring_new ret lim = Inr r" "unat lim < 2 ^ 63"
  shows "ring_inv r"
  using assms by (auto simp: ring_new_def ring_inv_def ring_core_def split: if_splits)

lemma resetLocked_inv: "ring_inv r \<Longrightarrow> ring_inv (resetLocked r)"
  by (auto simp: ring_inv_def ring_core_def resetLocked_def)

lemma ring_append_core:
  assumes inv: "ring_inv r" and u: "au_valid u" "sizeBytes u \<le> max_bytes r"
    and fits: "ring_units r = [] \<or> generation u = ring_generation r \<and> latest_sensor_ts r \<le> sensor_timestamp_ns u"
  shows "ring_core (ring_append u r)"
proof -
  have "unat (ring_bytes r) + unat (sizeBytes u) < 2 ^ 64"
    using inv u(2) by (simp add: ring_inv_def ring_core_def word_le_iff_unat)
  then have b: "unat (ring_bytes r + sizeBytes u) = unat (ring_bytes r) + unat (sizeBytes u)"
    by (rule unat_add_no_wrap)
  have ts: "sensor_timestamp_ns v \<le> sensor_timestamp_ns u" if "v \<in> set (ring_units r)" for v
  proof -
    from that inv have "sensor_timestamp_ns v \<le> latest_sensor_ts r"
      using ts_sorted_last[of "ring_units r" v] by (auto simp: ring_inv_def ring_core_def split: if_splits)
    with fits that show ?thesis by auto
  qed
  show ?thesis
    using inv u b ts fits
    by (auto simp: ring_inv_def ring_core_def ring_append_def ts_sorted_append)
qed

text \<open>The part of \<open>push\<close> after the rejections and the optional reset.\<close>

definition ring_admit :: "access_unit \<Rightarrow> encoded_ring \<Rightarrow> encoded_ring" where
  "ring_admit u r = (let r2 = pruneByBytesLocked (pruneByTimeLocked (ring_append u r))
                     in r2\<lparr>peak_bytes := max (peak_bytes r2) (ring_bytes r2)\<rparr>)"

lemma ring_admit_inv:
  assumes inv: "ring_inv r" and u: "au_valid u" "sizeBytes u \<le> max_bytes r"
    and fits: "ring_units r = [] \<or> generation u = ring_generation r \<and> latest_sensor_ts r \<le> sensor_timestamp_ns u"
  shows "ring_inv (ring_admit u r)"
proof -
  let ?r = "pruneByTimeLocked (ring_append u r)"
  have params: "max_bytes ?r = max_bytes r" "peak_bytes ?r = peak_bytes r"
    by (simp_all add: ring_append_def)
  have core: "ring_core ?r"
    using ring_append_core[OF assms] by (rule pruneByTime_core)
  have "ring_core (pruneByBytesLocked ?r)" using core by (rule pruneByBytes_core)
  moreover have "ring_bytes (pruneByBytesLocked ?r) \<le> max_bytes r"
    using pruneByBytes_bytes[OF core] params by simp
  moreover have "peak_bytes r \<le> max_bytes r" using inv by (simp add: ring_inv_def)
  ultimately show ?thesis
    using pruneByBytes_decodable[of ?r] params
    by (auto simp: ring_admit_def Let_def ring_inv_def ring_core_def)
qed

lemma ring_push_cases:
  assumes "ring_inv r" "pred_option au_wf unit"
  obtains (rejected) "ring_push unit r = (RejectedInvalid, r) \<or> ring_push unit r = (RejectedOversize, r)"
  | (accepted) u where "unit = Some u" "au_valid u" "sizeBytes u \<le> max_bytes r"
      "ring_units r = [] \<or> generation u = ring_generation r \<and> latest_sensor_ts r \<le> sensor_timestamp_ns u"
      "ring_push unit r = (Accepted, ring_admit u r)"
  | (reset) u res where "unit = Some u" "au_valid u" "sizeBytes u \<le> max_bytes r" "ring_units r \<noteq> []"
      "generation u \<noteq> ring_generation r \<and> res = ResetForGeneration
       \<or> generation u = ring_generation r \<and> sensor_timestamp_ns u < latest_sensor_ts r
         \<and> res = ResetForTimestampRegression"
      "ring_push unit r = (res, ring_admit u (resetLocked r))"
proof (cases unit)
  case None
  then show ?thesis using rejected by (simp add: ring_push_def)
next
  case (Some u)
  show ?thesis
  proof (cases "au_valid u \<and> sizeBytes u \<le> max_bytes r")
    case False
    then have "ring_push unit r = (RejectedInvalid, r) \<or> ring_push unit r = (RejectedOversize, r)"
      using Some assms(2) by (auto simp: ring_push_def au_valid_def)
    then show ?thesis by (rule rejected)
  next
    case True
    let ?gen = "ring_units r \<noteq> [] \<and> generation u \<noteq> ring_generation r"
    let ?older = "ring_units r \<noteq> [] \<and> sensor_timestamp_ns u < latest_sensor_ts r"
    have push: "ring_push unit r =
       (if ?gen then (ResetForGeneration, ring_admit u (resetLocked r))
        else if ?older then (ResetForTimestampRegression, ring_admit u (resetLocked r))
        else (Accepted, ring_admit u r))"
      using Some True
      by (auto simp: ring_push_def au_valid_def ring_admit_def Let_def not_less[symmetric])
    show ?thesis
    proof (cases "?gen \<or> ?older")
      case True
      with \<open>au_valid u \<and> sizeBytes u \<le> max_bytes r\<close> Some push show ?thesis
        by (intro reset[of u "if ?gen then ResetForGeneration else ResetForTimestampRegression"]) auto
    next
      case False
      with True Some push show ?thesis by (intro accepted[of u]) (auto simp: not_less)
    qed
  qed
qed

lemma ring_push_inv:
  assumes "ring_inv r" "pred_option au_wf unit"
  shows "ring_inv (snd (ring_push unit r))"
  using assms
proof (cases rule: ring_push_cases)
  case (reset u res)
  then have "ring_inv (ring_admit u (resetLocked r))"
    using resetLocked_inv[OF assms(1)]
    by (intro ring_admit_inv) (auto simp: resetLocked_def)
  with reset show ?thesis by simp
qed (use assms in \<open>auto intro: ring_admit_inv\<close>)

section \<open>The scans as suffixes\<close>

fun from_newest :: "u64 \<Rightarrow> access_unit list \<Rightarrow> access_unit list option" where
  "from_newest c [] = None"
| "from_newest c (u # us) =
     (if sensor_timestamp_ns u > c then None
      else case from_newest c us of
             Some s \<Rightarrow> Some s
           | None \<Rightarrow> if independentlyDecodable u then Some (u # us) else None)"

abbreviation from_decodable :: "access_unit list \<Rightarrow> access_unit list" where
  "from_decodable \<equiv> dropWhile (\<lambda>u. \<not> independentlyDecodable u)"

definition from_first :: "u64 \<Rightarrow> access_unit list \<Rightarrow> access_unit list option" where
  "from_first c us =
     (let s = from_decodable us
      in if s \<noteq> [] \<and> sensor_timestamp_ns (hd s) \<le> c then Some s else None)"

lemma from_decodable_hd: "from_decodable us \<noteq> [] \<Longrightarrow> independentlyDecodable (hd (from_decodable us))"
  by (induction us) auto

lemma from_newest_SomeD:
  "from_newest c us = Some s \<Longrightarrow>
     suffix s us \<and> s \<noteq> [] \<and> independentlyDecodable (hd s) \<and> sensor_timestamp_ns (hd s) \<le> c"
  by (induction us) (auto simp: suffix_Cons split: if_splits option.splits)

lemma newestDecodableUpTo_eq:
  "newestDecodableUpTo c us i acc =
     (case from_newest c us of None \<Rightarrow> acc | Some s \<Rightarrow> Some (i + (length us - length s)))"
proof (induction us arbitrary: i acc)
  case (Cons u us)
  then show ?case
    by (auto split: option.splits dest!: from_newest_SomeD suffix_length_le)
qed simp

lemma newestDecodable_drop:
  assumes "from_newest c us = Some s"
  shows "drop (length us - length s) us = s"
proof -
  from from_newest_SomeD[OF assms] obtain p where "us = p @ s" by (auto simp: suffix_def)
  then show ?thesis by simp
qed

lemma firstDecodableUpTo_eq:
  "ts_sorted us \<Longrightarrow> firstDecodableUpTo c us i =
     map_option (\<lambda>s. i + (length us - length s)) (from_first c us)"
proof (induction us arbitrary: i)
  case (Cons u us)
  show ?case
  proof (cases "sensor_timestamp_ns u > c")
    case True
    have "sensor_timestamp_ns v > c" if "v \<in> set (from_decodable (u # us))" for v
      using that Cons.prems True set_dropWhileD[OF that] by force
    then have "from_first c (u # us) = None"
      by (simp only: from_first_def Let_def not_le[symmetric] split: if_split) (metis hd_in_set)
    with True show ?thesis by simp
  next
    case False
    have "length (from_decodable us) \<le> length us" by (simp add: length_dropWhile_le)
    with False Cons show ?thesis
      by (auto simp: from_first_def Let_def)
  qed
qed (simp add: from_first_def)

lemma from_first_SomeD:
  "from_first c us = Some s \<Longrightarrow>
     s = from_decodable us \<and> s \<noteq> [] \<and> independentlyDecodable (hd s) \<and> sensor_timestamp_ns (hd s) \<le> c"
  unfolding from_first_def Let_def
  by (metis from_decodable_hd option.distinct(1) option.inject)

lemma from_first_drop:
  assumes "from_first c us = Some s"
  shows "drop (length us - length s) us = s"
proof -
  from from_first_SomeD[OF assms] obtain p where "us = p @ s"
    using suffix_dropWhile[of "\<lambda>u. \<not> independentlyDecodable u" us] by (auto simp: suffix_def)
  then show ?thesis by simp
qed

text \<open>The start of a clip over an arbitrary list of units, as \<open>selectPreRoll\<close> chooses it.\<close>

definition clip_from :: "u64 \<Rightarrow> u64 \<Rightarrow> access_unit list \<Rightarrow> access_unit list option" where
  "clip_from requested trigger us =
     (case from_newest requested us of Some s \<Rightarrow> Some s | None \<Rightarrow> from_first trigger us)"

definition selection_of :: "u64 \<Rightarrow> u64 \<Rightarrow> u64 \<Rightarrow> access_unit list option \<Rightarrow> ring_selection" where
  "selection_of gen requested trigger clip =
     (case clip of
        None \<Rightarrow> \<lparr>sel_generation = gen, requested_start = requested, actual_start = 0,
                 pre_roll_complete = False, has_independent_start = False, sel_units = []\<rparr>
      | Some s \<Rightarrow> \<lparr>sel_generation = gen, requested_start = requested,
                   actual_start = sensor_timestamp_ns (hd s),
                   pre_roll_complete = (sensor_timestamp_ns (hd s) \<le> requested),
                   has_independent_start = True, sel_units = s\<rparr>)"

abbreviation requested_from :: "u64 \<Rightarrow> u64 \<Rightarrow> u64" where
  "requested_from trigger pre_roll \<equiv> (if trigger > pre_roll then trigger - pre_roll else 0)"

lemma nth_hd_drop: "s \<noteq> [] \<Longrightarrow> drop i us = s \<Longrightarrow> us ! i = hd s"
  by (metis drop_all hd_drop_conv_nth not_less)

lemma selectPreRoll_eq:
  assumes "ring_core r"
  shows "selectPreRoll r trigger pre =
     selection_of (ring_generation r) (requested_from trigger pre) trigger
       (clip_from (requested_from trigger pre) trigger (ring_units r))"
proof (cases "ring_units r = []")
  case True
  with assms show ?thesis
    by (simp add: selectPreRoll_def selection_of_def clip_from_def from_first_def ring_core_def Let_def)
next
  case False
  let ?q = "requested_from trigger pre"
  have sorted: "ts_sorted (ring_units r)" using assms by (simp add: ring_core_def)
  show ?thesis
  proof (cases "from_newest ?q (ring_units r)")
    case None
    show ?thesis
    proof (cases "from_first trigger (ring_units r)")
      case first: None
      with None False sorted show ?thesis
        by (simp add: selectPreRoll_def selection_of_def clip_from_def Let_def
            newestDecodableUpTo_eq firstDecodableUpTo_eq)
    next
      case (Some s)
      note d = from_first_drop[OF Some]
      from from_first_SomeD[OF Some] have "s \<noteq> []" by blast
      from None Some False sorted d nth_hd_drop[OF this d] show ?thesis
        by (simp add: selectPreRoll_def selection_of_def clip_from_def Let_def
            newestDecodableUpTo_eq firstDecodableUpTo_eq)
    qed
  next
    case (Some s)
    note d = newestDecodable_drop[OF Some] and e = from_newest_SomeD[OF Some]
    from Some False d nth_hd_drop[OF _ d] e show ?thesis
      by (simp add: selectPreRoll_def selection_of_def clip_from_def Let_def newestDecodableUpTo_eq)
  qed
qed

section \<open>The unbounded history\<close>

text \<open>
  \<open>keep ret h\<close> is what the retention policy leaves of a whole history \<open>h\<close>: everything from the
  newest decodable unit that is at least \<open>ret\<close> older than the newest unit, or, while there is no
  such unit, everything from the first decodable one.
\<close>

definition keep :: "u64 \<Rightarrow> access_unit list \<Rightarrow> access_unit list" where
  "keep ret h =
     (if h = [] \<or> sensor_timestamp_ns (last h) \<le> ret then from_decodable h
      else case from_newest (sensor_timestamp_ns (last h) - ret) h of
             Some s \<Rightarrow> s
           | None \<Rightarrow> from_decodable h)"

lemma from_newest_None_iff:
  "ts_sorted us \<Longrightarrow> from_newest c us = None \<longleftrightarrow> (\<forall>u \<in> set us. independentlyDecodable u \<longrightarrow> c < sensor_timestamp_ns u)"
proof (induction us)
  case (Cons u us)
  then show ?case by (auto split: option.splits simp: not_less[symmetric])
qed simp

lemma from_newest_append:
  assumes "ts_sorted (xs @ s)" "from_newest c s = Some t"
  shows "from_newest c (xs @ s) = Some t"
  using assms
proof (induction xs)
  case (Cons x xs)
  from from_newest_SomeD[OF Cons.prems(2)] obtain v where "v \<in> set s" "sensor_timestamp_ns v \<le> c"
    by (metis hd_in_set set_mono_suffix subsetD)
  with Cons have "sensor_timestamp_ns x \<le> c"
    by (auto simp: ts_sorted_append intro: order_trans)
  with Cons show ?case by (simp add: not_less)
qed simp

text \<open>A later bound looks only at the units from an earlier bound's start on.\<close>

lemma from_newest_mono:
  assumes "ts_sorted us" "from_newest c us = Some s" "c \<le> c'"
  shows "from_newest c' us = from_newest c' s" "from_newest c' s \<noteq> None"
proof -
  from from_newest_SomeD[OF assms(2)] obtain p where p: "us = p @ s" and s: "s \<noteq> []"
    "independentlyDecodable (hd s)" "sensor_timestamp_ns (hd s) \<le> c" by (auto simp: suffix_def)
  have sorted: "ts_sorted s" using assms(1) p by (simp add: ts_sorted_append)
  have "\<not> c' < sensor_timestamp_ns (hd s)" using s(3) assms(3) by auto
  then show nn: "from_newest c' s \<noteq> None"
    using from_newest_None_iff[OF sorted] s(1,2) hd_in_set by blast
  then show "from_newest c' us = from_newest c' s"
    using from_newest_append[of p s] assms(1) p by auto
qed

lemma from_newest_from_decodable:
  assumes "ts_sorted us"
  shows "from_newest c (from_decodable us) = from_newest c us"
proof -
  obtain p where p: "us = p @ from_decodable us" "\<forall>u \<in> set p. \<not> independentlyDecodable u"
    by (metis set_takeWhileD takeWhile_dropWhile_id)
  have sorted: "ts_sorted (from_decodable us)"
    by (metis assms p(1) ts_sorted_append)
  show ?thesis
  proof (cases "from_newest c (from_decodable us)")
    case None
    then have "\<forall>u \<in> set (from_decodable us). independentlyDecodable u \<longrightarrow> c < sensor_timestamp_ns u"
      using from_newest_None_iff[OF sorted] by blast
    then have "\<forall>u \<in> set us. independentlyDecodable u \<longrightarrow> c < sensor_timestamp_ns u"
      using p by (metis Un_iff set_append)
    then have "from_newest c us = None" using from_newest_None_iff[OF assms] by blast
    with None show ?thesis by metis
  next
    case (Some t)
    then show ?thesis using from_newest_append[of p "from_decodable us"] assms p(1) by metis
  qed
qed

lemma keep_suffix: "suffix (keep ret h) h"
  by (auto simp: keep_def suffix_dropWhile dest: from_newest_SomeD split: option.split)

lemma keep_snoc_ne: "independentlyDecodable u \<Longrightarrow> keep ret (h @ [u]) \<noteq> []"
  by (auto simp: keep_def dest: from_newest_SomeD split: option.split)

lemma keep_cases:
  assumes "ts_sorted h"
  obtains (all) "keep ret h = from_decodable h"
  | (window) c where "h \<noteq> []" "ret < sensor_timestamp_ns (last h)"
      "c = sensor_timestamp_ns (last h) - ret" "from_newest c h = Some (keep ret h)"
proof (cases "h = [] \<or> sensor_timestamp_ns (last h) \<le> ret \<or> from_newest (sensor_timestamp_ns (last h) - ret) h = None")
  case True
  then have "keep ret h = from_decodable h" by (auto simp: keep_def)
  then show ?thesis by (rule all)
next
  case False
  then show ?thesis by (intro window) (auto simp: keep_def not_le)
qed

text \<open>Applying the policy unit by unit is the same as applying it once to the whole history.\<close>

lemma keep_compose:
  assumes "ts_sorted (h @ [u])"
  shows "keep ret (keep ret h @ [u]) = keep ret (h @ [u])"
proof -
  have h: "ts_sorted h" "\<forall>v \<in> set h. sensor_timestamp_ns v \<le> sensor_timestamp_ns u"
    using assms by (auto simp: ts_sorted_append)
  from h(1) show ?thesis
  proof (cases rule: keep_cases[where ret = ret])
    case all
    have "from_decodable (from_decodable h @ [u]) = from_decodable (h @ [u])"
      by (induction h) auto
    moreover have "from_newest c (from_decodable h @ [u]) = from_newest c (h @ [u])" for c
    proof -
      have "from_decodable (from_decodable h @ [u]) = from_decodable (h @ [u])" by fact
      moreover have "ts_sorted (from_decodable h @ [u])"
        using assms by (metis append_assoc takeWhile_dropWhile_id ts_sorted_append)
      ultimately show ?thesis
        using assms by (metis from_newest_from_decodable)
    qed
    ultimately show ?thesis
      unfolding all keep_def[of ret "from_decodable h @ [u]"] keep_def[of ret "h @ [u]"]
      by (simp split: option.split)
  next
    case (window c)
    let ?c' = "sensor_timestamp_ns u - ret"
    have le: "sensor_timestamp_ns (last h) \<le> sensor_timestamp_ns u" using h(2) window(1) by simp
    have "c \<le> ?c'" unfolding window(3)
      using window(2) le by (intro word_diff_mono) auto
    moreover obtain p where p: "h = p @ keep ret h" using keep_suffix[of ret h] by (auto simp: suffix_def)
    moreover have "ret < sensor_timestamp_ns u" using window(2) le by (rule less_le_trans)
    moreover have "from_newest ?c' (keep ret h @ [u]) \<noteq> None"
    proof -
      from from_newest_SomeD[OF window(4)] have "keep ret h \<noteq> []"
        "independentlyDecodable (hd (keep ret h))" "sensor_timestamp_ns (hd (keep ret h)) \<le> c"
        by auto
      moreover have "ts_sorted (keep ret h @ [u])"
        using assms p by (metis append_assoc ts_sorted_append)
      ultimately show ?thesis
        using \<open>c \<le> ?c'\<close> from_newest_None_iff[of "keep ret h @ [u]" ?c']
        by (metis UnI1 hd_in_set leD order_trans set_append)
    qed
    ultimately obtain t where "from_newest ?c' (keep ret h @ [u]) = Some t"
      "from_newest ?c' (p @ keep ret h @ [u]) = Some t"
      using from_newest_append[of p "keep ret h @ [u]"] assms by (metis append_assoc not_None_eq)
    moreover from p have "p @ keep ret h @ [u] = h @ [u]" by simp
    ultimately show ?thesis
      using \<open>ret < sensor_timestamp_ns u\<close>
      by (simp add: keep_def[of ret "keep ret h @ [u]"] keep_def[of ret "h @ [u]"] not_le[symmetric])
  qed
qed

text \<open>Within the retention time the policy does not change the choice of a clip.\<close>

lemma from_first_from_decodable: "from_first c (from_decodable us) = from_first c us"
  by (simp add: from_first_def)

lemma clip_from_keep:
  assumes "ts_sorted h" "h \<noteq> []"
    and "sensor_timestamp_ns (last h) \<le> ret \<or> sensor_timestamp_ns (last h) - ret \<le> requested"
  shows "clip_from requested trigger (keep ret h) = clip_from requested trigger h"
  using assms(1)
proof (cases rule: keep_cases[where ret = ret])
  case all
  show ?thesis
    unfolding all clip_from_def from_first_from_decodable from_newest_from_decodable[OF assms(1)] ..
next
  case (window c)
  with assms have "c \<le> requested" by auto
  from from_newest_mono[OF assms(1) window(4) this] show ?thesis
    by (auto simp: clip_from_def)
qed

section \<open>The ring against the unbounded history\<close>

lemma pruneByTime_units:
  assumes core: "ring_core r" and ret: "retention_ns r \<noteq> 0" and ne: "ring_units r \<noteq> []"
    and start: "length (ring_units r) = 1 \<or> independentlyDecodable (hd (ring_units r))"
  shows "from_decodable (ring_units (pruneByTimeLocked r)) = keep (retention_ns r) (ring_units r)"
    and "ring_units (pruneByTimeLocked r) = keep (retention_ns r) (ring_units r)
         \<or> (\<exists>u. ring_units r = [u] \<and> ring_units (pruneByTimeLocked r) = [u])"
proof -
  let ?us = "ring_units r" and ?ret = "retention_ns r" and ?p = "pruneByTimeLocked r"
  let ?c = "latest_sensor_ts r - ?ret"
  have sorted: "ts_sorted ?us" and latest: "latest_sensor_ts r = sensor_timestamp_ns (last ?us)"
    using core ne by (auto simp: ring_core_def)
  have keep: "keep ?ret ?us = (if latest_sensor_ts r \<le> ?ret then from_decodable ?us
      else case from_newest ?c ?us of Some s \<Rightarrow> s | None \<Rightarrow> from_decodable ?us)"
    using ne latest by (simp add: keep_def)
  consider (single) u where "?us = [u]" | (young) "length ?us \<ge> 2" "latest_sensor_ts r \<le> ?ret"
    | (window) s where "length ?us \<ge> 2" "latest_sensor_ts r > ?ret" "from_newest ?c ?us = Some s"
    | (late) "length ?us \<ge> 2" "latest_sensor_ts r > ?ret" "from_newest ?c ?us = None"
  proof (cases "\<exists>u. ?us = [u]")
    case False
    then have "length ?us \<ge> 2" using ne by (cases ?us; cases "tl ?us") auto
    then show ?thesis using young window late by (cases "from_newest ?c ?us") (auto simp: not_le[symmetric])
  qed (auto intro: single)
  then have "from_decodable (ring_units ?p) = keep ?ret ?us
      \<and> (ring_units ?p = keep ?ret ?us \<or> (\<exists>u. ?us = [u] \<and> ring_units ?p = [u]))"
  proof cases
    case single
    have "sensor_timestamp_ns u - ?ret < sensor_timestamp_ns u" if "?ret < sensor_timestamp_ns u"
    proof -
      have "0 < unat ?ret" using ret by (simp add: unat_gt_0)
      with that show ?thesis by (simp add: word_less_iff_unat unat_sub less_imp_le)
    qed
    with single keep latest show ?thesis by (auto simp: pruneByTimeLocked_def not_le)
  next
    case young
    then have "from_decodable ?us = ?us" using start by (cases ?us) auto
    with young keep show ?thesis by (simp add: pruneByTimeLocked_def)
  next
    case window
    note e = from_newest_SomeD[OF window(3)]
    then have "from_decodable s = s" by (cases s) auto
    with window not_le[THEN iffD2, OF window(2)] keep newestDecodable_drop[OF window(3)] show ?thesis
      by (simp add: pruneByTimeLocked_def Let_def newestDecodableUpTo_eq)
  next
    case late
    have dec: "independentlyDecodable (hd ?us)" using start late(1) by auto
    then have "?c < sensor_timestamp_ns (hd ?us)"
      using late(3) from_newest_None_iff[OF sorted] ne hd_in_set by blast
    then have "discardOlderThan ?c r = r" by (subst discardOlderThan.simps) auto
    moreover have "from_decodable ?us = ?us" using dec by (cases ?us) auto
    ultimately show ?thesis using late not_le[THEN iffD2, OF late(2)] keep
      by (simp add: pruneByTimeLocked_def Let_def newestDecodableUpTo_eq)
  qed
  then show "from_decodable (ring_units ?p) = keep ?ret ?us"
    "ring_units ?p = keep ?ret ?us \<or> (\<exists>u. ?us = [u] \<and> ring_units ?p = [u])" by blast+
qed

text \<open>Unless the byte limit interferes, admitting a unit is one application of the policy.\<close>

lemma ring_admit_units:
  assumes inv: "ring_inv r" and u: "au_valid u" "sizeBytes u \<le> max_bytes r"
    and fits: "ring_units r = [] \<or> generation u = ring_generation r \<and> latest_sensor_ts r \<le> sensor_timestamp_ns u"
    and ret: "retention_ns r \<noteq> 0"
    and room: "total_bytes (keep (retention_ns r) (ring_units r @ [u])) \<le> unat (max_bytes r)"
  shows "ring_units (ring_admit u r) = keep (retention_ns r) (ring_units r @ [u])"
proof -
  let ?a = "ring_append u r"
  have a: "ring_units ?a = ring_units r @ [u]" "retention_ns ?a = retention_ns r" "max_bytes ?a = max_bytes r"
    by (simp_all add: ring_append_def)
  have core: "ring_core ?a" using inv u fits by (rule ring_append_core)
  have start: "length (ring_units ?a) = 1 \<or> independentlyDecodable (hd (ring_units ?a))"
    using inv by (auto simp: a ring_inv_def hd_append)
  have prune: "from_decodable (ring_units (pruneByTimeLocked ?a)) = keep (retention_ns r) (ring_units r @ [u])"
    "ring_units (pruneByTimeLocked ?a) = keep (retention_ns r) (ring_units r @ [u])
     \<or> ring_units (pruneByTimeLocked ?a) = [u]"
    using pruneByTime_units[OF core _ _ start] ret by (auto simp: a)
  have "unat (ring_bytes (pruneByTimeLocked ?a)) = total_bytes (ring_units (pruneByTimeLocked ?a))"
    using pruneByTime_core[OF core] by (simp add: ring_core_def)
  also have "\<dots> \<le> unat (max_bytes r)"
    using prune(2) room u(2) by (auto simp: total_bytes_def word_le_iff_unat)
  finally have "discardWhileOverLimit (pruneByTimeLocked ?a) = pruneByTimeLocked ?a"
    by (intro discardWhileOverLimit_id) (simp add: a word_le_iff_unat)
  with prune(1) show ?thesis by (simp add: ring_admit_def Let_def pruneByBytesLocked_def)
qed

section \<open>Call sequences\<close>

datatype ring_op = PushOp "access_unit option" | ClearOp

fun ring_apply :: "ring_op \<Rightarrow> encoded_ring \<Rightarrow> encoded_ring" where
  "ring_apply (PushOp u) r = snd (ring_push u r)"
| "ring_apply ClearOp r = ring_clear r"

fun ring_op_wf :: "ring_op \<Rightarrow> bool" where
  "ring_op_wf (PushOp u) = pred_option au_wf u"
| "ring_op_wf ClearOp = True"

lemma ring_apply_inv: "ring_inv r \<Longrightarrow> ring_op_wf op \<Longrightarrow> ring_inv (ring_apply op r)"
  by (cases op) (simp_all add: ring_push_inv ring_clear_def resetLocked_inv)

lemma ring_fold_inv: "ring_inv r \<Longrightarrow> list_all ring_op_wf ops \<Longrightarrow> ring_inv (fold ring_apply ops r)"
  by (induction ops arbitrary: r) (simp_all add: ring_apply_inv)

lemma ring_apply_params [simp]:
  "retention_ns (ring_apply op r) = retention_ns r" "max_bytes (ring_apply op r) = max_bytes r"
  by (cases op; auto simp: ring_push_def ring_append_def ring_clear_def resetLocked_def Let_def
      split: option.split)+

lemma ring_fold_params [simp]:
  "retention_ns (fold ring_apply ops r) = retention_ns r"
  "max_bytes (fold ring_apply ops r) = max_bytes r"
  by (induction ops arbitrary: r) simp_all

text \<open>
  C1. Whatever sequence of \<open>push\<close> and \<open>clear\<close> calls a ring has seen, its byte count is the exact
  sum of the retained payload sizes and within the limit (the running 64-bit sum never wraps), its
  peak is within the limit too, the retained units are valid, of one generation and in timestamp
  order, and a non-empty ring starts with a unit at which decoding can start.
\<close>

theorem ring_invariant:
  assumes "ring_new ret lim = Inr r0" "unat lim < 2 ^ 63" "list_all ring_op_wf ops"
    and r: "r = fold ring_apply ops r0"
  shows "unat (ring_bytes r) = total_bytes (ring_units r)
         \<and> ring_bytes r \<le> peak_bytes r \<and> peak_bytes r \<le> lim
         \<and> ts_sorted (ring_units r)
         \<and> list_all (\<lambda>u. au_valid u \<and> generation u = ring_generation r) (ring_units r)
         \<and> (ring_units r = [] \<or> independentlyDecodable (hd (ring_units r)))"
proof -
  have "ring_inv r"
    unfolding r using ring_new_inv[OF assms(1,2)] assms(3) by (rule ring_fold_inv)
  moreover have "max_bytes r = lim"
    using assms(1) by (auto simp: r ring_new_def split: if_splits)
  ultimately show ?thesis
    by (auto simp: ring_inv_def ring_core_def list_all_iff)
qed

definition sample_unit :: "u64 \<Rightarrow> u64 \<Rightarrow> bool \<Rightarrow> nat \<Rightarrow> access_unit" where
  "sample_unit ts gen key n = \<lparr>sensor_timestamp_ns = ts, pts_ns = ts, dts_ns = ts, duration_ns = 1,
     generation = gen, keyframe = key, has_sps = key, has_pps = key,
     payload = Some (replicate n 7)\<rparr>"

lemma sample_unit_simps [simp]:
  "sensor_timestamp_ns (sample_unit ts gen key n) = ts"
  "generation (sample_unit ts gen key n) = gen"
  "independentlyDecodable (sample_unit ts gen key n) = key"
  "sizeBytes (sample_unit ts gen key n) = of_nat n"
  "payload (sample_unit ts gen key n) = Some (replicate n 7)"
  by (simp_all add: sample_unit_def independentlyDecodable_def sizeBytes_def)

theorem ring_invariant_witness:
  "\<exists>r0. ring_new 100 50 = Inr r0
        \<and> ring_bytes (fold ring_apply
             [PushOp (Some (sample_unit 10 1 True 20)), PushOp None, ClearOp,
              PushOp (Some (sample_unit 5 2 True 30)), PushOp (Some (sample_unit 9 2 False 30))] r0) \<le> 50"
proof -
  obtain r0 where new: "ring_new 100 50 = Inr r0" by (simp add: ring_new_def)
  then show ?thesis
    using ring_invariant[OF new _ _ refl,
        of "[PushOp (Some (sample_unit 10 1 True 20)), PushOp None, ClearOp,
             PushOp (Some (sample_unit 5 2 True 30)), PushOp (Some (sample_unit 9 2 False 30))]"]
    by (auto simp: au_wf_def)
qed

section \<open>What a pre-roll request returns\<close>

lemma from_newest_maximal:
  assumes "ts_sorted us" "from_newest c us = Some s" "v \<in> set (tl s)" "independentlyDecodable v"
  shows "c < sensor_timestamp_ns v"
  using assms
proof (induction us)
  case (Cons u us)
  then show ?case
    by (auto split: if_splits option.splits simp: from_newest_None_iff)
qed simp



text \<open>A stream that one encoder generation produced without interruption.\<close>

definition au_stream :: "u64 \<Rightarrow> u64 \<Rightarrow> access_unit list \<Rightarrow> bool" where
  "au_stream gen lim us \<longleftrightarrow> ts_sorted us
     \<and> list_all (\<lambda>u. au_valid u \<and> generation u = gen \<and> sizeBytes u \<le> lim) us"

lemma ring_push_stream:
  assumes inv: "ring_inv r" and units: "ring_units r = keep (retention_ns r) h"
    and stream: "au_stream gen (max_bytes r) (h @ [u])"
    and room: "total_bytes (keep (retention_ns r) (h @ [u])) \<le> unat (max_bytes r)"
  shows "ring_units (snd (ring_push (Some u) r)) = keep (retention_ns r) (h @ [u])"
proof -
  have u: "au_valid u" "sizeBytes u \<le> max_bytes r" "generation u = gen" and sorted: "ts_sorted (h @ [u])"
    using stream by (auto simp: au_stream_def)
  have sub: "set (ring_units r) \<subseteq> set h"
    unfolding units using keep_suffix by (rule set_mono_suffix)
  have fits: "ring_units r = [] \<or> generation u = ring_generation r \<and> latest_sensor_ts r \<le> sensor_timestamp_ns u"
  proof (cases "ring_units r = []")
    case False
    then have "last (ring_units r) \<in> set h" using sub by auto
    with False inv stream u(3) show ?thesis
      by (auto simp: ring_inv_def ring_core_def au_stream_def list_all_iff ts_sorted_append dest: bspec[where x = "last (ring_units r)"])
  qed simp
  have "ring_push (Some u) r = (Accepted, ring_admit u r)"
    using fits u by (auto simp: ring_push_def au_valid_def ring_admit_def Let_def not_less[symmetric])
  moreover have "ring_units (ring_admit u r) = keep (retention_ns r) (ring_units r @ [u])"
    using inv u(1,2) fits by (rule ring_admit_units)
      (use inv room keep_compose[OF sorted] in \<open>simp_all add: units ring_inv_def ring_core_def\<close>)
  ultimately show ?thesis using keep_compose[OF sorted] by (simp add: units)
qed

lemma au_stream_prefix: "au_stream gen lim (h @ [u]) \<Longrightarrow> au_stream gen lim h"
  by (simp add: au_stream_def ts_sorted_append)

definition push_units :: "access_unit list \<Rightarrow> encoded_ring \<Rightarrow> encoded_ring" where
  "push_units us r = fold (\<lambda>u r. snd (ring_push (Some u) r)) us r"

lemma push_units_simps [simp]:
  "push_units [] r = r" "push_units (us @ [u]) r = snd (ring_push (Some u) (push_units us r))"
  by (simp_all add: push_units_def)

lemma ring_push_params [simp]:
  "retention_ns (snd (ring_push u r)) = retention_ns r" "max_bytes (snd (ring_push u r)) = max_bytes r"
  using ring_apply_params[of "PushOp u" r] by simp_all

lemma push_units_stream:
  assumes "ring_inv r" "ring_units r = []" "au_stream gen (max_bytes r) us"
    and "\<forall>p. prefix p us \<longrightarrow> total_bytes (keep (retention_ns r) p) \<le> unat (max_bytes r)"
  shows "ring_inv (push_units us r) \<and> ring_units (push_units us r) = keep (retention_ns r) us
    \<and> retention_ns (push_units us r) = retention_ns r \<and> max_bytes (push_units us r) = max_bytes r"
  using assms
proof (induction us rule: rev_induct)
  case Nil
  then show ?case by (simp add: keep_def)
next
  case (snoc u us)
  then have pre: "\<forall>p. prefix p us \<longrightarrow> total_bytes (keep (retention_ns r) p) \<le> unat (max_bytes r)"
    by (meson prefix_prefix)
  note IH = snoc.IH[OF snoc.prems(1,2) au_stream_prefix[OF snoc.prems(3)] pre]
  have "au_wf u" using snoc.prems(3) by (simp add: au_stream_def au_valid_def)
  with IH have "ring_inv (snd (ring_push (Some u) (push_units us r)))"
    by (intro ring_push_inv) simp_all
  moreover have "ring_units (snd (ring_push (Some u) (push_units us r))) = keep (retention_ns r) (us @ [u])"
    using IH snoc.prems(3,4) ring_push_stream[of "push_units us r" us gen u] by simp
  ultimately show ?case using IH by simp
qed

text \<open>
  C3. Bounded memory is invisible to the event recorder: when one encoder generation has been pushed
  and the byte limit was never the tighter bound, a request whose start lies within the retention
  time gets exactly the answer that a ring keeping every unit ever pushed would give.
\<close>

theorem ring_refines_history:
  assumes new: "ring_new ret lim = Inr r0" "unat lim < 2 ^ 63"
    and stream: "au_stream gen lim us" "\<exists>u \<in> set us. independentlyDecodable u"
    and room: "\<forall>p. prefix p us \<longrightarrow> total_bytes (keep ret p) \<le> unat lim"
    and q: "q = requested_from trigger pre"
    and recent: "sensor_timestamp_ns (last us) \<le> ret \<or> sensor_timestamp_ns (last us) - ret \<le> q"
  shows "selectPreRoll (push_units us r0) trigger pre =
         selection_of gen q trigger (clip_from q trigger us)"
proof -
  let ?r = "push_units us r0"
  have r0: "retention_ns r0 = ret" "max_bytes r0 = lim" "ring_units r0 = []"
    using new(1) by (auto simp: ring_new_def split: if_splits)
  have run: "ring_inv ?r" "ring_units ?r = keep ret us"
    using push_units_stream[OF ring_new_inv[OF new] r0(3), of gen us] stream room by (simp_all add: r0)
  have ne: "us \<noteq> []" and sorted: "ts_sorted us" using stream by (auto simp: au_stream_def)
  have "keep ret us \<noteq> []"
    using sorted by (cases rule: keep_cases[where ret = ret])
      (use stream(2) in \<open>auto dest: from_newest_SomeD\<close>)
  then have "hd (keep ret us) \<in> set (ring_units ?r)" "hd (keep ret us) \<in> set us"
    using run(2) set_mono_suffix[OF keep_suffix, of ret us] by auto
  then have "ring_generation ?r = gen"
    using run(1) stream(1) by (auto simp: ring_inv_def ring_core_def au_stream_def list_all_iff)
  moreover have "clip_from q trigger (ring_units ?r) = clip_from q trigger us"
    unfolding run(2) using sorted ne recent by (rule clip_from_keep)
  ultimately show ?thesis
    using run(1) by (simp add: selectPreRoll_eq[of ?r] ring_inv_def q)
qed

theorem ring_refines_history_witness:
  "\<exists>r0. ring_new 100 50 = Inr r0
     \<and> selectPreRoll (push_units [sample_unit 10 1 True 3, sample_unit 20 1 False 3] r0) 15 2 =
       selection_of 1 13 15 (clip_from 13 15 [sample_unit 10 1 True 3, sample_unit 20 1 False 3])"
proof -
  let ?us = "[sample_unit 10 1 True 3, sample_unit 20 1 False 3]"
  obtain r0 where new: "ring_new 100 50 = Inr r0" by (simp add: ring_new_def)
  have "au_stream 1 50 ?us"
    by (simp add: au_stream_def au_valid_def au_wf_def ts_sorted_def word_le_iff_unat)
  moreover have "\<forall>p. prefix p ?us \<longrightarrow> total_bytes (keep 100 p) \<le> unat (50::u64)"
  proof (intro allI impI)
    fix p assume "prefix p ?us"
    then have "prefix p (butlast ?us @ [last ?us])" by simp
    then have "p \<in> {[], [sample_unit 10 1 True 3], ?us}"
      by (auto simp: prefix_Cons)
    then show "total_bytes (keep 100 p) \<le> unat (50::u64)" by (auto simp: keep_def)
  qed
  ultimately have "selectPreRoll (push_units ?us r0) 15 2 =
     selection_of 1 13 15 (clip_from 13 15 ?us)"
    by (intro ring_refines_history[OF new]) (simp_all add: word_le_iff_unat)
  with new show ?thesis by blast
qed

section \<open>The contract towards the event recorder\<close>

text \<open>What every clip that leaves the ring satisfies.\<close>

definition clip_ok :: "u64 \<Rightarrow> access_unit list \<Rightarrow> bool" where
  "clip_ok gen us \<longleftrightarrow> us \<noteq> [] \<and> gen \<noteq> 0 \<and> independentlyDecodable (hd us) \<and> ts_sorted us
     \<and> list_all (\<lambda>u. au_valid u \<and> generation u = gen) us"

locale preroll_source =
  fixes inv :: "'s \<Rightarrow> bool"
    and insert_unit :: "access_unit option \<Rightarrow> 's \<Rightarrow> ring_push_result \<times> 's"
    and select :: "'s \<Rightarrow> u64 \<Rightarrow> u64 \<Rightarrow> ring_selection"
  assumes insert_inv: "inv s \<Longrightarrow> pred_option au_wf u \<Longrightarrow> inv (snd (insert_unit u s))"
    and select_clip: "inv s \<Longrightarrow> has_independent_start (select s t p) \<Longrightarrow>
          clip_ok (sel_generation (select s t p)) (sel_units (select s t p))"
    and select_start: "inv s \<Longrightarrow> has_independent_start (select s t p) \<Longrightarrow>
          sensor_timestamp_ns (hd (sel_units (select s t p))) \<le> t"
    and select_none: "inv s \<Longrightarrow> \<not> has_independent_start (select s t p) \<Longrightarrow> sel_units (select s t p) = []"
begin

lemma inserts_inv:
  "inv s \<Longrightarrow> list_all (pred_option au_wf) us \<Longrightarrow> inv (fold (\<lambda>u s. snd (insert_unit u s)) us s)"
  by (induction us arbitrary: s) (simp_all add: insert_inv)

lemma select_usable_iff: "inv s \<Longrightarrow> has_independent_start (select s t p) \<longleftrightarrow> sel_units (select s t p) \<noteq> []"
  using select_clip select_none by (fastforce simp: clip_ok_def)

end

lemma ring_select_clip:
  assumes inv: "ring_inv r" and has: "has_independent_start (selectPreRoll r t p)"
  shows "clip_ok (sel_generation (selectPreRoll r t p)) (sel_units (selectPreRoll r t p))"
proof -
  have core: "ring_core r" using inv by (simp add: ring_inv_def)
  let ?c = "clip_from (requested_from t p) t (ring_units r)"
  obtain c where c: "?c = Some c"
    using has by (auto simp: selectPreRoll_eq[OF core] selection_of_def split: option.splits)
  then have "suffix c (ring_units r)" "c \<noteq> []" "independentlyDecodable (hd c)"
    by (auto simp: clip_from_def suffix_dropWhile dest!: from_newest_SomeD from_first_SomeD split: option.splits)
  moreover from this(1) have "ts_sorted c" "list_all (\<lambda>u. au_valid u \<and> generation u = ring_generation r) c"
    using core by (auto simp: ring_core_def suffix_def ts_sorted_append list_all_iff)
  moreover from this(2) \<open>c \<noteq> []\<close> have "ring_generation r \<noteq> 0"
    by (cases c) (auto simp: au_valid_def)
  ultimately show ?thesis
    by (simp add: selectPreRoll_eq[OF core] selection_of_def c clip_ok_def)
qed

lemma ring_select_start:
  assumes inv: "ring_inv r" and has: "has_independent_start (selectPreRoll r t p)"
  shows "sensor_timestamp_ns (hd (sel_units (selectPreRoll r t p))) \<le> t"
proof -
  have core: "ring_core r" using inv by (simp add: ring_inv_def)
  define q where "q = requested_from t p"
  have qt: "q \<le> t" by (auto simp: q_def word_le_iff_unat word_less_iff_unat unat_sub)
  obtain c where c: "clip_from q t (ring_units r) = Some c"
    using has by (auto simp: selectPreRoll_eq[OF core] selection_of_def q_def split: option.splits)
  then have "sensor_timestamp_ns (hd c) \<le> t"
    using qt by (auto simp: clip_from_def split: option.splits dest!: from_newest_SomeD from_first_SomeD)
  with c show ?thesis by (simp add: selectPreRoll_eq[OF core] selection_of_def q_def[symmetric])
qed

lemma ring_select_none:
  "ring_inv r \<Longrightarrow> \<not> has_independent_start (selectPreRoll r t p) \<Longrightarrow> sel_units (selectPreRoll r t p) = []"
  by (auto simp: ring_inv_def selectPreRoll_eq selection_of_def split: option.splits)

interpretation ring: preroll_source ring_inv ring_push selectPreRoll
  by unfold_locales (simp_all add: ring_push_inv ring_select_clip ring_select_start ring_select_none)

end
