(* ===== verification/I420_Frame.thy ===== *)
theory I420_Frame
  imports Egg_Prelude
begin

text \<open>
  \<open>PlaneView\<close> and \<open>StreamView\<close> (\<open>include/eggvision/frame.hpp\<close>) and the I420 helpers of
  \<open>src/i420.cpp\<close>. Memory is a function from addresses to bytes, a pointer is its 64-bit address
  with 0 for \<open>nullptr\<close>, and all size arithmetic is on the words the source uses, overflow guards
  included.

  Main results: the copy fallback produces the rows of the three planes and reads nothing outside
  the planes it was given, and whenever \<open>inspectCompactI420\<close> offers the mapped buffer for
  zero-copy use, that buffer holds exactly the bytes the copy fallback would have produced.
\<close>

section \<open>Views\<close>

type_synonym ptr = u64
type_synonym memory = "ptr \<Rightarrow> u8"

record plane_view =
  plane_fd :: int
  plane_offset :: u32
  plane_length :: u32
  bytes_used :: u32
  plane_data :: ptr
  mapping_base :: ptr
  mapped_length :: u64

record stream_view =
  sv_width :: u32
  sv_height :: u32
  sv_stride :: u32
  frame_size :: u32
  planes :: "plane_view list"

record i420_sizes =
  y_size :: u64
  chroma_size :: u64
  total_size :: u64

section \<open>Size arithmetic\<close>

definition checkedMultiply :: "u64 \<Rightarrow> u64 \<Rightarrow> u64 option" where
  "checkedMultiply left right =
     (if left \<noteq> 0 \<and> right > u64_max div left then None else Some (left * right))"

definition calculateSizes :: "stream_view \<Rightarrow> i420_sizes option" where
  "calculateSizes view =
     (if sv_width view = 0 \<or> sv_height view = 0 \<or> sv_width view mod 2 \<noteq> 0 \<or> sv_height view mod 2 \<noteq> 0
      then None
      else case checkedMultiply (ucast (sv_width view)) (ucast (sv_height view)) of
             None \<Rightarrow> None
           | Some y \<Rightarrow>
               let chroma = y div 4
               in if chroma > (u64_max - y) div 2 then None
                  else Some \<lparr>y_size = y, chroma_size = chroma, total_size = y + 2 * chroma\<rparr>)"

definition requiredRowSpan :: "u32 \<Rightarrow> u32 \<Rightarrow> u32 \<Rightarrow> u64 option" where
  "requiredRowSpan rows width stride =
     (if rows = 0 \<or> width = 0 \<or> stride < width then None
      else case checkedMultiply (ucast (rows - 1)) (ucast stride) of
             None \<Rightarrow> None
           | Some row_offset \<Rightarrow>
               if ucast width > u64_max - row_offset then None else Some (row_offset + ucast width))"

definition containsBytes :: "plane_view \<Rightarrow> u64 \<Rightarrow> bool" where
  "containsBytes plane required \<longleftrightarrow>
     (if plane_data plane = 0 \<or> required > ucast (plane_length plane)
         \<or> required > ucast (bytes_used plane) then False
      else if mapping_base plane = 0 then True
      else if plane_data plane < mapping_base plane
              \<or> plane_data plane - mapping_base plane > mapped_length plane then False
      else required \<le> mapped_length plane - (plane_data plane - mapping_base plane))"

section \<open>The copy fallback\<close>

definition read_n :: "memory \<Rightarrow> ptr \<Rightarrow> nat \<Rightarrow> u8 list" where
  "read_n mem source n = map (\<lambda>i. mem (source + of_nat i)) [0..<n]"

definition write_at :: "nat \<Rightarrow> u8 list \<Rightarrow> u8 list \<Rightarrow> u8 list" where
  "write_at target bs dest = take target dest @ bs @ drop (target + length bs) dest"

definition copyRows :: "memory \<Rightarrow> nat \<Rightarrow> ptr \<Rightarrow> u32 \<Rightarrow> u32 \<Rightarrow> u32 \<Rightarrow> u8 list \<Rightarrow> u8 list" where
  "copyRows mem target source rows width stride dest =
     fold (\<lambda>row d. write_at (target + row * unat width)
                    (read_n mem (source + of_nat row * ucast stride) (unat width)) d)
       [0..<unat rows] dest"

definition planePointers :: "stream_view \<Rightarrow> u64 \<Rightarrow> u64 \<Rightarrow> string + ptr \<times> ptr \<times> ptr" where
  "planePointers view y_span chroma_span =
     (case planes view of
        [p] \<Rightarrow>
          (case (checkedMultiply (ucast (sv_stride view)) (ucast (sv_height view)),
                 checkedMultiply (ucast (sv_stride view div 2)) (ucast (sv_height view div 2))) of
             (Some y_block, Some chroma_block) \<Rightarrow>
               if chroma_block > (u64_max - y_block) div 2 then Inl ''mapped I420 plane span overflow''
               else if \<not> containsBytes p (y_block + 2 * chroma_block)
               then Inl ''mapped I420 plane is shorter than its stride layout''
               else Inr (plane_data p, plane_data p + y_block, plane_data p + y_block + chroma_block)
           | _ \<Rightarrow> Inl ''mapped I420 plane span overflow'')
      | [y, u, v] \<Rightarrow>
          if \<not> containsBytes y y_span \<or> \<not> containsBytes u chroma_span \<or> \<not> containsBytes v chroma_span
          then Inl ''mapped I420 plane is shorter than its row layout''
          else Inr (plane_data y, plane_data u, plane_data v)
      | _ \<Rightarrow> Inl ''mapped I420 requires one or three planes'')"

record copy_result =
  copy_ok :: bool
  destination :: "u8 list"
  copy_error :: string

definition copy_fails :: "string \<Rightarrow> copy_result" where
  "copy_fails e = \<lparr>copy_ok = False, destination = [], copy_error = e\<rparr>"

definition copyMappedI420 :: "memory \<Rightarrow> stream_view \<Rightarrow> copy_result" where
  "copyMappedI420 mem view =
     (case calculateSizes view of
        None \<Rightarrow> copy_fails ''invalid mapped I420 layout''
      | Some sizes \<Rightarrow>
          if sv_stride view < sv_width view \<or> sv_stride view mod 2 \<noteq> 0 \<or> planes view = []
          then copy_fails ''invalid mapped I420 layout''
          else case (requiredRowSpan (sv_height view) (sv_width view) (sv_stride view),
                     requiredRowSpan (sv_height view div 2) (sv_width view div 2) (sv_stride view div 2)) of
                 (Some y_span, Some chroma_span) \<Rightarrow>
                   (case planePointers view y_span chroma_span of
                      Inl e \<Rightarrow> copy_fails e
                    | Inr (y, u, v) \<Rightarrow>
                        let d0 = replicate (unat (total_size sizes)) 0;
                            d1 = copyRows mem 0 y (sv_height view) (sv_width view) (sv_stride view) d0;
                            d2 = copyRows mem (unat (y_size sizes)) u (sv_height view div 2)
                                   (sv_width view div 2) (sv_stride view div 2) d1;
                            d3 = copyRows mem (unat (y_size sizes + chroma_size sizes)) v (sv_height view div 2)
                                   (sv_width view div 2) (sv_stride view div 2) d2
                        in \<lparr>copy_ok = True, destination = d3, copy_error = []\<rparr>)
               | _ \<Rightarrow> copy_fails ''mapped I420 row span overflow'')"

section \<open>The zero-copy test\<close>

datatype compact_i420_status =
    Compatible | InvalidDimensions | UnexpectedPlaneCount | UnexpectedStride
  | InvalidFileDescriptor | DifferentFileDescriptors | MissingMapping | InconsistentMapping
  | NonCompactOffsets | PlaneTooShort | PayloadTooShort | MappingTooShort

record compact_i420_view =
  ci_status :: compact_i420_status
  ci_data :: ptr
  ci_size :: u64

definition rejected :: "compact_i420_status \<Rightarrow> compact_i420_view" where
  "rejected s = \<lparr>ci_status = s, ci_data = 0, ci_size = 0\<rparr>"

definition inspectCompactI420 :: "stream_view \<Rightarrow> compact_i420_view" where
  "inspectCompactI420 view =
     (case calculateSizes view of
        None \<Rightarrow> rejected InvalidDimensions
      | Some sizes \<Rightarrow>
         (case planes view of
            [y, u, v] \<Rightarrow>
              if sv_stride view \<noteq> sv_width view then rejected UnexpectedStride
              else if plane_fd y < 0 \<or> plane_fd u < 0 \<or> plane_fd v < 0
              then rejected InvalidFileDescriptor
              else if plane_fd y \<noteq> plane_fd u \<or> plane_fd y \<noteq> plane_fd v
              then rejected DifferentFileDescriptors
              else if plane_data y = 0 \<or> plane_data u = 0 \<or> plane_data v = 0
                      \<or> mapping_base y = 0 \<or> mapping_base u = 0 \<or> mapping_base v = 0
              then rejected MissingMapping
              else if mapping_base y \<noteq> mapping_base u \<or> mapping_base y \<noteq> mapping_base v
                      \<or> mapped_length y \<noteq> mapped_length u \<or> mapped_length y \<noteq> mapped_length v
              then rejected InconsistentMapping
              else if plane_offset y \<noteq> 0 \<or> ucast (plane_offset u) \<noteq> y_size sizes
                      \<or> ucast (plane_offset v) \<noteq> y_size sizes + chroma_size sizes
              then rejected NonCompactOffsets
              else if ucast (plane_length y) < y_size sizes \<or> ucast (plane_length u) < chroma_size sizes
                      \<or> ucast (plane_length v) < chroma_size sizes
              then rejected PlaneTooShort
              else if ucast (bytes_used y) < y_size sizes \<or> ucast (bytes_used u) < chroma_size sizes
                      \<or> ucast (bytes_used v) < chroma_size sizes
              then rejected PayloadTooShort
              else if ucast (frame_size view) < total_size sizes \<or> mapped_length y < total_size sizes
              then rejected MappingTooShort
              else if plane_data y \<noteq> mapping_base y \<or> plane_data u \<noteq> mapping_base y + y_size sizes
                      \<or> plane_data v \<noteq> mapping_base y + y_size sizes + chroma_size sizes
              then rejected InconsistentMapping
              else \<lparr>ci_status = Compatible, ci_data = plane_data y, ci_size = total_size sizes\<rparr>
          | _ \<Rightarrow> rejected UnexpectedPlaneCount))"

fun compactI420StatusName :: "compact_i420_status \<Rightarrow> string" where
  "compactI420StatusName Compatible = ''compatible''"
| "compactI420StatusName InvalidDimensions = ''invalid_dimensions''"
| "compactI420StatusName UnexpectedPlaneCount = ''unexpected_plane_count''"
| "compactI420StatusName UnexpectedStride = ''unexpected_stride''"
| "compactI420StatusName InvalidFileDescriptor = ''invalid_file_descriptor''"
| "compactI420StatusName DifferentFileDescriptors = ''different_file_descriptors''"
| "compactI420StatusName MissingMapping = ''missing_mapping''"
| "compactI420StatusName InconsistentMapping = ''inconsistent_mapping''"
| "compactI420StatusName NonCompactOffsets = ''non_compact_offsets''"
| "compactI420StatusName PlaneTooShort = ''plane_too_short''"
| "compactI420StatusName PayloadTooShort = ''payload_too_short''"
| "compactI420StatusName MappingTooShort = ''mapping_too_short''"

section \<open>Facts on the size arithmetic\<close>

lemma unat_u32_less: "unat (x :: u32) < 2 ^ 32"
  using unsigned_less[of x, where 'a = nat] by simp

lemma unat_ucast_u32 [simp]: "unat (ucast (x :: u32) :: u64) = unat x"
proof -
  have "unat x < 2 ^ 64" using unat_u32_less[of x] by simp
  then show ?thesis by (simp add: unsigned_ucast_eq take_bit_nat_eq_self)
qed

lemma u32_mult_less: "unat (x :: u32) * unat (y :: u32) < 2 ^ 64"
proof -
  have "unat x * unat y \<le> (2 ^ 32 - 1) * (2 ^ 32 - 1)"
    using unat_u32_less[of x] unat_u32_less[of y] by (intro mult_le_mono) auto
  then show ?thesis by simp
qed

lemma unat_mult_u32: "unat (ucast (x :: u32) * ucast (y :: u32) :: u64) = unat x * unat y"
  using u32_mult_less[of x y] by (simp add: unat_mult_no_wrap)

lemma checkedMultiply_SomeD:
  assumes "checkedMultiply a b = Some c"
  shows "unat c = unat a * unat b"
proof (cases "a = 0")
  case False
  then have le: "unat b \<le> (2 ^ 64 - 1) div unat a"
    using assms by (auto simp: checkedMultiply_def word_less_iff_unat unat_div not_less split: if_splits)
  have "unat a * unat b \<le> unat a * ((2 ^ 64 - 1) div unat a)" using le by (rule mult_le_mono2)
  also have "\<dots> \<le> 2 ^ 64 - 1" by (rule times_div_less_eq_dividend)
  finally have "unat a * unat b < 2 ^ 64" by simp
  with assms show ?thesis by (auto simp: checkedMultiply_def unat_mult_no_wrap split: if_splits)
qed (use assms in \<open>auto simp: checkedMultiply_def\<close>)

lemma checkedMultiply_NoneD: "checkedMultiply a b = None \<Longrightarrow> 2 ^ 64 \<le> unat a * unat b"
proof -
  assume "checkedMultiply a b = None"
  then have "a \<noteq> 0" "(2 ^ 64 - 1) div unat a < unat b"
    by (auto simp: checkedMultiply_def word_less_iff_unat unat_div split: if_splits)
  then have "2 ^ 64 - 1 < unat b * unat a" by (simp add: div_less_iff_less_mult unat_gt_0)
  then show ?thesis by (simp add: mult.commute)
qed

text \<open>On 32-bit extents the overflow guards never fire: the only rejected sizes are zero or odd ones.\<close>

lemma checkedMultiply_u32:
  "checkedMultiply (ucast (x :: u32)) (ucast (y :: u32)) = Some (ucast x * ucast y)"
proof -
  have "checkedMultiply (ucast x) (ucast y) \<noteq> None"
    using checkedMultiply_NoneD[of "ucast x" "ucast y"] u32_mult_less[of x y] by auto
  then show ?thesis by (auto simp: checkedMultiply_def split: if_splits)
qed

lemma unat_u32_half: "unat ((x :: u32) div 2) = unat x div 2"
  by (simp add: unat_div)

lemma u32_even: "(x :: u32) mod 2 = 0 \<longleftrightarrow> even (unat x)"
proof -
  have "x mod 2 = 0 \<longleftrightarrow> unat (x mod 2) = 0" by (simp add: unat_eq_0)
  then show ?thesis by (simp add: unat_mod even_iff_mod_2_eq_zero)
qed

lemma u32_half_nonzero:
  assumes "(x :: u32) \<noteq> 0" "even (unat x)"
  shows "x div 2 \<noteq> 0"
proof
  assume "x div 2 = 0"
  then have "unat x div 2 = 0" using unat_u32_half[of x] by simp
  with assms(2) have "unat x = 0" by (auto elim!: evenE)
  with assms(1) show False by (simp add: unat_eq_0)
qed

text \<open>What the guard \<open>chroma > (max - y) / 2\<close> buys: the sum of the three planes does not wrap.\<close>

lemma plane_sum_no_wrap:
  assumes "(c :: u64) \<le> (u64_max - y) div 2"
  shows "unat (y + 2 * c) = unat y + 2 * unat c" "unat (y + c) = unat y + unat c"
proof -
  have "y \<le> u64_max" by simp
  then have "unat c \<le> (2 ^ 64 - 1 - unat y) div 2"
    using assms by (simp add: word_le_iff_unat unat_div unat_sub)
  then have le: "unat y + 2 * unat c < 2 ^ 64"
    using unsigned_less[of y, where 'a = nat] by simp
  then have "unat (2 * c) = 2 * unat c" by (subst unat_mult_no_wrap) simp_all
  with le show "unat (y + 2 * c) = unat y + 2 * unat c" by (simp add: unat_add_no_wrap)
  from le show "unat (y + c) = unat y + unat c" by (simp add: unat_add_no_wrap)
qed

lemma calculateSizes_SomeD:
  assumes "calculateSizes view = Some s"
  shows "sv_width view \<noteq> 0 \<and> sv_height view \<noteq> 0 \<and> even (unat (sv_width view)) \<and> even (unat (sv_height view))"
    and "unat (y_size s) = unat (sv_height view) * unat (sv_width view)"
    and "unat (chroma_size s) = (unat (sv_height view) div 2) * (unat (sv_width view) div 2)"
    and "unat (total_size s) = unat (y_size s) + 2 * unat (chroma_size s)"
    and "unat (y_size s + chroma_size s) = unat (y_size s) + unat (chroma_size s)"
proof -
  let ?w = "unat (sv_width view)" and ?h = "unat (sv_height view)"
  show dims: "sv_width view \<noteq> 0 \<and> sv_height view \<noteq> 0 \<and> even ?w \<and> even ?h"
    using assms by (auto simp: calculateSizes_def u32_even[symmetric] split: if_splits)
  have sizes: "y_size s = ucast (sv_width view) * ucast (sv_height view)"
    "chroma_size s = y_size s div 4" "total_size s = y_size s + 2 * chroma_size s"
    "chroma_size s \<le> (u64_max - y_size s) div 2"
    using assms by (auto simp: calculateSizes_def checkedMultiply_u32 Let_def not_less split: if_splits)
  show y: "unat (y_size s) = ?h * ?w" by (simp add: sizes(1) unat_mult_u32 mult.commute)
  from dims obtain a b where ab: "?w = 2 * a" "?h = 2 * b" by (auto elim!: evenE)
  show "unat (chroma_size s) = (?h div 2) * (?w div 2)"
    by (simp add: sizes(2) unat_div y ab)
  show "unat (total_size s) = unat (y_size s) + 2 * unat (chroma_size s)"
    "unat (y_size s + chroma_size s) = unat (y_size s) + unat (chroma_size s)"
    using plane_sum_no_wrap[OF sizes(4)] by (simp_all add: sizes(3))
qed

lemma requiredRowSpan_SomeD:
  assumes "requiredRowSpan rows width stride = Some span"
  shows "rows \<noteq> 0" "width \<noteq> 0" "width \<le> stride"
    and "unat span = (unat rows - 1) * unat stride + unat width"
proof -
  show "rows \<noteq> 0" "width \<noteq> 0" "width \<le> stride"
    using assms by (auto simp: requiredRowSpan_def not_less split: if_splits)
  let ?o = "ucast (rows - 1) * ucast stride :: u64"
  have o: "span = ?o + ucast width" "ucast width \<le> u64_max - ?o"
    using assms by (auto simp: requiredRowSpan_def checkedMultiply_u32 not_less split: if_splits)
  have "1 \<le> rows" using \<open>rows \<noteq> 0\<close> by (simp add: word_le_iff_unat Suc_le_eq unat_gt_0)
  then have r: "unat (rows - 1) = unat rows - 1" by (simp add: unat_sub)
  have "?o \<le> u64_max" by simp
  then have "unat width \<le> 2 ^ 64 - 1 - unat ?o" using o(2) by (simp only: word_le_iff_unat unat_sub) simp
  then have "unat ?o + unat (ucast width :: u64) < 2 ^ 64"
    using unsigned_less[of ?o, where 'a = nat] by simp
  then show "unat span = (unat rows - 1) * unat stride + unat width"
    by (simp add: o(1) unat_add_no_wrap unat_mult_u32 r)
qed

section \<open>What the copy reads\<close>

text \<open>The addresses of a plane in row-major order, and those of the three planes of a view.\<close>

definition row_addresses :: "ptr \<Rightarrow> u32 \<Rightarrow> nat \<Rightarrow> nat \<Rightarrow> ptr list" where
  "row_addresses base stride width row = map (\<lambda>c. base + of_nat row * ucast stride + of_nat c) [0..<width]"

definition plane_addresses :: "ptr \<Rightarrow> u32 \<Rightarrow> nat \<Rightarrow> nat \<Rightarrow> ptr list" where
  "plane_addresses base stride rows width =
     concat (map (row_addresses base stride width) [0..<rows])"

definition i420_addresses :: "stream_view \<Rightarrow> ptr \<times> ptr \<times> ptr \<Rightarrow> ptr list" where
  "i420_addresses view bases =
     (let h = unat (sv_height view); w = unat (sv_width view); s = sv_stride view; (y, u, v) = bases
      in plane_addresses y s h w
         @ plane_addresses u (s div 2) (h div 2) (w div 2)
         @ plane_addresses v (s div 2) (h div 2) (w div 2))"

lemma length_plane_addresses [simp]: "length (plane_addresses b s rows width) = rows * width"
  by (induction rows) (simp_all add: plane_addresses_def row_addresses_def)

lemma read_n_rows: "read_n mem (b + of_nat r * ucast s) w = map mem (row_addresses b s w r)"
  by (simp add: read_n_def row_addresses_def)

lemma length_row_addresses [simp]: "length (row_addresses b s w r) = w"
  by (simp add: row_addresses_def)

lemma write_at_append:
  "length p = t \<Longrightarrow> write_at t bs (p @ rest) = p @ bs @ drop (length bs) rest"
  by (simp add: write_at_def)

lemma copyRows_append:
  assumes "length p = target" "length q = unat rows * unat width"
  shows "copyRows mem target source rows width stride (p @ q @ rest) =
     p @ map mem (plane_addresses source stride (unat rows) (unat width)) @ rest"
proof -
  let ?w = "unat width"
  let ?step = "\<lambda>row d. write_at (target + row * ?w) (read_n mem (source + of_nat row * ucast stride) ?w) d"
  let ?done = "\<lambda>n. p @ map mem (plane_addresses source stride n ?w)"
  have "fold ?step [0..<n] (p @ q @ rest) = ?done n @ drop (n * ?w) (q @ rest)" for n
  proof (induction n)
    case 0
    then show ?case by (simp add: plane_addresses_def)
  next
    case (Suc n)
    have "fold ?step [0..<Suc n] (p @ q @ rest) = ?step n (?done n @ drop (n * ?w) (q @ rest))"
      using Suc by simp
    also have "\<dots> = ?done n @ map mem (row_addresses source stride ?w n) @ drop ?w (drop (n * ?w) (q @ rest))"
      by (subst write_at_append) (simp_all add: assms(1) read_n_rows)
    finally show ?case by (simp add: plane_addresses_def del: drop_append)
  qed
  from this[of "unat rows"] show ?thesis by (simp add: copyRows_def assms(2))
qed

lemma copyMappedI420_okE:
  assumes "copy_ok (copyMappedI420 mem view)"
  obtains sizes y_span chroma_span bases where
    "calculateSizes view = Some sizes" "sv_width view \<le> sv_stride view" "even (unat (sv_stride view))"
    "requiredRowSpan (sv_height view) (sv_width view) (sv_stride view) = Some y_span"
    "requiredRowSpan (sv_height view div 2) (sv_width view div 2) (sv_stride view div 2) = Some chroma_span"
    "planePointers view y_span chroma_span = Inr bases"
  using assms
  by (auto simp: copyMappedI420_def copy_fails_def not_less u32_even split: option.splits sum.splits if_splits)

lemma copyMappedI420_destination:
  assumes "calculateSizes view = Some sizes" "sv_width view \<le> sv_stride view" "even (unat (sv_stride view))"
    "requiredRowSpan (sv_height view) (sv_width view) (sv_stride view) = Some y_span"
    "requiredRowSpan (sv_height view div 2) (sv_width view div 2) (sv_stride view div 2) = Some chroma_span"
    "planePointers view y_span chroma_span = Inr bases"
  shows "copyMappedI420 mem view =
    \<lparr>copy_ok = True, destination = map mem (i420_addresses view bases), copy_error = []\<rparr>"
proof -
  obtain y u v where b: "bases = (y, u, v)" by (cases bases)
  have ne: "planes view \<noteq> []" using assms(6) by (auto simp: planePointers_def)
  note sz = calculateSizes_SomeD[OF assms(1)]
  let ?h = "sv_height view" and ?w = "sv_width view" and ?s = "sv_stride view"
  let ?n = "unat (y_size sizes)" and ?c = "unat (chroma_size sizes)" and ?z = "\<lambda>n. replicate n (0 :: u8)"
  have split: "?z (unat (total_size sizes)) = [] @ ?z ?n @ ?z ?c @ ?z ?c"
    by (simp add: sz(4) mult_2 replicate_add)
  let ?y = "map mem (plane_addresses y ?s (unat ?h) (unat ?w))"
  let ?u = "map mem (plane_addresses u (?s div 2) (unat (?h div 2)) (unat (?w div 2)))"
  have d1: "copyRows mem 0 y ?h ?w ?s (?z (unat (total_size sizes))) = ?y @ ?z ?c @ ?z ?c @ []"
    unfolding split by (subst copyRows_append) (simp_all add: sz)
  have d2: "copyRows mem ?n u (?h div 2) (?w div 2) (?s div 2) (?y @ ?z ?c @ ?z ?c @ []) = (?y @ ?u) @ ?z ?c @ []"
    by (subst copyRows_append) (simp_all add: sz unat_u32_half)
  have d3: "copyRows mem (unat (y_size sizes + chroma_size sizes)) v (?h div 2) (?w div 2) (?s div 2)
      ((?y @ ?u) @ ?z ?c @ []) = map mem (i420_addresses view bases)"
    by (subst copyRows_append) (simp_all add: sz unat_u32_half i420_addresses_def b Let_def)
  show ?thesis
    using assms ne d1 d2 d3 by (simp add: copyMappedI420_def b u32_even not_less[symmetric] Let_def)
qed

section \<open>Reads stay inside the planes\<close>

definition in_plane :: "plane_view \<Rightarrow> ptr \<Rightarrow> bool" where
  "in_plane p a \<longleftrightarrow>
     unat (a - plane_data p) < unat (plane_length p) \<and> unat (a - plane_data p) < unat (bytes_used p)
     \<and> (mapping_base p = 0 \<or> unat (a - mapping_base p) < unat (mapped_length p))"

lemma containsBytes_in_plane:
  assumes c: "containsBytes p n" and k: "k < unat n"
  shows "in_plane p (plane_data p + of_nat k)"
proof -
  have k64: "unat (of_nat k :: u64) = k"
    using k unsigned_less[of n, where 'a = nat] by (simp add: unat_of_nat)
  have len: "unat n \<le> unat (plane_length p)" "unat n \<le> unat (bytes_used p)"
    using c by (auto simp: containsBytes_def word_less_iff_unat not_less split: if_splits)
  have "unat (plane_data p + of_nat k - mapping_base p) < unat (mapped_length p)" if "mapping_base p \<noteq> 0"
  proof -
    let ?o = "plane_data p - mapping_base p"
    have o: "?o \<le> mapped_length p" "n \<le> mapped_length p - ?o"
      using c that by (auto simp: containsBytes_def not_less split: if_splits)
    then have "unat ?o + k < unat (mapped_length p)"
      using k by (simp add: word_le_iff_unat unat_sub)
    moreover from this have "unat (?o + of_nat k) = unat ?o + k"
      using unsigned_less[of "mapped_length p", where 'a = nat] k64 by (subst unat_add_no_wrap) simp_all
    ultimately show ?thesis by (simp add: algebra_simps)
  qed
  with k len k64 show ?thesis by (auto simp: in_plane_def)
qed

lemma plane_addresses_offset:
  assumes "a \<in> set (plane_addresses b s rows w)"
  obtains k where "a = b + of_nat k" "k < (rows - 1) * unat s + w"
proof -
  from assms obtain r c where rc: "r < rows" "c < w" "a = b + of_nat r * ucast s + of_nat c"
    by (auto simp: plane_addresses_def row_addresses_def)
  have "r * unat s \<le> (rows - 1) * unat s" using rc(1) by (intro mult_le_mono1) simp
  then have "r * unat s + c < (rows - 1) * unat s + w" using rc(2) by (rule add_le_less_mono)
  moreover have "a = b + of_nat (r * unat s + c)" by (simp add: rc(3) unsigned_ucast_eq add.assoc)
  ultimately show ?thesis by (intro that)
qed

lemma planes_bounded:
  assumes "containsBytes p n" "unat ofs + ((rows - 1) * unat s + w) \<le> unat n"
    and "a \<in> set (plane_addresses (plane_data p + ofs) s rows w)"
  shows "in_plane p a"
proof -
  obtain k where k: "a = plane_data p + ofs + of_nat k" "k < (rows - 1) * unat s + w"
    using assms(3) by (rule plane_addresses_offset)
  have "in_plane p (plane_data p + of_nat (unat ofs + k))"
    using assms(1,2) k(2) by (intro containsBytes_in_plane) auto
  with k(1) show ?thesis by (simp add: add.assoc)
qed

definition i420_bases :: "stream_view \<Rightarrow> ptr \<times> ptr \<times> ptr" where
  "i420_bases view =
     (case planes view of
        [y, u, v] \<Rightarrow> (plane_data y, plane_data u, plane_data v)
      | p # _ \<Rightarrow>
          let base = plane_data p;
              y_block = of_nat (unat (sv_stride view) * unat (sv_height view));
              chroma_block = of_nat ((unat (sv_stride view) div 2) * (unat (sv_height view) div 2))
          in (base, base + y_block, base + y_block + chroma_block)
      | [] \<Rightarrow> (0, 0, 0))"

lemma planePointers_bases: "planePointers view ys cs = Inr bases \<Longrightarrow> bases = i420_bases view"
proof -
  have [simp]: "(of_nat (unat (x :: u32)) :: u64) = ucast x" for x by (simp add: unsigned_ucast_eq)
  assume "planePointers view ys cs = Inr bases"
  then show ?thesis
    by (auto simp: planePointers_def i420_bases_def checkedMultiply_u32 Let_def unat_u32_half[symmetric]
        split: list.splits if_splits)
qed

lemma planePointers_error: "planePointers view ys cs = Inl e \<Longrightarrow> e \<noteq> []"
  by (auto simp: planePointers_def checkedMultiply_u32 split: list.splits if_splits)

lemma rows_fit: "0 < rows \<Longrightarrow> w \<le> s \<Longrightarrow> (rows - 1) * s + w \<le> (rows :: nat) * s"
  by (cases rows) simp_all

lemma i420_reads_bounded:
  assumes dims: "calculateSizes view = Some sizes" "sv_width view \<le> sv_stride view"
    and spans: "requiredRowSpan (sv_height view) (sv_width view) (sv_stride view) = Some ys"
      "requiredRowSpan (sv_height view div 2) (sv_width view div 2) (sv_stride view div 2) = Some cs"
    and ptrs: "planePointers view ys cs = Inr bases" and a: "a \<in> set (i420_addresses view bases)"
  shows "\<exists>p \<in> set (planes view). in_plane p a"
proof -
  let ?h = "unat (sv_height view)" and ?w = "unat (sv_width view)" and ?s = "unat (sv_stride view)"
  note sy = requiredRowSpan_SomeD[OF spans(1)] and sc = requiredRowSpan_SomeD[OF spans(2), unfolded unat_u32_half]
  consider (three) y u v where "planes view = [y, u, v]" | (one) p where "planes view = [p]"
    using ptrs by (auto simp: planePointers_def split: list.splits)
  then show ?thesis
  proof cases
    case three
    then have c: "containsBytes y ys" "containsBytes u cs" "containsBytes v cs"
      and b: "bases = (plane_data y + 0, plane_data u + 0, plane_data v + 0)"
      using ptrs by (auto simp: planePointers_def split: if_splits)
    from a consider "a \<in> set (plane_addresses (plane_data y + 0) (sv_stride view) ?h ?w)"
      | "a \<in> set (plane_addresses (plane_data u + 0) (sv_stride view div 2) (?h div 2) (?w div 2))"
      | "a \<in> set (plane_addresses (plane_data v + 0) (sv_stride view div 2) (?h div 2) (?w div 2))"
      unfolding b by (auto simp: i420_addresses_def Let_def)
    then have "in_plane y a \<or> in_plane u a \<or> in_plane v a"
    proof cases
      case 1
      from c(1) _ this have "in_plane y a" by (rule planes_bounded) (simp add: sy(4))
      then show ?thesis by blast
    next
      case 2
      from c(2) _ this have "in_plane u a" by (rule planes_bounded) (simp add: sc(4) unat_u32_half)
      then show ?thesis by blast
    next
      case 3
      from c(3) _ this have "in_plane v a" by (rule planes_bounded) (simp add: sc(4) unat_u32_half)
      then show ?thesis by blast
    qed
    with three show ?thesis by auto
  next
    case one
    let ?yb = "ucast (sv_stride view) * ucast (sv_height view) :: u64"
    let ?cb = "ucast (sv_stride view div 2) * ucast (sv_height view div 2) :: u64"
    have c: "containsBytes p (?yb + 2 * ?cb)" and guard: "?cb \<le> (u64_max - ?yb) div 2"
      and b: "bases = (plane_data p + 0, plane_data p + ?yb, plane_data p + (?yb + ?cb))"
      using one ptrs by (auto simp: planePointers_def checkedMultiply_u32 not_less add.assoc split: if_splits)
    have yb: "unat ?yb = ?h * ?s" and cb: "unat ?cb = (?h div 2) * (?s div 2)"
      by (simp_all add: unat_mult_u32 unat_u32_half mult.commute)
    note sum = plane_sum_no_wrap[OF guard, unfolded yb cb]
    have pos: "0 < ?h" "0 < ?h div 2" "?w \<le> ?s"
      using sy(1) sc(1) dims(2) by (simp_all add: unat_gt_0 word_le_iff_unat unat_u32_half[symmetric])
    note fit = rows_fit[OF pos(1,3)] rows_fit[OF pos(2) div_le_mono[OF pos(3), of 2]]
    from a consider "a \<in> set (plane_addresses (plane_data p + 0) (sv_stride view) ?h ?w)"
      | "a \<in> set (plane_addresses (plane_data p + ?yb) (sv_stride view div 2) (?h div 2) (?w div 2))"
      | "a \<in> set (plane_addresses (plane_data p + (?yb + ?cb)) (sv_stride view div 2) (?h div 2) (?w div 2))"
      unfolding b by (auto simp: i420_addresses_def Let_def)
    then have "in_plane p a"
    proof cases
      case 1
      from c _ this show ?thesis by (rule planes_bounded) (use fit(1) in \<open>simp add: sum\<close>)
    next
      case 2
      from c _ this show ?thesis by (rule planes_bounded) (use fit(2) in \<open>simp add: sum yb unat_u32_half\<close>)
    next
      case 3
      from c _ this show ?thesis by (rule planes_bounded) (use fit(2) in \<open>simp add: sum unat_u32_half\<close>)
    qed
    with one show ?thesis by simp
  qed
qed

lemma copyMappedI420_result:
  "if copy_ok (copyMappedI420 mem view)
   then destination (copyMappedI420 mem view) = map mem (i420_addresses view (i420_bases view))
        \<and> list_all (\<lambda>a. \<exists>p \<in> set (planes view). in_plane p a) (i420_addresses view (i420_bases view))
        \<and> copy_error (copyMappedI420 mem view) = []
   else destination (copyMappedI420 mem view) = [] \<and> copy_error (copyMappedI420 mem view) \<noteq> []"
proof (cases "copy_ok (copyMappedI420 mem view)")
  case True
  then obtain sizes ys cs bases where ok: "calculateSizes view = Some sizes"
    "sv_width view \<le> sv_stride view" "even (unat (sv_stride view))"
    "requiredRowSpan (sv_height view) (sv_width view) (sv_stride view) = Some ys"
    "requiredRowSpan (sv_height view div 2) (sv_width view div 2) (sv_stride view div 2) = Some cs"
    "planePointers view ys cs = Inr bases"
    by (rule copyMappedI420_okE)
  have "list_all (\<lambda>a. \<exists>p \<in> set (planes view). in_plane p a) (i420_addresses view bases)"
    using i420_reads_bounded[OF ok(1,2,4,5,6)] by (simp add: list_all_iff)
  then show ?thesis
    using planePointers_bases[OF ok(6)] by (simp add: copyMappedI420_destination[OF ok])
next
  case False
  then show ?thesis
    by (auto simp: copyMappedI420_def copy_fails_def u32_even Let_def dest: planePointers_error
        split: option.splits sum.splits if_splits)
qed


section \<open>Zero-copy ingress and copy fallback agree\<close>

definition run_addresses :: "ptr \<Rightarrow> nat \<Rightarrow> ptr list" where
  "run_addresses b n = map (\<lambda>i. b + of_nat i) [0..<n]"

lemma run_addresses_add: "run_addresses b (m + n) = run_addresses b m @ run_addresses (b + of_nat m) n"
  by (rule nth_equalityI) (auto simp: run_addresses_def nth_append)

lemma row_addresses_run: "row_addresses b s w r = run_addresses (b + of_nat (r * unat s)) w"
  by (simp add: row_addresses_def run_addresses_def unsigned_ucast_eq)

lemma plane_addresses_tight: "plane_addresses b w rows (unat w) = run_addresses b (rows * unat w)"
proof (induction rows)
  case (Suc n)
  have "plane_addresses b w (Suc n) (unat w) = run_addresses b (n * unat w + unat w)"
    unfolding run_addresses_add
    using Suc by (simp add: plane_addresses_def row_addresses_run)
  then show ?case by (simp add: add.commute)
qed (simp add: plane_addresses_def run_addresses_def)

lemma plane_addresses_tight_half:
  "plane_addresses b (w div 2) rows (unat w div 2) = run_addresses b (rows * (unat w div 2))"
  using plane_addresses_tight[of b "w div 2" rows] by (simp add: unat_u32_half)

text \<open>A mapping returned by the kernel does not wrap around the address space.\<close>

definition mapping_wf :: "plane_view \<Rightarrow> bool" where
  "mapping_wf p \<longleftrightarrow> unat (mapping_base p) + unat (mapped_length p) < 2 ^ 64"

lemma containsBytes_mapped:
  assumes "mapping_wf p" "mapping_base p \<noteq> 0" "plane_data p \<noteq> 0" "plane_data p = mapping_base p + ofs"
    and "n \<le> ucast (plane_length p)" "n \<le> ucast (bytes_used p)"
    and fits: "unat ofs + unat n \<le> unat (mapped_length p)"
  shows "containsBytes p n"
proof -
  have "unat (mapping_base p + ofs) = unat (mapping_base p) + unat ofs"
    using assms(1) fits by (intro unat_add_no_wrap) (simp add: mapping_wf_def)
  then have "mapping_base p \<le> plane_data p" by (simp add: assms(4) word_le_iff_unat)
  moreover have "ofs \<le> mapped_length p" "n \<le> mapped_length p - ofs"
    using fits by (simp_all add: word_le_iff_unat unat_sub)
  ultimately show ?thesis using assms(2-6) by (simp add: containsBytes_def not_less)
qed

lemma requiredRowSpan_tight:
  assumes "rows \<noteq> 0" "width \<noteq> 0"
  shows "\<exists>n. requiredRowSpan rows width width = Some n \<and> unat n = unat rows * unat width"
proof -
  have pos: "1 \<le> unat rows" using assms(1) by (simp add: Suc_le_eq unat_gt_0)
  then have r: "unat (rows - 1) = unat rows - 1" by (simp add: unat_sub word_le_iff_unat)
  let ?o = "ucast (rows - 1) * ucast width :: u64"
  have o: "unat ?o + unat width = unat rows * unat width"
    using pos by (simp add: unat_mult_u32 r) (metis Suc_pred mult_Suc Suc_le_eq add.commute)
  then have "unat ?o + unat (ucast width :: u64) < 2 ^ 64" using u32_mult_less[of rows width] by simp
  moreover from this have "ucast width \<le> u64_max - ?o"
    by (subst word_le_iff_unat, subst unat_sub) auto
  ultimately show ?thesis using assms o
    by (simp add: requiredRowSpan_def checkedMultiply_u32 not_less unat_add_no_wrap)
qed

lemma status_if:
  "s \<noteq> Compatible \<Longrightarrow>
     ci_status (if b then rejected s else e) = Compatible \<longleftrightarrow> \<not> b \<and> ci_status e = Compatible"
  by (simp add: rejected_def)

lemma inspect_CompatibleE:
  assumes "ci_status (inspectCompactI420 view) = Compatible"
  obtains sizes y u v where "calculateSizes view = Some sizes" "planes view = [y, u, v]"
    "sv_stride view = sv_width view"
    "mapping_base y \<noteq> 0 \<and> mapping_base u = mapping_base y \<and> mapping_base v = mapping_base y
     \<and> mapped_length u = mapped_length y \<and> mapped_length v = mapped_length y
     \<and> plane_data y \<noteq> 0 \<and> plane_data u \<noteq> 0 \<and> plane_data v \<noteq> 0"
    "plane_data y = mapping_base y \<and> plane_data u = mapping_base y + y_size sizes
     \<and> plane_data v = mapping_base y + (y_size sizes + chroma_size sizes)"
    "y_size sizes \<le> ucast (plane_length y) \<and> y_size sizes \<le> ucast (bytes_used y)
     \<and> chroma_size sizes \<le> ucast (plane_length u) \<and> chroma_size sizes \<le> ucast (bytes_used u)
     \<and> chroma_size sizes \<le> ucast (plane_length v) \<and> chroma_size sizes \<le> ucast (bytes_used v)
     \<and> total_size sizes \<le> mapped_length y"
    "ci_data (inspectCompactI420 view) = plane_data y" "ci_size (inspectCompactI420 view) = total_size sizes"
proof -
  obtain sizes y u v where s: "calculateSizes view = Some sizes" "planes view = [y, u, v]"
    using assms by (auto simp: inspectCompactI420_def rejected_def split: option.splits list.splits)
  from assms have conds: "sv_stride view = sv_width view"
    "\<not> (plane_fd y < 0 \<or> plane_fd u < 0 \<or> plane_fd v < 0)"
    "\<not> (plane_fd y \<noteq> plane_fd u \<or> plane_fd y \<noteq> plane_fd v)"
    "\<not> (plane_data y = 0 \<or> plane_data u = 0 \<or> plane_data v = 0 \<or> mapping_base y = 0 \<or> mapping_base u = 0 \<or> mapping_base v = 0)"
    "\<not> (mapping_base y \<noteq> mapping_base u \<or> mapping_base y \<noteq> mapping_base v
      \<or> mapped_length y \<noteq> mapped_length u \<or> mapped_length y \<noteq> mapped_length v)"
    "\<not> (plane_offset y \<noteq> 0 \<or> ucast (plane_offset u) \<noteq> y_size sizes
      \<or> ucast (plane_offset v) \<noteq> y_size sizes + chroma_size sizes)"
    "\<not> (ucast (plane_length y) < y_size sizes \<or> ucast (plane_length u) < chroma_size sizes
      \<or> ucast (plane_length v) < chroma_size sizes)"
    "\<not> (ucast (bytes_used y) < y_size sizes \<or> ucast (bytes_used u) < chroma_size sizes
      \<or> ucast (bytes_used v) < chroma_size sizes)"
    "\<not> (ucast (frame_size view) < total_size sizes \<or> mapped_length y < total_size sizes)"
    "\<not> (plane_data y \<noteq> mapping_base y \<or> plane_data u \<noteq> mapping_base y + y_size sizes
      \<or> plane_data v \<noteq> mapping_base y + y_size sizes + chroma_size sizes)"
    by (simp_all only: inspectCompactI420_def s option.case list.case status_if
        compact_i420_status.distinct not_False_eq_True simp_thms)
  from conds s have "inspectCompactI420 view =
      \<lparr>ci_status = Compatible, ci_data = plane_data y, ci_size = total_size sizes\<rparr>"
    by (simp only: inspectCompactI420_def option.case list.case if_False simp_thms)
  with conds show thesis by (intro that[OF s]) (simp_all add: not_less add.assoc)
qed

text \<open>
  C8. Whenever \<open>inspectCompactI420\<close> accepts a view for zero-copy inference, the bytes behind the
  pointer it returns lie inside the mapping and are exactly the bytes the copy fallback would have
  produced, and the fallback would have succeeded: the two ingress paths agree.
\<close>

theorem compact_i420_agrees_with_copy:
  assumes compat: "ci_status (inspectCompactI420 view) = Compatible"
    and wf: "list_all mapping_wf (planes view)"
  shows "copyMappedI420 mem view =
           \<lparr>copy_ok = True,
            destination = map mem (run_addresses (ci_data (inspectCompactI420 view))
                                     (unat (ci_size (inspectCompactI420 view)))),
            copy_error = []\<rparr>
         \<and> ci_data (inspectCompactI420 view) = mapping_base (hd (planes view))
         \<and> ci_size (inspectCompactI420 view) \<le> mapped_length (hd (planes view))"
proof -
  from compat obtain sizes y u v where c: "calculateSizes view = Some sizes" "planes view = [y, u, v]"
    "sv_stride view = sv_width view"
    and maps: "mapping_base y \<noteq> 0 \<and> mapping_base u = mapping_base y \<and> mapping_base v = mapping_base y
     \<and> mapped_length u = mapped_length y \<and> mapped_length v = mapped_length y
     \<and> plane_data y \<noteq> 0 \<and> plane_data u \<noteq> 0 \<and> plane_data v \<noteq> 0"
    and at: "plane_data y = mapping_base y \<and> plane_data u = mapping_base y + y_size sizes
     \<and> plane_data v = mapping_base y + (y_size sizes + chroma_size sizes)"
    and lens: "y_size sizes \<le> ucast (plane_length y) \<and> y_size sizes \<le> ucast (bytes_used y)
     \<and> chroma_size sizes \<le> ucast (plane_length u) \<and> chroma_size sizes \<le> ucast (bytes_used u)
     \<and> chroma_size sizes \<le> ucast (plane_length v) \<and> chroma_size sizes \<le> ucast (bytes_used v)
     \<and> total_size sizes \<le> mapped_length y"
    and res: "ci_data (inspectCompactI420 view) = plane_data y" "ci_size (inspectCompactI420 view) = total_size sizes"
    by (rule inspect_CompatibleE)
  let ?h = "sv_height view" and ?w = "sv_width view"
  note sz = calculateSizes_SomeD[OF c(1)]
  have wfp: "mapping_wf y" "mapping_wf u" "mapping_wf v" using wf by (simp_all add: c(2))
  have half: "?h div 2 \<noteq> 0" "?w div 2 \<noteq> 0"
    using sz(1) u32_half_nonzero[of ?h] u32_half_nonzero[of ?w] by simp_all
  obtain ys where ys: "requiredRowSpan ?h ?w ?w = Some ys" "unat ys = unat ?h * unat ?w"
    using requiredRowSpan_tight sz(1) by blast
  obtain cs where cs: "requiredRowSpan (?h div 2) (?w div 2) (?w div 2) = Some cs"
    "unat cs = (unat ?h div 2) * (unat ?w div 2)"
    using requiredRowSpan_tight[OF half] by (auto simp: unat_u32_half)
  have eq: "ys = y_size sizes" "cs = chroma_size sizes"
    using ys(2) cs(2) sz(2,3) by (simp_all add: word_unat_eq_iff)
  have room: "unat (y_size sizes) + 2 * unat (chroma_size sizes) \<le> unat (mapped_length y)"
    using lens sz(4) by (simp add: word_le_iff_unat)
  have "containsBytes y ys" unfolding eq
    by (rule containsBytes_mapped[where ofs = 0]) (use maps at lens wfp room in auto)
  moreover have "containsBytes u cs" unfolding eq
    by (rule containsBytes_mapped[where ofs = "y_size sizes"]) (use maps at lens wfp room in auto)
  moreover have "containsBytes v cs" unfolding eq
    by (rule containsBytes_mapped[where ofs = "y_size sizes + chroma_size sizes"])
      (use maps at lens wfp room sz(5) in auto)
  ultimately have ptr: "planePointers view ys cs = Inr (plane_data y, plane_data u, plane_data v)"
    by (simp add: planePointers_def c(2))
  let ?y = "unat (y_size sizes)" and ?c = "unat (chroma_size sizes)"
  have "i420_addresses view (plane_data y, plane_data u, plane_data v) =
      run_addresses (plane_data y) (?y + (?c + ?c))"
    unfolding run_addresses_add using at
    by (simp add: i420_addresses_def Let_def c(3) plane_addresses_tight plane_addresses_tight_half
        sz(2,3)[symmetric] add.assoc)
  then have "copyMappedI420 mem view =
      \<lparr>copy_ok = True, destination = map mem (run_addresses (plane_data y) (unat (total_size sizes))),
       copy_error = []\<rparr>"
    using copyMappedI420_destination[OF c(1) _ _ _ _ ptr, of mem] ys(1) cs(1) sz(1,4)
    by (simp add: c(3) mult_2)
  then show ?thesis using res at lens by (simp add: c(2))
qed

definition sample_plane :: "u32 \<Rightarrow> u32 \<Rightarrow> plane_view" where
  "sample_plane ofs n = \<lparr>plane_fd = 5, plane_offset = ofs, plane_length = n, bytes_used = n,
     plane_data = 4096 + ucast ofs, mapping_base = 4096, mapped_length = 4096\<rparr>"

definition sample_view :: stream_view where
  "sample_view = \<lparr>sv_width = 4, sv_height = 2, sv_stride = 4, frame_size = 12,
     planes = [sample_plane 0 8, sample_plane 8 2, sample_plane 10 2]\<rparr>"

theorem compact_i420_agrees_with_copy_witness:
  "destination (copyMappedI420 (\<lambda>a. ucast a) sample_view) = [0, 1, 2, 3, 4, 5, 6, 7, 8, 9, 10, 11]"
proof -
  have i: "inspectCompactI420 sample_view = \<lparr>ci_status = Compatible, ci_data = 4096, ci_size = 12\<rparr>"
    by (simp add: inspectCompactI420_def sample_view_def sample_plane_def calculateSizes_def
        checkedMultiply_def Let_def)
  then have "ci_status (inspectCompactI420 sample_view) = Compatible" by simp
  moreover have "list_all mapping_wf (planes sample_view)"
    by (simp add: sample_view_def sample_plane_def mapping_wf_def)
  ultimately show ?thesis
    using compact_i420_agrees_with_copy[of sample_view "\<lambda>a. ucast a"]
    by (simp add: i run_addresses_def upt_rec)
qed

end
