(* ===== verification/Dma_Sync.thy ===== *)
theory Dma_Sync
  imports I420_Frame "HOL-Library.Monad_Syntax" "HOL-Library.Sublist"
begin

text \<open>
  \<open>DmaBufReadSync\<close> (\<open>src/dma_buf_sync.cpp\<close>) and \<open>stageMainSnapshot\<close> (\<open>src/snapshot.cpp\<close>).
  The sync operation is the function pointer the constructor takes: a parameter that maps a
  descriptor, the flags and the opaque context to a result code and the next context. The retry
  loop of \<open>synchronize\<close> has no bound in the source, so it is a partial function and \<open>None\<close> means
  that it never returns; that it does return is proved from the assumption that the kernel does
  not answer \<open>EINTR\<close> or \<open>EAGAIN\<close> forever.

  Main results: over the whole lifetime of the object every session that was started is ended
  exactly once, in reverse order, on every path, failures included; and a staged snapshot either
  holds the complete frame or is empty with an error.
\<close>

section \<open>The synchronization object\<close>

type_synonym 'c sync_operation = "int \<Rightarrow> u64 \<Rightarrow> 'c \<Rightarrow> int \<times> 'c"

definition EINTR :: int where "EINTR = 4"
definition EAGAIN :: int where "EAGAIN = 11"

definition start_read :: u64 where "start_read = 1"
definition end_read :: u64 where "end_read = 5"

text \<open>\<open>ioctl\<close> returns its result and \<open>errno\<close>.\<close>

definition systemSync :: "(int \<Rightarrow> u64 \<Rightarrow> 'k \<Rightarrow> (int \<times> int) \<times> 'k) \<Rightarrow> 'k sync_operation" where
  "systemSync ioctl fd flags k =
     (let ((rc, errno), k') = ioctl fd flags k in (if rc = 0 then 0 else errno, k'))"

definition syncError :: "(int \<Rightarrow> string) \<Rightarrow> string \<Rightarrow> int \<Rightarrow> int \<Rightarrow> string" where
  "syncError strerror phase fd n =
     ''DMA_BUF_IOCTL_SYNC '' @ phase @ '' failed for fd '' @ show_int fd @ '': '' @ strerror n"

record read_sync =
  synchronized_fds :: "int list"
  ready :: bool

partial_function (option) synchronize :: "'c sync_operation \<Rightarrow> int \<Rightarrow> u64 \<Rightarrow> 'c \<Rightarrow> (int \<times> 'c) option" where
  "synchronize operation fd flags c =
     (let (result, c') = operation fd flags c
      in if result \<noteq> EINTR \<and> result \<noteq> EAGAIN then Some (result, c')
         else synchronize operation fd flags c')"

text \<open>The loop over the collected descriptors in reverse; the first failure decides the error.\<close>

fun endAll :: "'c sync_operation \<Rightarrow> (int \<Rightarrow> string) \<Rightarrow> int list \<Rightarrow> bool \<times> string \<Rightarrow> 'c
                \<Rightarrow> ((bool \<times> string) \<times> 'c) option" where
  "endAll operation strerror [] acc c = Some (acc, c)"
| "endAll operation strerror (fd # fds) (success, error) c =
     do {
       (result, c') \<leftarrow> synchronize operation fd end_read c;
       endAll operation strerror fds
         (if result \<noteq> 0 \<and> success then (False, syncError strerror ''END'' fd result)
          else (success, error)) c'
     }"

definition sync_finish :: "'c sync_operation \<Rightarrow> (int \<Rightarrow> string) \<Rightarrow> read_sync \<Rightarrow> 'c
                            \<Rightarrow> (bool \<times> string \<times> read_sync \<times> 'c) option" where
  "sync_finish operation strerror s c =
     do {
       ((success, error), c') \<leftarrow> endAll operation strerror (rev (synchronized_fds s)) (True, []) c;
       Some (success, error, \<lparr>synchronized_fds = [], ready = False\<rparr>, c')
     }"

fun uniqueFds :: "plane_view list \<Rightarrow> int list \<Rightarrow> int list option" where
  "uniqueFds [] fds = Some fds"
| "uniqueFds (p # ps) fds =
     (if plane_fd p < 0 then None
      else uniqueFds ps (if plane_fd p \<in> set fds then fds else fds @ [plane_fd p]))"

fun startAll :: "'c sync_operation \<Rightarrow> int list \<Rightarrow> int list \<Rightarrow> 'c
                  \<Rightarrow> ((int \<times> int) option \<times> int list \<times> 'c) option" where
  "startAll operation [] started c = Some (None, started, c)"
| "startAll operation (fd # fds) started c =
     do {
       (result, c') \<leftarrow> synchronize operation fd start_read c;
       if result \<noteq> 0 then Some (Some (fd, result), started, c')
       else startAll operation fds (started @ [fd]) c'
     }"

definition dma_buf_read_sync :: "'c sync_operation option \<Rightarrow> (int \<Rightarrow> string) \<Rightarrow> stream_view \<Rightarrow> 'c
                                  \<Rightarrow> (string \<times> read_sync \<times> 'c) option" where
  "dma_buf_read_sync operation strerror view c =
     (let idle = \<lparr>synchronized_fds = [], ready = False\<rparr>
      in case operation of
           None \<Rightarrow> Some (''DMA-BUF sync operation is unavailable'', idle, c)
         | Some sync \<Rightarrow>
            (case uniqueFds (planes view) [] of
               None \<Rightarrow> Some (''DMA-BUF sync requires valid plane file descriptors'', idle, c)
             | Some [] \<Rightarrow> Some (''DMA-BUF sync requires at least one plane'', idle, c)
             | Some fds \<Rightarrow>
                 do {
                   (failure, started, c1) \<leftarrow> startAll sync fds [] c;
                   case failure of
                     Some (fd, result) \<Rightarrow>
                       do {
                         (success, cleanup_error, s, c2) \<leftarrow> sync_finish sync strerror
                            \<lparr>synchronized_fds = started, ready = False\<rparr> c1;
                         Some (syncError strerror ''START'' fd result
                               @ (if cleanup_error \<noteq> [] then ''; cleanup: '' @ cleanup_error else []), s, c2)
                       }
                   | None \<Rightarrow> Some ([], \<lparr>synchronized_fds = started, ready = True\<rparr>, c1)
                 }))"

section \<open>Snapshots\<close>

record frame_lease =
  fl_request :: nat
  fl_main :: stream_view
  fl_lores :: stream_view
  fl_sequence :: u64
  fl_sensor_timestamp_ns :: u64

record main_snapshot =
  snap_width :: u32
  snap_height :: u32
  snap_sequence :: u64
  snap_sensor_timestamp_ns :: u64
  snap_i420 :: "u8 list"

definition empty_snapshot :: main_snapshot where
  "empty_snapshot = \<lparr>snap_width = 0, snap_height = 0, snap_sequence = 0,
                     snap_sensor_timestamp_ns = 0, snap_i420 = []\<rparr>"

text \<open>
  The destructor of the local \<open>read_sync\<close> runs \<open>finish\<close> once more on every return after its
  construction.
\<close>

definition stageMainSnapshot :: "'c sync_operation \<Rightarrow> (int \<Rightarrow> string) \<Rightarrow> memory \<Rightarrow> frame_lease \<Rightarrow> 'c
                                  \<Rightarrow> (bool \<times> main_snapshot \<times> string \<times> 'c) option" where
  "stageMainSnapshot operation strerror mem frame c =
     (let view = fl_main frame
      in if \<exists>p \<in> set (planes view). plane_data p = 0
         then Some (False, empty_snapshot, ''main profile is not CPU mapped'', c)
         else do {
           (error, s, c1) \<leftarrow> dma_buf_read_sync (Some operation) strerror view c;
           if \<not> ready s
           then do {
             (ignored_success, ignored, s', c2) \<leftarrow> sync_finish operation strerror s c1;
             Some (False, empty_snapshot, error, c2)
           }
           else do {
             let copy = copyMappedI420 mem view;
             (ended, sync_error, s1, c2) \<leftarrow> sync_finish operation strerror s c1;
             let error1 = (if \<not> ended \<and> copy_error copy = [] then sync_error else copy_error copy);
             (ignored_success, ignored, s2, c3) \<leftarrow> sync_finish operation strerror s1 c2;
             Some (if \<not> copy_ok copy \<or> \<not> ended then (False, empty_snapshot, error1, c3)
                   else (True, \<lparr>snap_width = sv_width view, snap_height = sv_height view,
                                snap_sequence = fl_sequence frame,
                                snap_sensor_timestamp_ns = fl_sensor_timestamp_ns frame,
                                snap_i420 = destination copy\<rparr>, error1, c3))
           }
         })"

section \<open>The retry loop returns\<close>

text \<open>The operation answers with something else than a retry code after finitely many attempts.\<close>

inductive settles :: "'c sync_operation \<Rightarrow> int \<Rightarrow> u64 \<Rightarrow> 'c \<Rightarrow> bool"
  for operation :: "'c sync_operation" and fd :: int and flags :: u64 where
  now: "fst (operation fd flags c) \<noteq> EINTR \<Longrightarrow> fst (operation fd flags c) \<noteq> EAGAIN \<Longrightarrow> settles operation fd flags c"
| retry: "settles operation fd flags (snd (operation fd flags c)) \<Longrightarrow> settles operation fd flags c"

definition responsive :: "'c sync_operation \<Rightarrow> bool" where
  "responsive operation \<longleftrightarrow> (\<forall>fd flags c. settles operation fd flags c)"

lemma synchronize_returns:
  "settles operation fd flags c \<Longrightarrow> \<exists>r. synchronize operation fd flags c = Some r"
proof (induction rule: settles.induct)
  case (now c)
  then show ?case by (subst synchronize.simps) (auto simp: case_prod_beta)
next
  case (retry c)
  then show ?case by (subst synchronize.simps) (auto simp: case_prod_beta)
qed

lemma responsive_synchronize:
  assumes "responsive operation"
  obtains r c' where "synchronize operation fd flags c = Some (r, c')"
  using synchronize_returns[of operation fd flags c] assms by (auto simp: responsive_def)

section \<open>The calls made\<close>

text \<open>The operation with a record of every call and its result kept beside its own context.\<close>

type_synonym sync_call = "int \<times> u64 \<times> int"

definition logged :: "'c sync_operation \<Rightarrow> (sync_call list \<times> 'c) sync_operation" where
  "logged operation fd flags lc =
     (case lc of (log, c) \<Rightarrow> case operation fd flags c of (r, c') \<Rightarrow> (r, (log @ [(fd, flags, r)], c')))"

definition settled :: "sync_call list \<Rightarrow> sync_call list" where
  "settled log = filter (\<lambda>(fd, flags, r). r \<noteq> EINTR \<and> r \<noteq> EAGAIN) log"

lemma settled_append [simp]: "settled (xs @ ys) = settled xs @ settled ys"
  by (simp add: settled_def)

lemma settled_Nil [simp]: "settled [] = []"
  by (simp add: settled_def)

lemma synchronize_logged:
  assumes "responsive operation"
  obtains r log' c' where "synchronize (logged operation) fd flags (log, c) = Some (r, (log', c'))"
    "settled log' = settled log @ [(fd, flags, r)]"
proof -
  have "settles operation fd flags c" using assms by (simp add: responsive_def)
  then have "\<exists>r log' c'. synchronize (logged operation) fd flags (log, c) = Some (r, (log', c'))
      \<and> settled log' = settled log @ [(fd, flags, r)]"
  proof (induction arbitrary: log rule: settles.induct)
    case (now c)
    then show ?case
      by (subst synchronize.simps) (auto simp: logged_def settled_def case_prod_beta)
  next
    case (retry c)
    obtain r c1 where op: "operation fd flags c = (r, c1)" by force
    show ?case
    proof (cases "r = EINTR \<or> r = EAGAIN")
      case True
      from retry.IH[of "log @ [(fd, flags, r)]"] obtain r' log' c' where
        "synchronize (logged operation) fd flags (log @ [(fd, flags, r)], c1) = Some (r', (log', c'))"
        "settled log' = settled (log @ [(fd, flags, r)]) @ [(fd, flags, r')]"
        by (auto simp: op)
      with True show ?thesis
        by (subst synchronize.simps) (auto simp: logged_def op settled_def)
    next
      case False
      then show ?thesis
        by (subst synchronize.simps) (auto simp: logged_def op settled_def)
    qed
  qed
  then show thesis using that by blast
qed

lemma endAll_logged:
  assumes "responsive operation"
  shows "\<exists>acc' ends log' c'. endAll (logged operation) strerror fds acc (log, c) = Some (acc', (log', c'))
     \<and> settled log' = settled log @ ends
     \<and> map (\<lambda>(fd, fl, r). (fd, fl)) ends = map (\<lambda>fd. (fd, end_read)) fds
     \<and> (fst acc' \<longleftrightarrow> fst acc \<and> (\<forall>x \<in> set ends. snd (snd x) = 0))
     \<and> (fst acc \<or> snd acc \<noteq> [] \<longrightarrow> fst acc' \<or> snd acc' \<noteq> [])"
proof (induction fds arbitrary: acc log c)
  case Nil
  then show ?case by simp
next
  case (Cons fd fds)
  obtain success error where acc: "acc = (success, error)" by force
  obtain r l1 c1 where sync: "synchronize (logged operation) fd end_read (log, c) = Some (r, (l1, c1))"
    "settled l1 = settled log @ [(fd, end_read, r)]"
    using assms by (rule synchronize_logged)
  let ?acc = "if r \<noteq> 0 \<and> success then (False, syncError strerror ''END'' fd r) else (success, error)"
  from Cons.IH[of ?acc l1 c1] obtain acc' ends log' c' where IH:
    "endAll (logged operation) strerror fds ?acc (l1, c1) = Some (acc', (log', c'))"
    "settled log' = settled l1 @ ends"
    "map (\<lambda>(fd, fl, r). (fd, fl)) ends = map (\<lambda>fd. (fd, end_read)) fds"
    "fst acc' \<longleftrightarrow> fst ?acc \<and> (\<forall>x \<in> set ends. snd (snd x) = 0)"
    "fst ?acc \<or> snd ?acc \<noteq> [] \<longrightarrow> fst acc' \<or> snd acc' \<noteq> []" by blast
  show ?case
    by (rule exI[of _ acc'], rule exI[of _ "(fd, end_read, r) # ends"], rule exI[of _ log'], rule exI[of _ c'])
      (use sync IH in \<open>auto simp: acc syncError_def split: if_splits\<close>)
qed

lemma startAll_logged:
  assumes "responsive operation"
  shows "\<exists>failure ok log' c'. startAll (logged operation) fds started (log, c) = Some (failure, started @ ok, (log', c'))
     \<and> (case failure of
          None \<Rightarrow> ok = fds \<and> settled log' = settled log @ map (\<lambda>fd. (fd, start_read, 0)) ok
        | Some (fd, r) \<Rightarrow> r \<noteq> 0 \<and> prefix (ok @ [fd]) fds
            \<and> settled log' = settled log @ map (\<lambda>fd. (fd, start_read, 0)) ok @ [(fd, start_read, r)])"
proof (induction fds arbitrary: started log c)
  case Nil
  then show ?case by simp
next
  case (Cons fd fds)
  obtain r l1 c1 where sync: "synchronize (logged operation) fd start_read (log, c) = Some (r, (l1, c1))"
    "settled l1 = settled log @ [(fd, start_read, r)]"
    using assms by (rule synchronize_logged)
  show ?case
  proof (cases "r = 0")
    case False
    with sync show ?thesis
      by (intro exI[of _ "Some (fd, r)"], intro exI[of _ "[] :: int list"]) auto
  next
    case True
    from Cons.IH[of "started @ [fd]" l1 c1] obtain failure ok log' c' where
      "startAll (logged operation) fds (started @ [fd]) (l1, c1) = Some (failure, (started @ [fd]) @ ok, (log', c'))"
      "case failure of
          None \<Rightarrow> ok = fds \<and> settled log' = settled l1 @ map (\<lambda>fd. (fd, start_read, 0)) ok
        | Some (fd, r) \<Rightarrow> r \<noteq> 0 \<and> prefix (ok @ [fd]) fds
            \<and> settled log' = settled l1 @ map (\<lambda>fd. (fd, start_read, 0)) ok @ [(fd, start_read, r)]"
      by blast
    with sync True show ?thesis
      by (intro exI[of _ failure] exI[of _ "fd # ok"]) (auto split: option.splits)
  qed
qed

lemma uniqueFds_distinct: "uniqueFds ps fds = Some fds' \<Longrightarrow> distinct fds \<Longrightarrow> distinct fds' \<and> set fds' = set fds \<union> plane_fd ` set ps"
  by (induction ps fds rule: uniqueFds.induct) (auto split: if_splits)

section \<open>Every session that was started is ended\<close>

text \<open>
  A complete history: descriptors opened successfully, then possibly one failed attempt, then one
  END per opened descriptor in reverse order and nothing else.
\<close>

definition bracketed :: "sync_call list \<Rightarrow> int list \<Rightarrow> bool" where
  "bracketed log opened \<longleftrightarrow>
     (\<exists>bad ends. log = map (\<lambda>fd. (fd, start_read, 0)) opened @ bad @ ends
        \<and> (bad = [] \<or> (\<exists>fd r. bad = [(fd, start_read, r)] \<and> r \<noteq> 0 \<and> fd \<notin> set opened))
        \<and> map (\<lambda>(fd, fl, r). (fd, fl)) ends = map (\<lambda>fd. (fd, end_read)) (rev opened)
        \<and> distinct opened)"

lemma sync_finish_idle [simp]:
  "synchronized_fds s = [] \<Longrightarrow> sync_finish op strerror s c = Some (True, [], \<lparr>synchronized_fds = [], ready = False\<rparr>, c)"
  by (simp add: sync_finish_def)

text \<open>
  What construction leaves behind: either a ready object whose descriptors are the opened ones, or
  an idle object, a completed bracket and a non-empty error.
\<close>

lemma sync_construct_logged:
  assumes op: "responsive operation"
  shows "\<exists>error s log c'. dma_buf_read_sync (Some (logged operation)) strerror view ([], c) = Some (error, s, (log, c'))
     \<and> (if ready s
        then error = [] \<and> settled log = map (\<lambda>fd. (fd, start_read, 0)) (synchronized_fds s)
             \<and> distinct (synchronized_fds s) \<and> set (synchronized_fds s) = plane_fd ` set (planes view)
        else error \<noteq> [] \<and> synchronized_fds s = [] \<and> (\<exists>opened. bracketed (settled log) opened))"
proof (cases "uniqueFds (planes view) []")
  case None
  then show ?thesis by (auto simp: dma_buf_read_sync_def bracketed_def intro!: exI[of _ "[]"])
next
  case (Some fds)
  show ?thesis
  proof (cases "fds = []")
    case True
    with Some show ?thesis by (auto simp: dma_buf_read_sync_def bracketed_def intro!: exI[of _ "[]"])
  next
    case False
    have fds: "distinct fds" "set fds = plane_fd ` set (planes view)"
      using uniqueFds_distinct[OF Some] by simp_all
    from startAll_logged[OF op, of fds "[]" "[]" c, unfolded settled_Nil append_Nil] obtain failure ok l1 c1 where st:
      "startAll (logged operation) fds [] ([], c) = Some (failure, ok, (l1, c1))"
      "case failure of
          None \<Rightarrow> ok = fds \<and> settled l1 = map (\<lambda>fd. (fd, start_read, 0)) ok
        | Some (fd, r) \<Rightarrow> r \<noteq> 0 \<and> prefix (ok @ [fd]) fds
            \<and> settled l1 = map (\<lambda>fd. (fd, start_read, 0)) ok @ [(fd, start_read, r)]"
      by blast
    have ctor: "dma_buf_read_sync (Some (logged operation)) strerror view ([], c) =
       (case failure of
          Some (fd, result) \<Rightarrow>
            do { (success, cleanup_error, s, c2) \<leftarrow> sync_finish (logged operation) strerror
                    \<lparr>synchronized_fds = ok, ready = False\<rparr> (l1, c1);
                 Some (syncError strerror ''START'' fd result
                   @ (if cleanup_error \<noteq> [] then ''; cleanup: '' @ cleanup_error else []), s, c2) }
        | None \<Rightarrow> Some ([], \<lparr>synchronized_fds = ok, ready = True\<rparr>, (l1, c1)))"
      using Some False st(1) by (cases fds) (simp_all add: dma_buf_read_sync_def Let_def del: startAll.simps)
    show ?thesis
    proof (cases failure)
      case None
      with ctor st(2) fds show ?thesis by auto
    next
      case (Some f)
      obtain fd r where f: "failure = Some (fd, r)" using Some by (cases f) auto
      from endAll_logged[OF op, of strerror "rev ok" "(True, [])" l1 c1] obtain acc ends l2 c2 where en:
        "endAll (logged operation) strerror (rev ok) (True, []) (l1, c1) = Some (acc, (l2, c2))"
        "settled l2 = settled l1 @ ends"
        "map (\<lambda>(fd, fl, r). (fd, fl)) ends = map (\<lambda>fd. (fd, end_read)) (rev ok)"
        by blast
      have "distinct ok" "fd \<notin> set ok" "r \<noteq> 0"
        using st(2) f fds(1) by (auto simp: prefix_def)
      then have "bracketed (settled l2) ok"
        using en(2,3) st(2) f unfolding bracketed_def
        by (intro exI[of _ "[(fd, start_read, r)]"] exI[of _ ends]) simp
      with ctor f en(1) show ?thesis
        by (cases acc) (auto simp: sync_finish_def syncError_def)
    qed
  qed
qed

lemma sync_finish_logged:
  assumes op: "responsive operation"
    and log: "settled log = map (\<lambda>fd. (fd, start_read, 0)) (synchronized_fds s)" "distinct (synchronized_fds s)"
  shows "\<exists>ended error log' c'. sync_finish (logged operation) strerror s (log, c) =
      Some (ended, error, \<lparr>synchronized_fds = [], ready = False\<rparr>, (log', c'))
     \<and> bracketed (settled log') (synchronized_fds s) \<and> (ended \<or> error \<noteq> [])
     \<and> (ended \<longleftrightarrow> (\<forall>x \<in> set (settled log'). snd (snd x) = 0))"
proof -
  let ?fds = "synchronized_fds s"
  from endAll_logged[OF op, of strerror "rev ?fds" "(True, [])" log c] obtain acc ends l2 c2 where en:
    "endAll (logged operation) strerror (rev ?fds) (True, []) (log, c) = Some (acc, (l2, c2))"
    "settled l2 = settled log @ ends"
    "map (\<lambda>(fd, fl, r). (fd, fl)) ends = map (\<lambda>fd. (fd, end_read)) (rev ?fds)"
    "fst acc \<longleftrightarrow> (\<forall>x \<in> set ends. snd (snd x) = 0)" "fst acc \<or> snd acc \<noteq> []"
    by auto
  have "bracketed (settled l2) ?fds"
    unfolding bracketed_def using en(2,3) log by (intro exI[of _ "[]"] exI[of _ ends]) simp
  then show ?thesis
    using en log(1) by (cases acc) (auto simp: sync_finish_def)
qed

text \<open>
  C9. Staging a snapshot, for every layout of the frame and every behaviour of the kernel's sync
  call that does not answer with a retry code forever: the call returns; the calls it made, retries
  aside, open distinct descriptors and then end exactly the opened ones in reverse order; on success
  every descriptor of the frame was opened and no call failed, the pixels are the frame's rows and
  the identification is that of the frame; on failure there are no pixels and there is an error.
\<close>

theorem stage_snapshot_contract:
  assumes op: "responsive operation"
  shows "\<exists>ok snap error log c'. stageMainSnapshot (logged operation) strerror mem frame ([], c)
           = Some (ok, snap, error, (log, c'))
     \<and> (\<exists>opened. bracketed (settled log) opened
          \<and> (ok \<longrightarrow> set opened = plane_fd ` set (planes (fl_main frame))
                    \<and> (\<forall>x \<in> set (settled log). snd (snd x) = 0)))
     \<and> (if ok
        then error = [] \<and> snap_width snap = sv_width (fl_main frame) \<and> snap_height snap = sv_height (fl_main frame)
             \<and> snap_sequence snap = fl_sequence frame
             \<and> snap_sensor_timestamp_ns snap = fl_sensor_timestamp_ns frame
             \<and> snap_i420 snap = map mem (i420_addresses (fl_main frame) (i420_bases (fl_main frame)))
        else snap_i420 snap = [] \<and> error \<noteq> [])"
proof (cases "\<exists>p \<in> set (planes (fl_main frame)). plane_data p = 0")
  case True
  then show ?thesis
    by (simp add: stageMainSnapshot_def empty_snapshot_def bracketed_def) (intro exI[of _ False], simp)
next
  case mapped: False
  let ?view = "fl_main frame"
  from sync_construct_logged[OF op, of strerror ?view c] obtain error s l1 c1 where ctor:
    "dma_buf_read_sync (Some (logged operation)) strerror ?view ([], c) = Some (error, s, (l1, c1))"
    "if ready s
     then error = [] \<and> settled l1 = map (\<lambda>fd. (fd, start_read, 0)) (synchronized_fds s)
          \<and> distinct (synchronized_fds s) \<and> set (synchronized_fds s) = plane_fd ` set (planes ?view)
     else error \<noteq> [] \<and> synchronized_fds s = [] \<and> (\<exists>opened. bracketed (settled l1) opened)"
    by blast
  show ?thesis
  proof (cases "ready s")
    case False
    with mapped ctor show ?thesis by (auto simp: stageMainSnapshot_def empty_snapshot_def)
  next
    case True
    with ctor(2) have open_log: "settled l1 = map (\<lambda>fd. (fd, start_read, 0)) (synchronized_fds s)"
      "distinct (synchronized_fds s)" and all: "set (synchronized_fds s) = plane_fd ` set (planes ?view)" by auto
    from sync_finish_logged[OF op open_log, of strerror c1] obtain ended err l2 c2 where fin:
      "sync_finish (logged operation) strerror s (l1, c1) =
         Some (ended, err, \<lparr>synchronized_fds = [], ready = False\<rparr>, (l2, c2))"
      "bracketed (settled l2) (synchronized_fds s)" "ended \<or> err \<noteq> []"
      "ended \<longleftrightarrow> (\<forall>x \<in> set (settled l2). snd (snd x) = 0)" by blast
    let ?r = "copyMappedI420 mem ?view"
    have stage: "stageMainSnapshot (logged operation) strerror mem frame ([], c) =
      Some (if \<not> copy_ok ?r \<or> \<not> ended
            then (False, empty_snapshot, if \<not> ended \<and> copy_error ?r = [] then err else copy_error ?r, (l2, c2))
            else (True, \<lparr>snap_width = sv_width ?view, snap_height = sv_height ?view,
                        snap_sequence = fl_sequence frame, snap_sensor_timestamp_ns = fl_sensor_timestamp_ns frame,
                        snap_i420 = destination ?r\<rparr>, copy_error ?r, (l2, c2)))"
      using mapped ctor(1) True fin(1) by (simp add: stageMainSnapshot_def Let_def)
    show ?thesis
    proof (cases "copy_ok ?r \<and> ended")
      case True
      then have "set (synchronized_fds s) = plane_fd ` set (planes ?view) \<and> (\<forall>x \<in> set (settled l2). snd (snd x) = 0)"
        using all fin(4) by blast
      with True stage fin(2) copyMappedI420_result[of mem ?view] show ?thesis by auto
    next
      case False
      with stage fin(2,3) copyMappedI420_result[of mem ?view] show ?thesis
        by (auto simp: empty_snapshot_def split: if_splits)
    qed
  qed
qed

definition retry_once :: "bool sync_operation" where
  "retry_once fd flags asked = (if asked then (0, False) else (EINTR, True))"

theorem stage_snapshot_contract_witness:
  "\<exists>ok snap error log c'. stageMainSnapshot (logged retry_once) (\<lambda>n. []) (\<lambda>a. ucast a)
     \<lparr>fl_request = 0, fl_main = sample_view, fl_lores = sample_view, fl_sequence = 9,
      fl_sensor_timestamp_ns = 33\<rparr> ([], False) = Some (ok, snap, error, (log, c'))
     \<and> (\<exists>opened. bracketed (settled log) opened)"
proof -
  have "settles retry_once fd flags True" for fd flags
    by (rule settles.now) (simp_all add: retry_once_def EINTR_def EAGAIN_def)
  moreover from this have "settles retry_once fd flags False" for fd flags
    using settles.retry[of retry_once fd flags False] by (simp add: retry_once_def)
  ultimately have "settles retry_once fd flags c" for fd flags c by (cases c) auto
  then have "responsive retry_once" by (simp add: responsive_def)
  from stage_snapshot_contract[OF this, of "\<lambda>n. []" "\<lambda>a. ucast a"
      "\<lparr>fl_request = 0, fl_main = sample_view, fl_lores = sample_view, fl_sequence = 9,
        fl_sensor_timestamp_ns = 33\<rparr>" False]
  show ?thesis by (elim exE conjE) (intro exI conjI; assumption)
qed

end
