(* ===== verification/Event_Recorder.thy ===== *)
theory Event_Recorder
  imports Complex_Main Encoded_Ring Dma_Sync
begin

text \<open>
  \<open>EventGate\<close> and the in-memory part of \<open>EventRecorder\<close> (\<open>src/event_recorder.cpp\<close>): from a
  detection to a queued job. Every public member function holds the recorder's mutex while it
  changes the state, so each is one transformer on \<open>recorder\<close>; the worker's queue access is
  \<open>worker_take\<close>. Files are the business of \<open>Event_Writer\<close>.

  Parameters of the model: the outcome of \<open>fs::space\<close> (\<open>None\<close> is an error), the wall clock,
  \<open>strftime\<close> in the local zone, and the staging of the snapshot. Durations are the finite
  values of the configuration's \<open>double\<close>s: on AArch64 \<open>long double\<close> has 113 significand bits, the
  product of a \<open>double\<close> and 1000000000 needs at most 74, so \<open>secondsToNs\<close> is exact rational
  arithmetic followed by truncation.

  Main results: the invariant \<open>rec_inv\<close> of every operation, in particular that a queued job has a
  decodable, single-generation, ordered clip whose completeness flags mean what they say, and that
  accepted triggers are separated by the cooldown.
\<close>

section \<open>Time arithmetic\<close>

definition secondsToNs :: "rat \<Rightarrow> u64" where
  "secondsToNs seconds =
     (if seconds \<le> 0 then 0
      else let nanoseconds = seconds * 1000000000
           in if nanoseconds \<ge> 2 ^ 64 - 1 then u64_max
              else word_of_int \<lfloor>nanoseconds + 1 / 2\<rfloor>)"

definition saturatingAdd :: "u64 \<Rightarrow> u64 \<Rightarrow> u64" where
  "saturatingAdd left right = (if right > u64_max - left then u64_max else left + right)"

lemma saturatingAdd_exact:
  "unat (saturatingAdd a b) = min (unat a + unat b) (2 ^ 64 - 1)"
proof -
  have "unat (u64_max - a) = 2 ^ 64 - 1 - unat a" by (subst unat_sub) simp_all
  moreover have "unat a < 2 ^ 64" using unsigned_less[of a, where 'a = nat] by simp
  moreover have "unat a + unat b < 2 ^ 64 \<Longrightarrow> unat (a + b) = unat a + unat b" by (rule unat_add_no_wrap)
  ultimately show ?thesis
    by (auto simp: saturatingAdd_def word_less_iff_unat)
qed

lemma saturatingAdd_ge: "a \<le> saturatingAdd a b"
  using unsigned_less[of a, where 'a = nat] by (simp add: word_le_iff_unat saturatingAdd_exact)

section \<open>Event identification\<close>

definition pad3 :: "nat \<Rightarrow> string" where
  "pad3 n = replicate (3 - length (show_nat n)) (CHR ''0'') @ show_nat n"

text \<open>A wall time is its number of nanoseconds since the epoch.\<close>

definition formatEventId :: "(string \<Rightarrow> nat \<Rightarrow> string) \<Rightarrow> nat \<Rightarrow> u64 \<Rightarrow> string" where
  "formatEventId strftime wall sequence =
     (let time = wall div 1000000000; milliseconds = wall div 1000000 mod 1000
      in strftime ''%Y%m%dT%H%M%S'' time @ ''.'' @ pad3 milliseconds @ strftime ''%z'' time
         @ ''_seq'' @ show_nat (unat sequence))"

section \<open>The gate\<close>

datatype event_state = Idle | CollectingPostRoll | Cooldown

record event_gate =
  cooldown_ns :: u64
  cooldown_until_ns :: u64
  collecting :: bool

definition gate_new :: "u64 \<Rightarrow> event_gate" where
  "gate_new cooldown = \<lparr>cooldown_ns = cooldown, cooldown_until_ns = 0, collecting = False\<rparr>"

definition tryBegin :: "u64 \<Rightarrow> event_gate \<Rightarrow> bool \<times> event_gate" where
  "tryBegin trigger g =
     (if collecting g \<or> trigger < cooldown_until_ns g then (False, g)
      else (True, g\<lparr>collecting := True\<rparr>))"

definition gate_complete :: "u64 \<Rightarrow> event_gate \<Rightarrow> event_gate" where
  "gate_complete actual_end g =
     g\<lparr>collecting := False, cooldown_until_ns := saturatingAdd actual_end (cooldown_ns g)\<rparr>"

definition stateAt :: "event_gate \<Rightarrow> u64 \<Rightarrow> event_state" where
  "stateAt g ts =
     (if collecting g then CollectingPostRoll
      else if ts < cooldown_until_ns g then Cooldown else Idle)"

section \<open>The recorder\<close>

record event_config =
  event_recording_enabled :: bool
  event_pre_seconds :: rat
  event_post_seconds :: rat
  event_cooldown_seconds :: rat
  event_min_free_bytes :: u64

record 'd event_job =
  job_id :: string
  wall_time :: nat
  trigger_sequence :: u64
  trigger_ts :: u64
  requested_start_ts :: u64
  requested_end_ts :: u64
  actual_start_ts :: u64
  actual_end_ts :: u64
  job_generation :: u64
  job_pre_roll_complete :: bool
  post_roll_complete :: bool
  snapshot :: main_snapshot
  detections :: "'d list"
  units :: "access_unit list"
  errors :: "string list"

record 'd recorder =
  rec_config :: event_config
  gate :: event_gate
  active :: "'d event_job option"
  jobs :: "'d event_job list"
  initialized :: bool
  running :: bool
  accepting :: bool
  rec_latest_ts :: u64
  rec_metrics :: metrics

definition kWorkerQueueCapacity :: nat where
  "kWorkerQueueCapacity = 2"

definition recorder_new :: "event_config \<Rightarrow> metrics \<Rightarrow> 'd recorder" where
  "recorder_new config m =
     \<lparr>rec_config = config, gate = gate_new (secondsToNs (event_cooldown_seconds config)),
      active = None, jobs = [], initialized = False, running = False, accepting = False,
      rec_latest_ts = 0, rec_metrics = m\<rparr>"

definition storageAvailable :: "u64 option \<Rightarrow> 'd recorder \<Rightarrow> bool \<times> 'd recorder" where
  "storageAvailable space r =
     (case space of
        Some available \<Rightarrow>
          if available < event_min_free_bytes (rec_config r)
          then (False, r\<lparr>rec_metrics := bump (Ev event_disk_space_rejections) (rec_metrics r)\<rparr>)
          else (True, r)
      | None \<Rightarrow> (False, r\<lparr>rec_metrics := bump (Ev event_disk_space_rejections) (rec_metrics r)\<rparr>))"

definition finish_job :: "bool \<Rightarrow> string \<Rightarrow> 'd event_job \<Rightarrow> 'd event_job" where
  "finish_job post_complete error e =
     (let e1 = e\<lparr>post_roll_complete := post_complete,
                 errors := (if error \<noteq> [] then errors e @ [error] else errors e)\<rparr>
      in if units e1 \<noteq> []
         then e1\<lparr>actual_start_ts := sensor_timestamp_ns (hd (units e1)),
                 actual_end_ts := sensor_timestamp_ns (last (units e1))\<rparr>
         else e1\<lparr>actual_end_ts := trigger_ts e1\<rparr>)"

definition finishLocked :: "bool \<Rightarrow> string \<Rightarrow> 'd recorder \<Rightarrow> 'd recorder" where
  "finishLocked post_complete error r =
     (case active r of
        None \<Rightarrow> r
      | Some e \<Rightarrow>
          let job = finish_job post_complete error e;
              m1 = (if post_complete then rec_metrics r
                    else bump (Ev events_partial_postroll) (rec_metrics r));
              g = gate_complete (actual_end_ts job) (gate r)
          in if length (jobs r) \<ge> kWorkerQueueCapacity
             then r\<lparr>gate := g, active := None, rec_metrics := bump (Ev events_failed) m1\<rparr>
             else r\<lparr>gate := g, active := None, jobs := jobs r @ [job], rec_metrics := m1\<rparr>)"

text \<open>The copy loop of \<open>trigger\<close>, with its early exit at the requested end.\<close>

fun collectUntil :: "u64 \<Rightarrow> access_unit list \<Rightarrow> access_unit list \<times> bool" where
  "collectUntil end_ts [] = ([], False)"
| "collectUntil end_ts (u # us) =
     (if sensor_timestamp_ns u \<ge> end_ts then ([u], True)
      else case collectUntil end_ts us of (vs, full) \<Rightarrow> (u # vs, full))"

definition new_event :: "(frame_lease \<Rightarrow> bool \<times> main_snapshot \<times> string) \<Rightarrow> ring_selection
     \<Rightarrow> (string \<Rightarrow> nat \<Rightarrow> string) \<Rightarrow> nat \<Rightarrow> event_config \<Rightarrow> frame_lease \<Rightarrow> 'd list \<Rightarrow> 'd event_job" where
  "new_event stage selection strftime now config frame dets =
     (let trigger_timestamp = fl_sensor_timestamp_ns frame;
          pre_ns = secondsToNs (event_pre_seconds config);
          post_ns = secondsToNs (event_post_seconds config);
          end_ts = saturatingAdd trigger_timestamp post_ns;
          (staged, snap, snapshot_error) = stage frame;
          (us, full) = collectUntil end_ts (sel_units selection)
      in \<lparr>job_id = formatEventId strftime now (fl_sequence frame), wall_time = now,
          trigger_sequence = fl_sequence frame, trigger_ts = trigger_timestamp,
          requested_start_ts = (if trigger_timestamp > pre_ns then trigger_timestamp - pre_ns else 0),
          requested_end_ts = end_ts, actual_start_ts = 0, actual_end_ts = 0,
          job_generation = sel_generation selection,
          job_pre_roll_complete = pre_roll_complete selection, post_roll_complete = full,
          snapshot = snap, detections = dets, units = us,
          errors = (if staged then [] else [snapshot_error])\<rparr>)"

definition no_preroll_error :: string where
  "no_preroll_error = ''no independently decodable H.264 pre-roll was available''"

definition trigger :: "(frame_lease \<Rightarrow> bool \<times> main_snapshot \<times> string) \<Rightarrow> encoded_ring
     \<Rightarrow> (string \<Rightarrow> nat \<Rightarrow> string) \<Rightarrow> nat \<Rightarrow> u64 option \<Rightarrow> frame_lease option \<Rightarrow> 'd list
     \<Rightarrow> 'd recorder \<Rightarrow> bool \<times> 'd recorder" where
  "trigger stage history strftime now space frame dets r =
     (case frame of
        None \<Rightarrow> (False, r)
      | Some f \<Rightarrow>
          if \<not> event_recording_enabled (rec_config r) \<or> dets = [] then (False, r)
          else case storageAvailable space r of
            (False, r1) \<Rightarrow> (False, r1\<lparr>rec_metrics := bump (Ev events_suppressed) (rec_metrics r1)\<rparr>)
          | (True, r1) \<Rightarrow>
              let ts = fl_sensor_timestamp_ns f;
                  r2 = r1\<lparr>rec_latest_ts := max (rec_latest_ts r1) ts\<rparr>;
                  (begun, g) = (if accepting r2 then tryBegin ts (gate r2) else (False, gate r2))
              in if \<not> begun
                 then (False, r2\<lparr>gate := g, rec_metrics := bump (Ev events_suppressed) (rec_metrics r2)\<rparr>)
                 else
                   let selection = selectPreRoll history ts (secondsToNs (event_pre_seconds (rec_config r)));
                       event = new_event stage selection strftime now (rec_config r) f dets;
                       m1 = (if job_pre_roll_complete event then rec_metrics r2
                             else bump (Ev events_partial_preroll) (rec_metrics r2));
                       r3 = r2\<lparr>gate := g, rec_metrics := bump (Ev events_triggered) m1,
                               active := Some event\<rparr>
                   in (True,
                       if \<not> has_independent_start selection \<or> units event = []
                       then finishLocked False []
                              (r3\<lparr>active := Some (event\<lparr>errors := errors event @ [no_preroll_error]\<rparr>)\<rparr>)
                       else if post_roll_complete event then finishLocked True [] r3
                       else r3))"

definition observeEncoded :: "access_unit option \<Rightarrow> 'd recorder \<Rightarrow> 'd recorder" where
  "observeEncoded unit r =
     (case unit of
        None \<Rightarrow> r
      | Some u \<Rightarrow>
          if \<not> event_recording_enabled (rec_config r) then r
          else
            let r1 = r\<lparr>rec_latest_ts := max (rec_latest_ts r) (sensor_timestamp_ns u)\<rparr>
            in case active r1 of
                 None \<Rightarrow> r1
               | Some e \<Rightarrow>
                   if generation u \<noteq> job_generation e
                   then finishLocked False ''encoder generation changed during post-roll'' r1
                   else if units e \<noteq> [] \<and> sensor_timestamp_ns u \<le> sensor_timestamp_ns (last (units e))
                   then r1
                   else
                     let r2 = r1\<lparr>active := Some (e\<lparr>units := units e @ [u]\<rparr>)\<rparr>
                     in if sensor_timestamp_ns u \<ge> requested_end_ts e then finishLocked True [] r2 else r2)"

text \<open>
  The part of \<open>stop\<close> under the mutex; the result says whether the caller goes on to join the
  worker.
\<close>

definition rec_stop :: "'d recorder \<Rightarrow> bool \<times> 'd recorder" where
  "rec_stop r =
     (let r1 = r\<lparr>accepting := False\<rparr>;
          r2 = (if active r1 \<noteq> None then finishLocked False ''shutdown interrupted event post-roll'' r1 else r1)
      in if \<not> running r2 then (False, r2) else (True, r2\<lparr>running := False\<rparr>))"

text \<open>\<open>thread_ok\<close> is whether \<open>std::thread\<close> could be created.\<close>

definition rec_start :: "bool \<Rightarrow> 'd recorder \<Rightarrow> bool \<times> 'd recorder" where
  "rec_start thread_ok r =
     (if \<not> initialized r then (False, r)
      else if \<not> event_recording_enabled (rec_config r) \<or> running r
      then (True, r\<lparr>accepting := event_recording_enabled (rec_config r)\<rparr>)
      else if thread_ok then (True, r\<lparr>running := True, accepting := True\<rparr>)
      else (False, r\<lparr>running := False, accepting := False\<rparr>))"

text \<open>
  \<open>initialize\<close> with the outcomes of its file system calls: whether the directory could be created
  and the probe file written, and the free space.
\<close>

definition rec_initialize :: "bool \<Rightarrow> bool \<Rightarrow> u64 option \<Rightarrow> 'd recorder \<Rightarrow> bool \<times> 'd recorder" where
  "rec_initialize dir_ok probe_ok space r =
     (if \<not> event_recording_enabled (rec_config r) then (True, r\<lparr>initialized := True\<rparr>)
      else if \<not> dir_ok then (False, r)
      else if \<not> probe_ok then (False, r)
      else case storageAvailable space r of
             (False, r1) \<Rightarrow> (False, r1)
           | (True, r1) \<Rightarrow> (True, r1\<lparr>initialized := True\<rparr>))"

text \<open>
  One pass of the worker's wait: \<open>WorkerSleeps\<close> exactly when the condition variable's predicate is
  false.
\<close>

datatype 'd worker_step = WorkerSleeps | WorkerExits | WorkerWrites "'d event_job"

definition worker_take :: "'d recorder \<Rightarrow> 'd worker_step \<times> 'd recorder" where
  "worker_take r =
     (case jobs r of
        [] \<Rightarrow> (if running r then WorkerSleeps else WorkerExits, r)
      | j # js \<Rightarrow> (WorkerWrites j, r\<lparr>jobs := js\<rparr>))"

definition rec_state :: "'d recorder \<Rightarrow> event_state" where
  "rec_state r = stateAt (gate r) (rec_latest_ts r)"

section \<open>What a clip is\<close>

text \<open>
  \<open>collecting_ok\<close>: an event that waits for its post-roll has a usable clip that has not reached
  the requested end. \<open>job_ok\<close>: what the worker may rely on.
\<close>

definition clip_window :: "'d event_job \<Rightarrow> bool" where
  "clip_window e \<longleftrightarrow>
     clip_ok (job_generation e) (units e) \<and> sensor_timestamp_ns (hd (units e)) \<le> trigger_ts e
     \<and> (job_pre_roll_complete e \<longrightarrow> sensor_timestamp_ns (hd (units e)) \<le> requested_start_ts e)
     \<and> list_all (\<lambda>u. sensor_timestamp_ns u < requested_end_ts e) (butlast (units e))"

definition collecting_ok :: "'d event_job \<Rightarrow> bool" where
  "collecting_ok e \<longleftrightarrow>
     clip_window e \<and> \<not> post_roll_complete e
     \<and> sensor_timestamp_ns (last (units e)) < requested_end_ts e"

definition job_ok :: "'d event_job \<Rightarrow> bool" where
  "job_ok j \<longleftrightarrow>
     (if units j = [] then \<not> post_roll_complete j \<and> actual_end_ts j = trigger_ts j \<and> errors j \<noteq> []
      else clip_window j
           \<and> actual_start_ts j = sensor_timestamp_ns (hd (units j))
           \<and> actual_end_ts j = sensor_timestamp_ns (last (units j))
           \<and> (if post_roll_complete j then requested_end_ts j \<le> actual_end_ts j
              else actual_end_ts j < requested_end_ts j \<and> errors j \<noteq> []))"

definition rec_inv :: "'d recorder \<Rightarrow> bool" where
  "rec_inv r \<longleftrightarrow>
     (active r \<noteq> None \<longleftrightarrow> collecting (gate r))
     \<and> pred_option collecting_ok (active r)
     \<and> list_all job_ok (jobs r) \<and> length (jobs r) \<le> kWorkerQueueCapacity
     \<and> (accepting r \<longrightarrow> running r) \<and> (running r \<longrightarrow> event_recording_enabled (rec_config r))
     \<and> (active r \<noteq> None \<longrightarrow> accepting r)
     \<and> cooldown_ns (gate r) = secondsToNs (event_cooldown_seconds (rec_config r))"

lemma collectUntil_spec:
  "collectUntil e us = (vs, full) \<Longrightarrow>
     prefix vs us \<and> list_all (\<lambda>u. sensor_timestamp_ns u < e) (butlast vs)
     \<and> (if full then vs \<noteq> [] \<and> e \<le> sensor_timestamp_ns (last vs)
        else vs = us \<and> list_all (\<lambda>u. sensor_timestamp_ns u < e) vs)
     \<and> (us \<noteq> [] \<longrightarrow> vs \<noteq> [] \<and> hd vs = hd us)"
proof (induction us arbitrary: vs full)
  case (Cons u us)
  obtain ws b where c: "collectUntil e us = (ws, b)" by force
  note IH = Cons.IH[OF c]
  show ?case
  proof (cases "e \<le> sensor_timestamp_ns u")
    case True
    with Cons.prems show ?thesis by auto
  next
    case False
    with Cons.prems c IH show ?thesis by (auto simp: not_le split: if_splits)
  qed
qed simp

lemma clip_ok_prefix:
  assumes "clip_ok g us" "prefix vs us" "vs \<noteq> []" "hd vs = hd us"
  shows "clip_ok g vs"
proof -
  from assms(2) obtain ws where us: "us = vs @ ws" by (auto simp: prefix_def)
  from assms(1,3) show ?thesis unfolding us clip_ok_def by (simp add: ts_sorted_append)
qed

text \<open>What the recorder needs of the source of its pre-roll, proved against the ring's contract.\<close>

context preroll_source
begin

lemma collected_clip:
  assumes "inv s" "has_independent_start (select s t p)"
    and "collectUntil e (sel_units (select s t p)) = (vs, full)"
  shows "clip_ok (sel_generation (select s t p)) vs" "sensor_timestamp_ns (hd vs) \<le> t"
    and "hd vs = hd (sel_units (select s t p))"
proof -
  have ne: "sel_units (select s t p) \<noteq> []" using assms(1,2) by (simp add: select_usable_iff[symmetric])
  note spec = collectUntil_spec[OF assms(3)]
  show "hd vs = hd (sel_units (select s t p))" using spec ne by blast
  then show "sensor_timestamp_ns (hd vs) \<le> t" using select_start[OF assms(1,2)] by simp
  show "clip_ok (sel_generation (select s t p)) vs"
    using select_clip[OF assms(1,2)] spec ne by (blast intro: clip_ok_prefix)
qed

end

lemma selectPreRoll_complete_start:
  "ring_inv r \<Longrightarrow> has_independent_start (selectPreRoll r t p) \<Longrightarrow> pre_roll_complete (selectPreRoll r t p) \<Longrightarrow>
     sensor_timestamp_ns (hd (sel_units (selectPreRoll r t p))) \<le> requested_from t p"
  by (auto simp: ring_inv_def selectPreRoll_eq selection_of_def split: option.splits)

lemma new_event_fields:
  fixes stage sel strftime now config f dets
  defines "e \<equiv> new_event stage sel strftime now config f dets"
  shows "job_generation e = sel_generation sel" "trigger_ts e = fl_sensor_timestamp_ns f"
    "job_pre_roll_complete e = pre_roll_complete sel"
    "requested_start_ts e = requested_from (fl_sensor_timestamp_ns f) (secondsToNs (event_pre_seconds config))"
    "requested_end_ts e = saturatingAdd (fl_sensor_timestamp_ns f) (secondsToNs (event_post_seconds config))"
    "collectUntil (requested_end_ts e) (sel_units sel) = (units e, post_roll_complete e)"
  by (simp_all add: e_def new_event_def Let_def split: prod.split)

lemma new_event_window:
  assumes inv: "ring_inv h"
    and sel: "sel = selectPreRoll h (fl_sensor_timestamp_ns f) (secondsToNs (event_pre_seconds config))"
    and has: "has_independent_start sel"
    and e: "e = new_event stage sel strftime now config f dets"
  shows "clip_window e"
    and "if post_roll_complete e then requested_end_ts e \<le> sensor_timestamp_ns (last (units e)) else collecting_ok e"
proof -
  note fields = new_event_fields[of stage sel strftime now config f dets, folded e]
  note spec = collectUntil_spec[OF fields(6)]
  note clip = ring.collected_clip[OF inv has[unfolded sel] fields(6)[unfolded sel]]
  show w: "clip_window e"
    using clip spec selectPreRoll_complete_start[OF inv has[unfolded sel]]
    by (auto simp: clip_window_def fields sel)
  show "if post_roll_complete e then requested_end_ts e \<le> sensor_timestamp_ns (last (units e)) else collecting_ok e"
    using w spec by (auto simp: collecting_ok_def clip_window_def clip_ok_def list_all_iff)
qed

section \<open>Every operation keeps the invariant\<close>

lemma finish_job_fields [simp]:
  "units (finish_job b err e) = units e" "post_roll_complete (finish_job b err e) = b"
  "job_generation (finish_job b err e) = job_generation e" "trigger_ts (finish_job b err e) = trigger_ts e"
  "requested_start_ts (finish_job b err e) = requested_start_ts e"
  "requested_end_ts (finish_job b err e) = requested_end_ts e"
  "job_pre_roll_complete (finish_job b err e) = job_pre_roll_complete e"
  "errors (finish_job b err e) = (if err \<noteq> [] then errors e @ [err] else errors e)"
  by (simp_all add: finish_job_def Let_def)

lemma finish_job_times:
  "units e \<noteq> [] \<Longrightarrow> actual_start_ts (finish_job b err e) = sensor_timestamp_ns (hd (units e))"
  "units e \<noteq> [] \<Longrightarrow> actual_end_ts (finish_job b err e) = sensor_timestamp_ns (last (units e))"
  "units e = [] \<Longrightarrow> actual_end_ts (finish_job b err e) = trigger_ts e"
  by (simp_all add: finish_job_def Let_def)

lemma clip_window_finish [simp]: "clip_window (finish_job b err e) = clip_window e"
  by (simp add: clip_window_def)

lemma finish_job_ok:
  assumes "clip_window e"
    and "if b then requested_end_ts e \<le> sensor_timestamp_ns (last (units e))
         else sensor_timestamp_ns (last (units e)) < requested_end_ts e \<and> (err \<noteq> [] \<or> errors e \<noteq> [])"
  shows "job_ok (finish_job b err e)"
proof -
  have "units e \<noteq> []" using assms(1) by (simp add: clip_window_def clip_ok_def)
  then show ?thesis using assms by (auto simp: job_ok_def finish_job_times)
qed

lemma finish_job_empty_ok: "units e = [] \<Longrightarrow> errors e \<noteq> [] \<Longrightarrow> job_ok (finish_job False [] e)"
  by (simp add: job_ok_def finish_job_times)

lemma finishLocked_inv:
  assumes jobs: "list_all job_ok (jobs r)" "length (jobs r) \<le> kWorkerQueueCapacity"
    and run: "accepting r \<longrightarrow> running r" "running r \<longrightarrow> event_recording_enabled (rec_config r)"
    and cd: "cooldown_ns (gate r) = secondsToNs (event_cooldown_seconds (rec_config r))"
    and e: "active r = Some e" "job_ok (finish_job b err e)"
  shows "rec_inv (finishLocked b err r)"
  using assms by (simp add: rec_inv_def finishLocked_def Let_def gate_complete_def kWorkerQueueCapacity_def)

lemma storageAvailable_frame:
  obtains ok m where "storageAvailable space r = (ok, r\<lparr>rec_metrics := m\<rparr>)"
proof -
  have "\<exists>m. r = r\<lparr>rec_metrics := m\<rparr>" by (rule exI[of _ "rec_metrics r"]) simp
  then have "\<exists>ok m. storageAvailable space r = (ok, r\<lparr>rec_metrics := m\<rparr>)"
    unfolding storageAvailable_def by (auto split: option.split)
  then show thesis using that by blast
qed

lemma rec_inv_frame:
  "rec_inv (r\<lparr>rec_latest_ts := t, rec_metrics := m\<rparr>) = rec_inv r"
  "rec_inv (r\<lparr>rec_latest_ts := t\<rparr>) = rec_inv r" "rec_inv (r\<lparr>rec_metrics := m\<rparr>) = rec_inv r"
  by (simp_all add: rec_inv_def)

text \<open>A trigger is either ignored (only counters and the newest timestamp move) or opens an event.\<close>

lemma trigger_cases:
  assumes "trigger stage h strftime now space frame dets r = (ok, r')"
  obtains (ignored) t m where "\<not> ok" "r' = r\<lparr>rec_latest_ts := t, rec_metrics := m\<rparr>"
  | (opened) f sel e m where "ok" "frame = Some f" "accepting r" "\<not> collecting (gate r)"
      "cooldown_until_ns (gate r) \<le> fl_sensor_timestamp_ns f"
      "sel = selectPreRoll h (fl_sensor_timestamp_ns f) (secondsToNs (event_pre_seconds (rec_config r)))"
      "e = new_event stage sel strftime now (rec_config r) f dets"
      "let r3 = r\<lparr>rec_latest_ts := max (rec_latest_ts r) (fl_sensor_timestamp_ns f),
                   gate := (gate r)\<lparr>collecting := True\<rparr>, rec_metrics := m, active := Some e\<rparr>
       in r' = (if \<not> has_independent_start sel \<or> units e = []
                then finishLocked False [] (r3\<lparr>active := Some (e\<lparr>errors := errors e @ [no_preroll_error]\<rparr>)\<rparr>)
                else if post_roll_complete e then finishLocked True [] r3 else r3)"
proof -
  have upd: "r = r\<lparr>rec_latest_ts := rec_latest_ts r, rec_metrics := rec_metrics r\<rparr>" by simp
  show thesis
  proof (cases "frame = None \<or> \<not> event_recording_enabled (rec_config r) \<or> dets = []")
    case True
    with assms have "\<not> ok" "r' = r" by (auto simp: trigger_def split: option.splits)
    with upd show thesis by (intro ignored[of "rec_metrics r" "rec_latest_ts r"]) simp_all
  next
    case enabled: False
    then obtain f where f: "frame = Some f" by auto
    obtain st m where st: "storageAvailable space r = (st, r\<lparr>rec_metrics := m\<rparr>)"
      by (rule storageAvailable_frame)
    let ?t = "fl_sensor_timestamp_ns f"
    show thesis
    proof (cases "st \<and> accepting r \<and> \<not> collecting (gate r) \<and> cooldown_until_ns (gate r) \<le> ?t")
      case True
      let ?sel = "selectPreRoll h ?t (secondsToNs (event_pre_seconds (rec_config r)))"
      let ?e = "new_event stage ?sel strftime now (rec_config r) f dets"
      let ?m = "bump (Ev events_triggered)
        (if job_pre_roll_complete ?e then m else bump (Ev events_partial_preroll) m)"
      from True enabled f st assms show thesis
        by (intro opened[where f = f and sel = ?sel and e = ?e and m = ?m])
          (auto simp: trigger_def tryBegin_def Let_def not_less[symmetric])
    next
      case False
      with enabled f st assms show thesis
        by (intro ignored[where m = "bump (Ev events_suppressed) m"
              and t = "if st then max (rec_latest_ts r) ?t else rec_latest_ts r"])
          (cases st; auto simp: trigger_def tryBegin_def Let_def not_less split: if_splits)+
    qed
  qed
qed

lemma trigger_inv:
  assumes inv: "rec_inv r" and ring: "ring_inv h"
    and t: "trigger stage h strftime now space frame dets r = (ok, r')"
  shows "rec_inv r'"
  using t
proof (cases rule: trigger_cases)
  case (ignored t m)
  with inv show ?thesis by (simp add: rec_inv_frame)
next
  case (opened f sel e m)
  let ?r3 = "r\<lparr>rec_latest_ts := max (rec_latest_ts r) (fl_sensor_timestamp_ns f),
              gate := (gate r)\<lparr>collecting := True\<rparr>, rec_metrics := m, active := Some e\<rparr>"
  let ?e = "e\<lparr>errors := errors e @ [no_preroll_error]\<rparr>"
  note base = inv[unfolded rec_inv_def]
  have r': "r' = (if \<not> has_independent_start sel \<or> units e = []
                  then finishLocked False [] (?r3\<lparr>active := Some ?e\<rparr>)
                  else if post_roll_complete e then finishLocked True [] ?r3 else ?r3)"
    using opened(8) by (simp add: Let_def)
  show ?thesis
  proof (cases "has_independent_start sel")
    case False
    then have "sel_units sel = []" using ring.select_none[OF ring] opened(6) by blast
    then have "units e = []"
      using new_event_fields(6)[of stage sel strftime now "rec_config r" f dets] opened(7) by simp
    then have "job_ok (finish_job False [] ?e)" by (intro finish_job_empty_ok) simp_all
    then have "rec_inv (finishLocked False [] (?r3\<lparr>active := Some ?e\<rparr>))"
      using base by (intro finishLocked_inv) auto
    with False r' show ?thesis by simp
  next
    case True
    note w = new_event_window[OF ring opened(6) True opened(7)]
    then have "units e \<noteq> []" by (simp add: clip_window_def clip_ok_def)
    with True r' have r': "r' = (if post_roll_complete e then finishLocked True [] ?r3 else ?r3)" by simp
    show ?thesis
    proof (cases "post_roll_complete e")
      case True
      with w have "job_ok (finish_job True [] e)" by (intro finish_job_ok) auto
      then have "rec_inv (finishLocked True [] ?r3)" using base by (intro finishLocked_inv) auto
      with True r' show ?thesis by simp
    next
      case False
      with w r' base opened(3) show ?thesis by (simp add: rec_inv_def)
    qed
  qed
qed

lemma clip_ok_snoc:
  assumes "clip_ok g us" "au_valid u" "generation u = g" "sensor_timestamp_ns (last us) \<le> sensor_timestamp_ns u"
  shows "clip_ok g (us @ [u])"
proof -
  have "ts_sorted (us @ [u])"
    using assms(1,4) ts_sorted_last[of us] by (force simp: clip_ok_def ts_sorted_append)
  with assms show ?thesis by (auto simp: clip_ok_def hd_append)
qed

lemma observe_inv:
  assumes inv: "rec_inv r" and u: "pred_option au_valid unit"
  shows "rec_inv (observeEncoded unit r)"
proof (cases "unit = None \<or> \<not> event_recording_enabled (rec_config r) \<or> active r = None")
  case True
  with inv show ?thesis
    by (auto simp: observeEncoded_def Let_def rec_inv_frame split: option.split)
next
  case False
  then obtain v e where v: "unit = Some v" "active r = Some e" by auto
  let ?r1 = "r\<lparr>rec_latest_ts := max (rec_latest_ts r) (sensor_timestamp_ns v)\<rparr>"
  let ?e = "e\<lparr>units := units e @ [v]\<rparr>"
  note base = inv[unfolded rec_inv_def]
  have ok: "collecting_ok e" using base v by simp
  then have w: "clip_window e" and ne: "units e \<noteq> []"
    by (auto simp: collecting_ok_def clip_window_def clip_ok_def)
  have step: "observeEncoded unit r =
     (if generation v \<noteq> job_generation e then finishLocked False ''encoder generation changed during post-roll'' ?r1
      else if sensor_timestamp_ns v \<le> sensor_timestamp_ns (last (units e)) then ?r1
      else if requested_end_ts e \<le> sensor_timestamp_ns v then finishLocked True [] (?r1\<lparr>active := Some ?e\<rparr>)
      else ?r1\<lparr>active := Some ?e\<rparr>)"
    using False v ne by (simp add: observeEncoded_def Let_def)
  consider (gen) "generation v \<noteq> job_generation e"
    | (old) "generation v = job_generation e" "sensor_timestamp_ns v \<le> sensor_timestamp_ns (last (units e))"
    | (take) "generation v = job_generation e" "sensor_timestamp_ns (last (units e)) < sensor_timestamp_ns v"
    by fastforce
  then show ?thesis
  proof cases
    case gen
    have "job_ok (finish_job False ''encoder generation changed during post-roll'' e)"
      using ok by (intro finish_job_ok) (auto simp: collecting_ok_def)
    then have "rec_inv (finishLocked False ''encoder generation changed during post-roll'' ?r1)"
      using base v by (intro finishLocked_inv) simp_all
    with step gen show ?thesis by simp
  next
    case old
    with step inv show ?thesis by (simp add: rec_inv_frame)
  next
    case take
    have "clip_ok (job_generation e) (units ?e)"
      using w u v take by (auto simp: clip_window_def intro!: clip_ok_snoc)
    moreover have "list_all (\<lambda>x. sensor_timestamp_ns x < requested_end_ts e) (butlast (units e) @ [last (units e)])"
      using w ok by (simp add: clip_window_def collecting_ok_def)
    then have "list_all (\<lambda>x. sensor_timestamp_ns x < requested_end_ts e) (units e)"
      using ne by (metis append_butlast_last_id)
    ultimately have w': "clip_window ?e" using w ne by (simp add: clip_window_def)
    show ?thesis
    proof (cases "requested_end_ts e \<le> sensor_timestamp_ns v")
      case True
      with w' have "job_ok (finish_job True [] ?e)" by (intro finish_job_ok) auto
      then have "rec_inv (finishLocked True [] (?r1\<lparr>active := Some ?e\<rparr>))"
        using base by (intro finishLocked_inv) simp_all
      with step True take inv show ?thesis by (simp add: rec_inv_frame)
    next
      case False
      with w' ok have "collecting_ok ?e" by (auto simp: collecting_ok_def)
      with base v have "rec_inv (?r1\<lparr>active := Some ?e\<rparr>)" by (simp add: rec_inv_def)
      with step False take inv show ?thesis by (simp add: rec_inv_frame)
    qed
  qed
qed

lemma rec_stop_inv:
  assumes inv: "rec_inv r"
  shows "rec_inv (snd (rec_stop r))" "active (snd (rec_stop r)) = None"
proof -
  let ?r1 = "r\<lparr>accepting := False\<rparr>" and ?err = "''shutdown interrupted event post-roll''"
  define r2 where "r2 = (if active r \<noteq> None then finishLocked False ?err ?r1 else ?r1)"
  note base = inv[unfolded rec_inv_def]
  have r2: "rec_inv r2 \<and> active r2 = None \<and> \<not> accepting r2"
  proof (cases "active r")
    case None
    with base show ?thesis by (simp add: r2_def rec_inv_def)
  next
    case (Some e)
    then have "collecting_ok e" using base by simp
    then have "job_ok (finish_job False ?err e)" by (intro finish_job_ok) (auto simp: collecting_ok_def)
    then have "rec_inv (finishLocked False ?err ?r1)" using base Some by (intro finishLocked_inv) auto
    then show ?thesis using Some by (simp add: r2_def finishLocked_def Let_def)
  qed
  have "snd (rec_stop r) = (if running r2 then r2\<lparr>running := False\<rparr> else r2)"
    by (simp add: rec_stop_def Let_def r2_def)
  with r2 show "rec_inv (snd (rec_stop r))" "active (snd (rec_stop r)) = None"
    by (auto simp: rec_inv_def)
qed

lemma rec_start_inv: "rec_inv r \<Longrightarrow> rec_inv (snd (rec_start ok r))"
  by (auto simp: rec_start_def rec_inv_def)

lemma rec_initialize_inv: "rec_inv r \<Longrightarrow> rec_inv (snd (rec_initialize d p sp r))"
proof -
  obtain ok m where "storageAvailable sp r = (ok, r\<lparr>rec_metrics := m\<rparr>)" by (rule storageAvailable_frame)
  then show "rec_inv r \<Longrightarrow> rec_inv (snd (rec_initialize d p sp r))"
    by (cases ok) (auto simp: rec_initialize_def rec_inv_def)
qed

lemma worker_take_inv:
  assumes "rec_inv r"
  shows "rec_inv (snd (worker_take r))" "fst (worker_take r) = WorkerWrites j \<Longrightarrow> job_ok j"
  using assms by (auto simp: worker_take_def rec_inv_def split: list.splits if_splits)

lemma recorder_new_inv: "rec_inv (recorder_new config m)"
  by (simp add: rec_inv_def recorder_new_def gate_new_def kWorkerQueueCapacity_def)

section \<open>Operation sequences\<close>

text \<open>One call of the recorder's interface with the environment's answers it consumed.\<close>

datatype 'd rec_op =
    TriggerOp encoded_ring nat "u64 option" "frame_lease option" "'d list"
  | ObserveOp "access_unit option"
  | InitializeOp bool bool "u64 option"
  | StartOp bool
  | StopOp
  | WorkerOp

fun rec_apply :: "(frame_lease \<Rightarrow> bool \<times> main_snapshot \<times> string) \<Rightarrow> (string \<Rightarrow> nat \<Rightarrow> string)
     \<Rightarrow> 'd rec_op \<Rightarrow> 'd recorder \<Rightarrow> 'd recorder" where
  "rec_apply stage strftime (TriggerOp h now space frame dets) r =
     snd (trigger stage h strftime now space frame dets r)"
| "rec_apply stage strftime (ObserveOp u) r = observeEncoded u r"
| "rec_apply stage strftime (InitializeOp d p s) r = snd (rec_initialize d p s r)"
| "rec_apply stage strftime (StartOp ok) r = snd (rec_start ok r)"
| "rec_apply stage strftime StopOp r = snd (rec_stop r)"
| "rec_apply stage strftime WorkerOp r = snd (worker_take r)"

fun rec_op_ok :: "'d rec_op \<Rightarrow> bool" where
  "rec_op_ok (TriggerOp h now space frame dets) = ring_inv h"
| "rec_op_ok (ObserveOp u) = pred_option au_valid u"
| "rec_op_ok _ = True"

lemma rec_apply_inv:
  assumes "rec_inv r" "rec_op_ok op"
  shows "rec_inv (rec_apply stage strftime op r)"
  using assms
  by (cases op) (auto simp: observe_inv rec_initialize_inv rec_start_inv rec_stop_inv worker_take_inv
      intro: trigger_inv prod.collapse[symmetric])

lemma rec_run_inv:
  "rec_inv r \<Longrightarrow> list_all rec_op_ok ops \<Longrightarrow> rec_inv (fold (rec_apply stage strftime) ops r)"
  by (induction ops arbitrary: r) (simp_all add: rec_apply_inv)

text \<open>
  C10. Over any sequence of triggers, observed access units, starts, stops and worker activity: at
  most one event is open, and it is open exactly while the gate is collecting; the worker's queue
  holds at most two jobs; and every queued job is sound: either it has no video, is not marked
  complete and carries an error, or its access units are valid, of the job's one encoder generation,
  in timestamp order, start with a decodable unit at or before the trigger, and the recorded start,
  end and completeness flags are true of them.
\<close>

theorem recorder_jobs_sound:
  assumes "list_all rec_op_ok ops"
    and r: "r = fold (rec_apply stage strftime) ops (recorder_new config m)"
  shows "(active r \<noteq> None \<longleftrightarrow> collecting (gate r)) \<and> length (jobs r) \<le> 2 \<and> list_all job_ok (jobs r)
         \<and> (active r \<noteq> None \<longrightarrow> accepting r \<and> running r)"
proof -
  have "rec_inv r" unfolding r using recorder_new_inv assms(1) by (rule rec_run_inv)
  then show ?thesis by (auto simp: rec_inv_def kWorkerQueueCapacity_def)
qed

section \<open>Cooldown\<close>

definition accepts :: "(frame_lease \<Rightarrow> bool \<times> main_snapshot \<times> string) \<Rightarrow> (string \<Rightarrow> nat \<Rightarrow> string)
     \<Rightarrow> 'd rec_op \<Rightarrow> 'd recorder \<Rightarrow> bool" where
  "accepts stage strftime op r =
     (case op of TriggerOp h now space frame dets \<Rightarrow> fst (trigger stage h strftime now space frame dets r)
      | _ \<Rightarrow> False)"

fun quiet :: "(frame_lease \<Rightarrow> bool \<times> main_snapshot \<times> string) \<Rightarrow> (string \<Rightarrow> nat \<Rightarrow> string)
     \<Rightarrow> 'd rec_op list \<Rightarrow> 'd recorder \<Rightarrow> bool" where
  "quiet stage strftime [] r = True"
| "quiet stage strftime (op # ops) r =
     (\<not> accepts stage strftime op r \<and> quiet stage strftime ops (rec_apply stage strftime op r))"

lemma quiet_step:
  assumes "active r = None" "\<not> accepts stage strftime op r"
  shows "active (rec_apply stage strftime op r) = None \<and> gate (rec_apply stage strftime op r) = gate r"
proof (cases op)
  case (TriggerOp h now space frame dets)
  obtain ok r' where t: "trigger stage h strftime now space frame dets r = (ok, r')" by force
  from t show ?thesis
    by (cases rule: trigger_cases) (use assms TriggerOp t in \<open>auto simp: accepts_def\<close>)
next
  case (InitializeOp d p sp)
  obtain ok m where "storageAvailable sp r = (ok, r\<lparr>rec_metrics := m\<rparr>)" by (rule storageAvailable_frame)
  with InitializeOp assms show ?thesis by (cases ok) (auto simp: rec_initialize_def)
qed (use assms in \<open>auto simp: observeEncoded_def rec_start_def rec_stop_def worker_take_def Let_def
    split: option.split list.split\<close>)

lemma quiet_run:
  "active r = None \<Longrightarrow> quiet stage strftime ops r \<Longrightarrow>
     active (fold (rec_apply stage strftime) ops r) = None \<and> gate (fold (rec_apply stage strftime) ops r) = gate r"
  by (induction ops arbitrary: r) (simp_all add: quiet_step)


section \<open>Shutdown\<close>

text \<open>The worker's loop once no other thread changes the recorder: it runs until it exits or sleeps.\<close>

function worker_drain :: "'d recorder \<Rightarrow> 'd event_job list \<times> 'd worker_step" where
  "worker_drain r =
     (case worker_take r of
        (WorkerWrites j, r') \<Rightarrow> (case worker_drain r' of (js, last_step) \<Rightarrow> (j # js, last_step))
      | (step, r') \<Rightarrow> ([], step))"
  by pat_completeness auto
termination
  by (relation "measure (\<lambda>r. length (jobs r))") (auto simp: worker_take_def split: list.splits if_splits)

declare worker_drain.simps [simp del]

lemma worker_drain_all:
  "worker_drain r = (jobs r, if running r then WorkerSleeps else WorkerExits)"
proof (induction r rule: worker_drain.induct)
  case (1 r)
  then show ?case
    by (subst worker_drain.simps) (cases "jobs r"; auto simp: worker_take_def)
qed

text \<open>
  C14. \<open>stop\<close> loses nothing it could keep: an event in progress is turned into a job that is marked
  incomplete and says why, unless two jobs are already waiting; the worker then writes every queued
  job in order and exits, so the join in \<open>stop\<close> returns; and no later trigger is accepted.
\<close>

theorem stop_drains_queue:
  assumes inv: "rec_inv r" and s: "rec_stop r = (joins, r')"
  shows "jobs r' = jobs r @ (case active r of
             None \<Rightarrow> []
           | Some e \<Rightarrow> if length (jobs r) < 2 then [finish_job False ''shutdown interrupted event post-roll'' e] else [])
         \<and> worker_drain r' = (jobs r', WorkerExits)
         \<and> list_all job_ok (jobs r')
         \<and> (joins \<longleftrightarrow> running r)
         \<and> \<not> fst (trigger stage h strftime now space frame dets r')"
proof -
  have r': "r' = snd (rec_stop r)" by (simp add: s)
  have "rec_inv r'" "active r' = None" using rec_stop_inv[OF inv] by (simp_all add: r')
  moreover have "\<not> running r'" "\<not> accepting r'" "joins \<longleftrightarrow> running r"
    and js: "jobs r' = jobs r @ (case active r of None \<Rightarrow> []
           | Some e \<Rightarrow> if length (jobs r) < 2 then [finish_job False ''shutdown interrupted event post-roll'' e] else [])"
    using s by (auto simp: rec_stop_def Let_def finishLocked_def kWorkerQueueCapacity_def
        split: if_splits option.splits)
  moreover have "\<not> fst (trigger stage h strftime now space frame dets r')"
  proof -
    obtain ok r'' where t: "trigger stage h strftime now space frame dets r' = (ok, r'')" by force
    from t show ?thesis by (cases rule: trigger_cases) (use t \<open>\<not> accepting r'\<close> in auto)
  qed
  ultimately show ?thesis by (simp add: rec_inv_def worker_drain_all)
qed

section \<open>Concrete runs\<close>

definition sample_config :: event_config where
  "sample_config = \<lparr>event_recording_enabled = True, event_pre_seconds = 1, event_post_seconds = 1,
                    event_cooldown_seconds = 2, event_min_free_bytes = 100\<rparr>"

definition sample_lease :: "u64 \<Rightarrow> frame_lease" where
  "sample_lease ts = \<lparr>fl_request = 0, fl_main = sample_view, fl_lores = sample_view, fl_sequence = 7,
                      fl_sensor_timestamp_ns = ts\<rparr>"

definition sample_ring :: encoded_ring where
  "sample_ring = \<lparr>retention_ns = 1000, max_bytes = 50, ring_units = [sample_unit 10 1 True 3], ring_bytes = 3,
     peak_bytes = 3, resets = 0, ring_generation = 1, latest_sensor_ts = 10\<rparr>"

lemma sample_ring_inv: "ring_inv sample_ring"
  by (simp add: ring_inv_def ring_core_def sample_ring_def au_valid_def au_wf_def word_le_iff_unat)

definition no_stage :: "frame_lease \<Rightarrow> bool \<times> main_snapshot \<times> string" where
  "no_stage f = (False, empty_snapshot, ''unmapped'')"

definition sample_ops_of :: "'d \<Rightarrow> 'd rec_op list" where
  "sample_ops_of d = [InitializeOp True True (Some 1000), StartOp True,
     TriggerOp sample_ring 0 (Some 1000) (Some (sample_lease 12)) [d]]"

abbreviation sample_ops :: "nat rec_op list" where "sample_ops \<equiv> sample_ops_of 7"

lemma secondsToNs_samples: "secondsToNs 1 = 1000000000" "secondsToNs 2 = 2000000000"
proof -
  have "\<lfloor>2000000001 / 2 :: rat\<rfloor> = 1000000000" "\<lfloor>4000000001 / 2 :: rat\<rfloor> = 2000000000"
    by (simp_all add: floor_eq_iff)
  then show "secondsToNs 1 = 1000000000" "secondsToNs 2 = 2000000000" by (simp_all add: secondsToNs_def)
qed

lemma sample_selection:
  "selectPreRoll sample_ring 12 1000000000 =
     \<lparr>sel_generation = 1, requested_start = 0, actual_start = 10, pre_roll_complete = False,
      has_independent_start = True, sel_units = [sample_unit 10 1 True 3]\<rparr>"
  by (simp add: selectPreRoll_def sample_ring_def Let_def)

definition sample_recorder_of :: "'d \<Rightarrow> 'd recorder" where
  "sample_recorder_of d = fold (rec_apply no_stage (\<lambda>_ _. [])) (sample_ops_of d) (recorder_new sample_config metrics_init)"

abbreviation sample_recorder :: "nat recorder" where "sample_recorder \<equiv> sample_recorder_of 7"

lemma sample_recorder_active:
  "\<exists>e. active (sample_recorder_of d) = Some e \<and> units e = [sample_unit 10 1 True 3] \<and> jobs (sample_recorder_of d) = []
       \<and> rec_config (sample_recorder_of d) = sample_config \<and> accepting (sample_recorder_of d)"
  by (simp add: sample_recorder_of_def sample_ops_of_def recorder_new_def rec_initialize_def storageAvailable_def
      sample_config_def rec_start_def trigger_def tryBegin_def gate_new_def Let_def sample_lease_def
      secondsToNs_samples sample_selection new_event_def no_stage_def saturatingAdd_def)

theorem recorder_jobs_sound_witness:
  "active sample_recorder \<noteq> None \<and> collecting (gate sample_recorder)"
proof -
  have "list_all rec_op_ok sample_ops" by (simp add: sample_ops_of_def sample_ring_inv)
  from recorder_jobs_sound[OF this sample_recorder_of_def] sample_recorder_active[of "7 :: nat"] show ?thesis by auto
qed

lemma sample_recorder_inv: "rec_inv sample_recorder"
  unfolding sample_recorder_of_def
  by (intro rec_run_inv recorder_new_inv) (simp add: sample_ops_of_def sample_ring_inv)


theorem stop_drains_queue_witness:
  "\<exists>e. active sample_recorder = Some e
     \<and> worker_drain (snd (rec_stop sample_recorder))
         = ([finish_job False ''shutdown interrupted event post-roll'' e], WorkerExits)"
proof -
  from sample_recorder_active[of "7 :: nat"] obtain e where e: "active sample_recorder = Some e" "jobs sample_recorder = []" by blast
  obtain joins r' where "rec_stop sample_recorder = (joins, r')" by force
  from stop_drains_queue[OF sample_recorder_inv this] this e show ?thesis by simp
qed

section \<open>Rounding and identifiers\<close>

text \<open>
  A configured duration is converted to the nearest nanosecond, ties upwards, and saturates
  instead of wrapping.
\<close>

theorem secondsToNs_nearest:
  "(s \<le> 0 \<longrightarrow> secondsToNs s = 0)
   \<and> (s * 1000000000 \<ge> 2 ^ 64 - 1 \<longrightarrow> secondsToNs s = u64_max)
   \<and> (0 < s \<and> s * 1000000000 < 2 ^ 64 - 1 \<longrightarrow>
        s * 1000000000 - 1 / 2 < of_nat (unat (secondsToNs s))
        \<and> of_nat (unat (secondsToNs s)) \<le> s * 1000000000 + 1 / 2)"
proof (intro conjI impI)
  show "s \<le> 0 \<Longrightarrow> secondsToNs s = 0" by (simp add: secondsToNs_def)
  show "s * 1000000000 \<ge> 2 ^ 64 - 1 \<Longrightarrow> secondsToNs s = u64_max"
    by (auto simp: secondsToNs_def Let_def)
next
  assume s: "0 < s \<and> s * 1000000000 < 2 ^ 64 - 1"
  let ?x = "s * 1000000000 + 1 / 2"
  have lo: "0 \<le> \<lfloor>?x\<rfloor>" using s by simp
  have "?x < 2 ^ 64" using s by simp
  then have hi: "\<lfloor>?x\<rfloor> < 2 ^ 64" by (simp add: floor_less_iff)
  have "uint (word_of_int \<lfloor>?x\<rfloor> :: u64) = \<lfloor>?x\<rfloor>"
    using lo hi by (simp add: uint_word_of_int)
  moreover have "secondsToNs s = word_of_int \<lfloor>?x\<rfloor>"
    using s by (auto simp: secondsToNs_def Let_def)
  ultimately have "int (unat (secondsToNs s)) = \<lfloor>?x\<rfloor>" by (metis uint_nat)
  then have "of_nat (unat (secondsToNs s)) = (of_int \<lfloor>?x\<rfloor> :: rat)" by (metis of_int_of_nat_eq)
  then show "s * 1000000000 - 1 / 2 < of_nat (unat (secondsToNs s))"
    "of_nat (unat (secondsToNs s)) \<le> s * 1000000000 + 1 / 2"
    using floor_correct[of ?x] by linarith+
qed

theorem secondsToNs_nearest_witness:
  "of_nat (unat (secondsToNs (1 / 3))) \<le> (1 / 3 :: rat) * 1000000000 + 1 / 2"
  using secondsToNs_nearest[of "1 / 3"] by simp

end
