(* ===== verification/Recording_Pipeline.thy ===== *)
theory Recording_Pipeline
  imports Event_Recorder
begin

text \<open>
  How \<open>app/main.cpp\<close> connects the encoder to the event recorder. The encoder's consumer runs
  \<open>encoded_history.push(unit)\<close> and then \<open>event_recorder.observeEncoded(unit)\<close> as two separate
  critical sections, while detections call \<open>trigger\<close> from the inference thread, the event worker
  takes jobs and the main loop may stop, restart or clear. A step relation interleaves these
  atomic actions arbitrarily; \<open>pending\<close> is the unit between its two critical sections, \<open>emitted\<close>
  the history of units handed over by the encoder and \<open>written\<close> the jobs the worker has taken.

  Main result: whatever the interleaving, every clip is a gap-free, duplicate-free run of the
  encoder's output.
\<close>

section \<open>The system\<close>

record 'd pipeline =
  history :: encoded_ring
  recorder :: "'d recorder"
  pending :: "access_unit option"
  emitted :: "access_unit list"
  written :: "'d event_job list"

text \<open>
  What the encoder promises about the next unit: it is valid, it fits the ring, and within one
  generation its sensor timestamp advances.
\<close>

definition feed_ok :: "encoded_ring \<Rightarrow> access_unit list \<Rightarrow> access_unit \<Rightarrow> bool" where
  "feed_ok h past u \<longleftrightarrow> au_valid u \<and> sizeBytes u \<le> max_bytes h
     \<and> (past \<noteq> [] \<and> generation (last past) = generation u \<longrightarrow>
          sensor_timestamp_ns (last past) < sensor_timestamp_ns u)"

inductive pipe_step :: "(frame_lease \<Rightarrow> bool \<times> main_snapshot \<times> string) \<Rightarrow> (string \<Rightarrow> nat \<Rightarrow> string)
     \<Rightarrow> 'd pipeline \<Rightarrow> 'd pipeline \<Rightarrow> bool"
  for stage :: "frame_lease \<Rightarrow> bool \<times> main_snapshot \<times> string" and strftime :: "string \<Rightarrow> nat \<Rightarrow> string" where
  push: "pending p = None \<Longrightarrow> feed_ok (history p) (emitted p) u \<Longrightarrow>
     pipe_step stage strftime p (p\<lparr>history := snd (ring_push (Some u) (history p)), pending := Some u,
                                   emitted := emitted p @ [u]\<rparr>)"
| observe: "pending p = Some u \<Longrightarrow>
     pipe_step stage strftime p (p\<lparr>recorder := observeEncoded (Some u) (recorder p), pending := None\<rparr>)"
| detect: "trigger stage (history p) strftime now space frame dets (recorder p) = (ok, r') \<Longrightarrow>
     pipe_step stage strftime p (p\<lparr>recorder := r'\<rparr>)"
| work: "worker_take (recorder p) = (WorkerWrites j, r') \<Longrightarrow>
     pipe_step stage strftime p (p\<lparr>recorder := r', written := written p @ [j]\<rparr>)"
| init: "pipe_step stage strftime p (p\<lparr>recorder := snd (rec_initialize d w space (recorder p))\<rparr>)"
| start: "pipe_step stage strftime p (p\<lparr>recorder := snd (rec_start thread_ok (recorder p))\<rparr>)"
| stop: "pipe_step stage strftime p (p\<lparr>recorder := snd (rec_stop (recorder p))\<rparr>)"
| clear: "pending p = None \<Longrightarrow> pipe_step stage strftime p (p\<lparr>history := ring_clear (history p)\<rparr>)"

definition pipe_start :: "encoded_ring \<Rightarrow> event_config \<Rightarrow> metrics \<Rightarrow> 'd pipeline" where
  "pipe_start h config m = \<lparr>history = h, recorder = recorder_new config m, pending = None,
                            emitted = [], written = []\<rparr>"

section \<open>Clips are runs of the encoder's output\<close>

text \<open>
  The open event ends where the emitted stream ends, or just before the unit that has been pushed
  but not yet observed.
\<close>

definition aligned :: "access_unit option \<Rightarrow> access_unit list \<Rightarrow> access_unit list \<Rightarrow> bool" where
  "aligned pend out us \<longleftrightarrow> suffix us out \<or> (pend \<noteq> None \<and> suffix us (butlast out))"

definition pending_ok :: "access_unit option \<Rightarrow> access_unit list \<Rightarrow> bool" where
  "pending_ok pend out \<longleftrightarrow>
     (case pend of
        None \<Rightarrow> True
      | Some u \<Rightarrow> out \<noteq> [] \<and> last out = u \<and> au_valid u
          \<and> (butlast out \<noteq> [] \<and> generation (last (butlast out)) = generation u \<longrightarrow>
               sensor_timestamp_ns (last (butlast out)) < sensor_timestamp_ns u))"

definition clips :: "'d recorder \<Rightarrow> access_unit list set" where
  "clips r = units ` set (jobs r)"

definition pipe_inv :: "'d pipeline \<Rightarrow> bool" where
  "pipe_inv p \<longleftrightarrow>
     ring_inv (history p) \<and> rec_inv (recorder p)
     \<and> suffix (ring_units (history p)) (emitted p)
     \<and> pred_option (\<lambda>e. aligned (pending p) (emitted p) (units e)) (active (recorder p))
     \<and> pending_ok (pending p) (emitted p)
     \<and> (\<forall>us \<in> clips (recorder p). sublist us (emitted p))
     \<and> list_all (\<lambda>j. job_ok j \<and> sublist (units j) (emitted p)) (written p)"

lemma aligned_sublist: "aligned pend out us \<Longrightarrow> sublist us out"
proof -
  have "sublist (butlast out) out" by (rule prefix_imp_sublist) (rule prefixeq_butlast)
  then show "aligned pend out us \<Longrightarrow> sublist us out"
    by (auto simp: aligned_def intro: suffix_imp_sublist sublist_order.order_trans)
qed

lemma ring_push_suffix:
  assumes "ring_inv r" "au_valid u" "sizeBytes u \<le> max_bytes r" "suffix (ring_units r) out"
  shows "suffix (ring_units (snd (ring_push (Some u) r))) (out @ [u])"
proof -
  have admit: "suffix (ring_units (ring_admit u q)) (ring_units q @ [u])" for q
  proof -
    obtain m n where "pruneByTimeLocked (ring_append u q) = (discardFrontLocked ^^ m) (ring_append u q)"
      "pruneByBytesLocked ((discardFrontLocked ^^ m) (ring_append u q)) =
         (discardFrontLocked ^^ n) ((discardFrontLocked ^^ m) (ring_append u q))"
      using pruneByTime_pow pruneByBytes_pow by metis
    then have "ring_units (ring_admit u q) = drop n (drop m (ring_units q @ [u]))"
      by (simp add: ring_admit_def Let_def ring_append_def del: drop_append drop_drop)
    then show ?thesis by (metis suffix_drop suffix_order.order_trans)
  qed
  have wf: "pred_option au_wf (Some u)" using assms(2) by (simp add: au_valid_def)
  from assms(1) wf show ?thesis
  proof (cases rule: ring_push_cases)
    case rejected
    with assms(2,3) show ?thesis by (auto simp: ring_push_def au_valid_def Let_def split: if_splits)
  next
    case (accepted v)
    have "suffix (ring_units r @ [u]) (out @ [u])" using assms(4) by (simp add: suffix_def)
    with accepted admit[of r] show ?thesis by (auto intro: suffix_order.order_trans)
  next
    case (reset v res)
    have "suffix (ring_units (resetLocked r) @ [u]) (out @ [u])" by (simp add: resetLocked_def suffix_def)
    with reset admit[of "resetLocked r"] show ?thesis by (auto intro: suffix_order.order_trans)
  qed
qed

lemma finishLocked_clips:
  "active r = Some e \<Longrightarrow> active (finishLocked b err r) = None \<and> clips (finishLocked b err r) \<subseteq> insert (units e) (clips r)"
  by (auto simp: finishLocked_def clips_def Let_def)

lemma clips_frame [simp]:
  "clips (r\<lparr>active := a\<rparr>) = clips r" "clips (r\<lparr>rec_latest_ts := t\<rparr>) = clips r"
  "clips (r\<lparr>gate := g\<rparr>) = clips r" "clips (r\<lparr>rec_metrics := m\<rparr>) = clips r"
  "clips (r\<lparr>accepting := b\<rparr>) = clips r" "clips (r\<lparr>running := b\<rparr>) = clips r"
  "clips (r\<lparr>initialized := b\<rparr>) = clips r"
  by (simp_all add: clips_def)

lemma observe_effect:
  assumes "active r = Some e" "units e \<noteq> []" "event_recording_enabled (rec_config r)"
  obtains us where "clips (observeEncoded (Some u) r) \<subseteq> insert us (clips r)"
    "us = units e \<or> us = units e @ [u] \<and> sensor_timestamp_ns (last (units e)) < sensor_timestamp_ns u"
    "active (observeEncoded (Some u) r) = None
     \<or> (\<exists>e'. active (observeEncoded (Some u) r) = Some e' \<and> units e' = us \<and> generation u = job_generation e
          \<and> (us = units e \<longrightarrow> sensor_timestamp_ns u \<le> sensor_timestamp_ns (last (units e))))"
proof -
  let ?r1 = "r\<lparr>rec_latest_ts := max (rec_latest_ts r) (sensor_timestamp_ns u)\<rparr>"
  let ?e = "e\<lparr>units := units e @ [u]\<rparr>"
  have step: "observeEncoded (Some u) r =
     (if generation u \<noteq> job_generation e then finishLocked False ''encoder generation changed during post-roll'' ?r1
      else if sensor_timestamp_ns u \<le> sensor_timestamp_ns (last (units e)) then ?r1
      else if requested_end_ts e \<le> sensor_timestamp_ns u then finishLocked True [] (?r1\<lparr>active := Some ?e\<rparr>)
      else ?r1\<lparr>active := Some ?e\<rparr>)"
    using assms by (simp add: observeEncoded_def Let_def)
  consider "generation u \<noteq> job_generation e"
    | "generation u = job_generation e" "sensor_timestamp_ns u \<le> sensor_timestamp_ns (last (units e))"
    | "generation u = job_generation e" "sensor_timestamp_ns (last (units e)) < sensor_timestamp_ns u"
    by fastforce
  then show thesis
  proof cases
    case 1
    with assms step finishLocked_clips[of ?r1 e] show thesis by (intro that[of "units e"]) auto
  next
    case 2
    with assms step show thesis by (intro that[of "units e"]) auto
  next
    case 3
    with assms step finishLocked_clips[of "?r1\<lparr>active := Some ?e\<rparr>" ?e] show thesis
      by (intro that[of "units e @ [u]"]) (auto simp: not_le[symmetric])
  qed
qed

lemma trigger_effect:
  assumes t: "trigger stage h strftime now space frame dets r = (ok, r')"
  obtains (ignored) "active r' = active r" "clips r' = clips r"
  | (opened) us where "active r = None \<or> collecting (gate r) = False"
      "clips r' \<subseteq> insert us (clips r)" "sublist us (ring_units h)"
      "\<forall>e. active r' = Some e \<longrightarrow> units e = us \<and> suffix us (ring_units h)"
  using t
proof (cases rule: trigger_cases)
  case (ignored t m)
  then show thesis using that(1) by simp
next
  case (opened f sel e m)
  have sel: "suffix (sel_units sel) (ring_units h)"
    unfolding opened(6) selectPreRoll_def by (auto simp: Let_def suffix_drop split: option.split)
  have ne: "collectUntil (requested_end_ts e) (sel_units sel) = (units e, post_roll_complete e)"
    using new_event_fields(6)[of stage sel strftime now "rec_config r" f dets] by (simp only: opened(7))
  note spec = collectUntil_spec[OF ne]
  have sub: "sublist (units e) (ring_units h)"
    using spec sel by (meson prefix_imp_sublist suffix_imp_sublist sublist_order.order_trans)
  let ?r3 = "r\<lparr>rec_latest_ts := max (rec_latest_ts r) (fl_sensor_timestamp_ns f),
              gate := (gate r)\<lparr>collecting := True\<rparr>, rec_metrics := m, active := Some e\<rparr>"
  let ?e = "e\<lparr>errors := errors e @ [no_preroll_error]\<rparr>"
  have r': "r' = (if \<not> has_independent_start sel \<or> units e = []
                  then finishLocked False [] (?r3\<lparr>active := Some ?e\<rparr>)
                  else if post_roll_complete e then finishLocked True [] ?r3 else ?r3)"
    using opened(8) by (simp add: Let_def)
  have "clips r' \<subseteq> insert (units e) (clips r)"
    using r' finishLocked_clips[of "?r3\<lparr>active := Some ?e\<rparr>" ?e] finishLocked_clips[of ?r3 e] by auto
  moreover have "\<forall>e'. active r' = Some e' \<longrightarrow> units e' = units e \<and> suffix (units e) (ring_units h)"
    using r' finishLocked_clips[of "?r3\<lparr>active := Some ?e\<rparr>" ?e] finishLocked_clips[of ?r3 e] spec sel
    by (auto split: if_splits)
  ultimately show thesis using that(2)[of "units e"] opened(4) sub by blast
qed

lemma rec_stop_clips:
  "clips (snd (rec_stop r)) \<subseteq> clips r \<union> (case active r of None \<Rightarrow> {} | Some e \<Rightarrow> {units e})"
  by (auto simp: rec_stop_def Let_def clips_def finishLocked_def split: option.splits)

lemma rec_lifecycle_clips:
  "clips (snd (rec_start ok r)) = clips r" "active (snd (rec_start ok r)) = active r"
  "clips (snd (rec_initialize d w sp r)) = clips r" "active (snd (rec_initialize d w sp r)) = active r"
  by (auto simp: rec_start_def rec_initialize_def storageAvailable_def split: option.splits)

lemma suffix_last: "suffix us out \<Longrightarrow> us \<noteq> [] \<Longrightarrow> last out = last us \<and> out \<noteq> []"
  by (auto simp: suffix_def)

lemma active_facts:
  assumes "rec_inv r" "active r = Some e"
  shows "units e \<noteq> []" "event_recording_enabled (rec_config r)" "generation (last (units e)) = job_generation e"
proof -
  have "clip_ok (job_generation e) (units e)"
    using assms by (auto simp: rec_inv_def collecting_ok_def clip_window_def)
  then show "units e \<noteq> []" "generation (last (units e)) = job_generation e"
    by (auto simp: clip_ok_def list_all_iff)
  show "event_recording_enabled (rec_config r)" using assms by (auto simp: rec_inv_def)
qed

text \<open>The only delicate step: observing the pending unit extends the open clip by exactly that unit.\<close>

lemma pending_facts:
  assumes "pending_ok (Some u) out"
  shows "out = butlast out @ [u]" "last out = u" "au_valid u"
    "butlast out \<noteq> [] \<Longrightarrow> generation (last (butlast out)) = generation u \<Longrightarrow>
       sensor_timestamp_ns (last (butlast out)) < sensor_timestamp_ns u"
  using assms append_butlast_last_id[of out] by (auto simp: pending_ok_def)

lemma observe_aligned:
  assumes inv: "pipe_inv p" and pend: "pending p = Some u"
    and e': "active (observeEncoded (Some u) (recorder p)) = Some e'"
  shows "suffix (units e') (emitted p)"
proof -
  let ?r = "recorder p" and ?out = "emitted p"
  obtain e where e: "active ?r = Some e"
    using e' by (cases "active ?r") (auto simp: observeEncoded_def Let_def split: if_splits)
  have rec: "rec_inv ?r" and al: "suffix (units e) ?out \<or> suffix (units e) (butlast ?out)"
    and po: "pending_ok (Some u) ?out"
    using inv e pend by (auto simp: pipe_inv_def aligned_def)
  note ef = active_facts[OF rec e] and pf = pending_facts[OF po]
  from e ef(1,2) show ?thesis
  proof (rule observe_effect[where u = u])
    fix us
    assume us: "us = units e \<or> us = units e @ [u] \<and> sensor_timestamp_ns (last (units e)) < sensor_timestamp_ns u"
      and act: "active (observeEncoded (Some u) ?r) = None
       \<or> (\<exists>e'. active (observeEncoded (Some u) ?r) = Some e' \<and> units e' = us \<and> generation u = job_generation e
            \<and> (us = units e \<longrightarrow> sensor_timestamp_ns u \<le> sensor_timestamp_ns (last (units e))))"
    from act e' have eq: "units e' = us" "generation u = job_generation e"
      and old: "us = units e \<Longrightarrow> sensor_timestamp_ns u \<le> sensor_timestamp_ns (last (units e))" by auto
    from al show ?thesis
    proof
      assume s: "suffix (units e) ?out"
      from suffix_last[OF s ef(1)] pf(2) have "last (units e) = u" by simp
      with us have "us = units e" by auto
      with s eq show ?thesis by simp
    next
      assume s: "suffix (units e) (butlast ?out)"
      have "sensor_timestamp_ns (last (units e)) < sensor_timestamp_ns u"
        using suffix_last[OF s ef(1)] pf(4) ef(3) eq(2) by simp
      with us old have "us = units e @ [u]" by (auto dest: leD)
      with s have "suffix us (butlast ?out @ [u])" by (simp add: suffix_def)
      with eq pf(1) show ?thesis by metis
    qed
  qed
qed

lemma observe_clips:
  assumes inv: "pipe_inv p" and pend: "pending p = Some u" and us: "us \<in> clips (observeEncoded (Some u) (recorder p))"
  shows "sublist us (emitted p)"
proof (cases "active (recorder p)")
  case None
  then have "clips (observeEncoded (Some u) (recorder p)) = clips (recorder p)"
    by (simp add: observeEncoded_def Let_def)
  with us inv show ?thesis by (auto simp: pipe_inv_def)
next
  case (Some e)
  let ?r = "recorder p" and ?out = "emitted p"
  have rec: "rec_inv ?r" using inv by (simp add: pipe_inv_def)
  note ef = active_facts[OF rec Some]
  have al: "aligned (pending p) ?out (units e)" and po: "pending_ok (Some u) ?out"
    using inv Some pend by (auto simp: pipe_inv_def)
  note pf = pending_facts[OF po]
  from Some ef(1,2) show ?thesis
  proof (rule observe_effect[where u = u])
    fix vs
    assume cl: "clips (observeEncoded (Some u) ?r) \<subseteq> insert vs (clips ?r)"
      and vs: "vs = units e \<or> vs = units e @ [u] \<and> sensor_timestamp_ns (last (units e)) < sensor_timestamp_ns u"
    have "sublist vs ?out"
      using vs
    proof
      assume "vs = units e"
      then show ?thesis using al by (simp add: aligned_sublist)
    next
      assume v: "vs = units e @ [u] \<and> sensor_timestamp_ns (last (units e)) < sensor_timestamp_ns u"
      have "\<not> suffix (units e) ?out"
      proof
        assume "suffix (units e) ?out"
        from suffix_last[OF this ef(1)] v pf(2) show False by simp
      qed
      then have "suffix (units e) (butlast ?out)" using al by (simp add: aligned_def)
      then have "suffix vs (butlast ?out @ [u])" using v by (simp add: suffix_def)
      with pf(1) show ?thesis by (metis suffix_imp_sublist)
    qed
    with cl us inv show ?thesis by (auto simp: pipe_inv_def)
  qed
qed

lemma pipe_step_inv:
  assumes "pipe_step stage strftime p p'" "pipe_inv p"
  shows "pipe_inv p'"
  using assms
proof (induction rule: pipe_step.induct)
  case (push p u)
  note i = push(3)[unfolded pipe_inv_def push(1), simplified] and f = push(2)[unfolded feed_ok_def]
  have "ring_inv (snd (ring_push (Some u) (history p)))"
    using i f by (intro ring_push_inv) (auto simp: au_valid_def)
  moreover have "suffix (ring_units (snd (ring_push (Some u) (history p)))) (emitted p @ [u])"
    using i f by (intro ring_push_suffix) auto
  moreover have "sublist us (emitted p) \<Longrightarrow> sublist us (emitted p @ [u])" for us
    by (meson prefix_imp_sublist prefixI sublist_order.order_trans)
  ultimately show ?case
    using i f by (auto simp: pipe_inv_def pending_ok_def aligned_def list_all_iff option.pred_set)
next
  case (observe p u)
  have "rec_inv (observeEncoded (Some u) (recorder p))"
    using observe by (intro observe_inv) (auto simp: pipe_inv_def dest: pending_facts(3))
  then show ?case
    using observe observe_aligned[OF observe(2,1)] observe_clips[OF observe(2,1)]
    by (auto simp: pipe_inv_def pending_ok_def aligned_def option.pred_set)
next
  case (detect p now space frame dets ok r')
  note i = detect(2)[unfolded pipe_inv_def]
  have rec: "rec_inv r'" using i trigger_inv[OF _ _ detect(1)] by blast
  have suf: "suffix (ring_units (history p)) (emitted p)" using i by blast
  from detect(1) show ?case
  proof (cases rule: trigger_effect)
    case ignored
    with i rec show ?thesis by (simp add: pipe_inv_def)
  next
    case (opened us)
    have "sublist us (emitted p)"
      using opened(3) suf by (meson suffix_imp_sublist sublist_order.order_trans)
    then have "\<forall>us \<in> clips r'. sublist us (emitted p)" using opened(2) i by blast
    moreover have "pred_option (\<lambda>e. aligned (pending p) (emitted p) (units e)) (active r')"
      using opened(4) suf by (auto simp: aligned_def option.pred_set intro: suffix_order.order_trans)
    ultimately show ?thesis using i rec by (simp add: pipe_inv_def)
  qed
next
  case (work p j r')
  have rec: "rec_inv (recorder p)" using work(2) by (simp add: pipe_inv_def)
  have "rec_inv r'" "job_ok j" using worker_take_inv[OF rec] work(1) by auto
  moreover have "active r' = active (recorder p)" "units j \<in> clips (recorder p)" "clips r' \<subseteq> clips (recorder p)"
    using work(1) by (auto simp: worker_take_def clips_def split: list.splits if_splits)
  ultimately show ?case using work(2) by (auto simp: pipe_inv_def)
next
  case (init p d w space)
  then show ?case by (simp add: pipe_inv_def rec_initialize_inv rec_lifecycle_clips)
next
  case (start p thread_ok)
  then show ?case by (simp add: pipe_inv_def rec_start_inv rec_lifecycle_clips)
next
  case (stop p)
  note i = stop[unfolded pipe_inv_def]
  have "\<forall>us \<in> clips (snd (rec_stop (recorder p))). sublist us (emitted p)"
    using rec_stop_clips[of "recorder p"] i by (auto split: option.splits dest: aligned_sublist)
  with i show ?case by (simp add: pipe_inv_def rec_stop_inv)
next
  case (clear p)
  then show ?case by (auto simp: pipe_inv_def ring_clear_def resetLocked_inv) (simp add: resetLocked_def)
qed

lemma pipe_start_inv: "ring_inv h \<Longrightarrow> ring_units h = [] \<Longrightarrow> pipe_inv (pipe_start h config m)"
  by (simp add: pipe_inv_def pipe_start_def recorder_new_inv pending_ok_def) (simp add: recorder_new_def clips_def)

lemma pipe_reachable_inv:
  assumes new: "ring_new retention limit = Inr h" "unat limit < 2 ^ 63"
    and run: "(pipe_step stage strftime)\<^sup>*\<^sup>* (pipe_start h config m) p"
  shows "pipe_inv p"
proof -
  have "pipe_inv (pipe_start h config m)"
    using new by (intro pipe_start_inv ring_new_inv) (auto simp: ring_new_def split: if_splits)
  with run show ?thesis by (induction rule: rtranclp_induct) (auto intro: pipe_step_inv)
qed

text \<open>
  C15. Interleave the encoder's push and observe, detections, the event worker, starts, stops and
  ring clears in any order. As long as the encoder's timestamps advance within a generation and no
  single unit exceeds the ring, every job that is queued or was handed to the worker has as its
  video a contiguous run of the units the encoder emitted: none is missing in the middle, none is
  repeated, none is reordered, and it is sound in the sense of \<open>job_ok\<close>.
\<close>

theorem clips_are_contiguous_runs:
  assumes "ring_new retention limit = Inr h" "unat limit < 2 ^ 63"
    and "(pipe_step stage strftime)\<^sup>*\<^sup>* (pipe_start h config m) p"
  shows "\<forall>j \<in> set (jobs (recorder p)) \<union> set (written p). job_ok j \<and> sublist (units j) (emitted p)"
  using pipe_reachable_inv[OF assms] by (auto simp: pipe_inv_def rec_inv_def clips_def list_all_iff)

text \<open>A run in which one unit is pushed, a detection opens an event, the recorder is stopped and the worker takes the job.\<close>

lemma sample_run:
  fixes d :: 'd
  obtains h and p :: "'d pipeline" and e where "ring_new 1000 50 = Inr h"
    and "(pipe_step no_stage (\<lambda>_ _. []))\<^sup>*\<^sup>* (pipe_start h sample_config metrics_init) p"
    and "active (sample_recorder_of d) = Some e" "units e = [sample_unit 10 1 True 3]"
    and "written p = [finish_job False ''shutdown interrupted event post-roll'' e]"
proof -
  let ?step = "pipe_step no_stage (\<lambda>_ _. []) :: 'd pipeline \<Rightarrow> 'd pipeline \<Rightarrow> bool"
  let ?u = "sample_unit 10 1 True 3"
  define h where "h = \<lparr>retention_ns = (1000::u64), max_bytes = (50::u64), ring_units = [], ring_bytes = 0,
    peak_bytes = 0, resets = 0, ring_generation = 0, latest_sensor_ts = 0\<rparr>"
  have h: "ring_new 1000 50 = Inr h" "max_bytes h = 50" by (simp_all add: ring_new_def h_def)
  have push: "snd (ring_push (Some ?u) h) = sample_ring"
    by (simp add: h_def ring_push_def ring_append_def Let_def pruneByTimeLocked_def
        pruneByBytesLocked_def discardWhileOverLimit_id discardUndecodablePrefix_id sample_ring_def)
  define p0 :: "'d pipeline" where "p0 = pipe_start h sample_config metrics_init"
  define p1 where "p1 = p0\<lparr>recorder := snd (rec_initialize True True (Some 1000) (recorder p0))\<rparr>"
  define p2 where "p2 = p1\<lparr>recorder := snd (rec_start True (recorder p1))\<rparr>"
  define p3 where "p3 = p2\<lparr>history := snd (ring_push (Some ?u) (history p2)), pending := Some ?u,
    emitted := emitted p2 @ [?u]\<rparr>"
  define p4 where "p4 = p3\<lparr>recorder := sample_recorder_of d\<rparr>"
  define p5 where "p5 = p4\<lparr>recorder := snd (rec_stop (recorder p4))\<rparr>"
  have e2: "history p2 = h" "pending p2 = None" "emitted p2 = []"
    by (simp_all add: p2_def p1_def p0_def pipe_start_def)
  have hist: "history p3 = sample_ring" by (simp add: p3_def e2 push)
  let ?t = "trigger no_stage (history p3) (\<lambda>_ _. []) 0 (Some 1000) (Some (sample_lease 12)) [d] (recorder p3)"
  have "snd ?t = sample_recorder_of d"
    by (simp only: hist sample_recorder_of_def sample_ops_of_def fold_simps rec_apply.simps p3_def p2_def p1_def p0_def
        pipe_start_def pipeline.simps push)
  then have "?t = (fst ?t, sample_recorder_of d)" by (simp only: prod_eq_iff fst_conv snd_conv simp_thms)
  then have s34: "?step p3 p4" unfolding p4_def by (rule pipe_step.detect)
  have s01: "?step p0 p1" unfolding p1_def by (rule pipe_step.init)
  have s12: "?step p1 p2" unfolding p2_def by (rule pipe_step.start)
  have s23: "?step p2 p3" unfolding p3_def
    by (rule pipe_step.push) (use h e2 in \<open>simp_all add: feed_ok_def au_valid_def au_wf_def word_le_iff_unat\<close>)
  have s45: "?step p4 p5" unfolding p5_def by (rule pipe_step.stop)
  obtain e where e: "active (sample_recorder_of d) = Some e" "units e = [?u]" "jobs (sample_recorder_of d) = []"
    using sample_recorder_active[of d] by blast
  let ?j = "finish_job False ''shutdown interrupted event post-roll'' e"
  have "jobs (recorder p5) = [?j]" using e
    by (simp add: p5_def p4_def rec_stop_def Let_def finishLocked_def kWorkerQueueCapacity_def)
  then obtain r where r: "worker_take (recorder p5) = (WorkerWrites ?j, r)" by (auto simp: worker_take_def)
  let ?p6 = "p5\<lparr>recorder := r, written := written p5 @ [?j]\<rparr>"
  have s56: "?step p5 ?p6" by (rule pipe_step.work[OF r])
  from s01 s12 s23 s34 s45 s56 have "?step\<^sup>*\<^sup>* p0 ?p6"
    by (meson converse_rtranclp_into_rtranclp rtranclp.rtrancl_refl)
  moreover have "written ?p6 = [?j]" by (simp add: p5_def p4_def p3_def p2_def p1_def p0_def pipe_start_def)
  ultimately show thesis using that[OF h(1) _ e(1,2)] by (simp add: p0_def)
qed

theorem clips_are_contiguous_runs_witness:
  "\<exists>h p j. ring_new 1000 50 = Inr h
     \<and> (pipe_step no_stage (\<lambda>_ _. []))\<^sup>*\<^sup>* (pipe_start h sample_config metrics_init :: nat pipeline) p
     \<and> j \<in> set (written p) \<and> units j = [sample_unit 10 1 True 3] \<and> sublist (units j) (emitted p)"
proof -
  obtain h and p :: "nat pipeline" and e where run: "ring_new 1000 50 = Inr h"
    "(pipe_step no_stage (\<lambda>_ _. []))\<^sup>*\<^sup>* (pipe_start h sample_config metrics_init) p" "active sample_recorder = Some e"
    "units e = [sample_unit 10 1 True 3]" "written p = [finish_job False ''shutdown interrupted event post-roll'' e]"
    by (rule sample_run[of 7])
  then show ?thesis using clips_are_contiguous_runs[OF run(1) _ run(2)]
    by (intro exI[of _ h] exI[of _ p] exI[of _ "finish_job False ''shutdown interrupted event post-roll'' e"]) simp
qed

end
