(* ===== verification/Camera_Capture.thy ===== *)
theory Camera_Capture
  imports Dma_Sync "HOL-Library.Multiset"
begin

text \<open>
  \<open>CameraCapture\<close> (\<open>src/camera_capture.cpp\<close>). Two groups of definitions: the construction of the
  frame views from the DMA-BUF mappings (\<open>mapBuffers\<close>, \<open>makeView\<close>, \<open>unmapBuffers\<close>,
  \<open>createRequests\<close>), and the life of a libcamera request: queued at the camera, leased to the
  consumers through a reference-counted \<open>FrameLease\<close>, handed back, recycled.

  Concurrency is explicit. The completion callback, the drop of a lease reference, the two halves
  of the release callback (the unlocked test of \<open>stopping\<close> and the locked push), the recycler
  thread and the phases of \<open>stop\<close> are separate steps, and the recycler's wait is split into the
  evaluation of its predicate under the mutex, going to sleep, and being woken, because \<open>stop\<close>
  notifies without taking that mutex. \<open>libcamera\<close>'s answers and what the frame consumers keep are
  inputs of the steps.
\<close>

section \<open>Mappings and views\<close>

record buffer_plane =
  bp_fd :: int
  bp_offset :: u32
  bp_length :: u32

record frame_buffer =
  fb_planes :: "buffer_plane list"
  fb_bytesused :: "u32 list"

record mapping =
  map_fd :: int
  map_base :: ptr
  map_length :: u64

definition MAP_FAILED :: ptr where "MAP_FAILED = - 1"

text \<open>The first inner loop of \<open>mapBuffers\<close>: one entry per descriptor, long enough for all its planes.\<close>

fun note_mapping :: "int \<Rightarrow> u64 \<Rightarrow> mapping list \<Rightarrow> mapping list" where
  "note_mapping fd len [] = [\<lparr>map_fd = fd, map_base = 0, map_length = len\<rparr>]"
| "note_mapping fd len (m # ms) =
     (if map_fd m = fd then m\<lparr>map_length := max (map_length m) len\<rparr> # ms
      else m # note_mapping fd len ms)"

fun planMappings :: "buffer_plane list \<Rightarrow> mapping list \<Rightarrow> mapping list option" where
  "planMappings [] ms = Some ms"
| "planMappings (p # ps) ms =
     (if bp_fd p < 0 \<or> ucast (bp_length p) > u64_max - ucast (bp_offset p) then None
      else planMappings ps (note_mapping (bp_fd p) (ucast (bp_offset p) + ucast (bp_length p)) ms))"

text \<open>
  The second inner loop. \<open>mmap\<close> and \<open>munmap\<close> are the system's: the kernel state records the live
  mappings. On failure everything mapped for this buffer is unmapped again.
\<close>

fun mapAll :: "('k \<Rightarrow> int \<Rightarrow> u64 \<Rightarrow> ptr \<times> 'k) \<Rightarrow> mapping list \<Rightarrow> mapping list \<Rightarrow> 'k
                \<Rightarrow> (mapping list + mapping list) \<times> 'k" where
  "mapAll mmap finished [] k = (Inr finished, k)"
| "mapAll mmap finished (m # ms) k =
     (let (base, k') = mmap k (map_fd m) (map_length m)
      in if base = MAP_FAILED then (Inl (finished @ [m\<lparr>map_base := base\<rparr>] @ ms), k')
         else mapAll mmap (finished @ [m\<lparr>map_base := base\<rparr>]) ms k')"

definition unmapEach :: "('k \<Rightarrow> ptr \<Rightarrow> u64 \<Rightarrow> 'k) \<Rightarrow> mapping list \<Rightarrow> 'k \<Rightarrow> 'k" where
  "unmapEach munmap ms k =
     fold (\<lambda>m k. if map_base m \<noteq> 0 \<and> map_base m \<noteq> MAP_FAILED then munmap k (map_base m) (map_length m) else k) ms k"

fun mapBuffers :: "('k \<Rightarrow> int \<Rightarrow> u64 \<Rightarrow> ptr \<times> 'k) \<Rightarrow> ('k \<Rightarrow> ptr \<Rightarrow> u64 \<Rightarrow> 'k)
     \<Rightarrow> (nat \<times> frame_buffer) list \<Rightarrow> (nat \<rightharpoonup> mapping list) \<Rightarrow> 'k
     \<Rightarrow> bool \<times> (nat \<rightharpoonup> mapping list) \<times> 'k" where
  "mapBuffers mmap munmap [] target k = (True, target, k)"
| "mapBuffers mmap munmap ((b, fb) # rest) target k =
     (case planMappings (fb_planes fb) [] of
        None \<Rightarrow> (False, target, k)
      | Some plan \<Rightarrow>
         (case mapAll mmap [] plan k of
            (Inl ms, k') \<Rightarrow> (False, target, unmapEach munmap ms k')
          | (Inr ms, k') \<Rightarrow>
              mapBuffers mmap munmap rest
                (if b \<in> dom target then target else target(b \<mapsto> ms)) k'))"

definition view_plane :: "mapping list option \<Rightarrow> buffer_plane \<Rightarrow> u32 \<Rightarrow> plane_view" where
  "view_plane table p used =
     (let valid_span = (ucast (bp_length p) \<le> u64_max - ucast (bp_offset p) :: bool);
          plane_end = (if valid_span then ucast (bp_offset p) + ucast (bp_length p) else 0 :: u64);
          hit = (case table of None \<Rightarrow> None | Some ms \<Rightarrow> find (\<lambda>m. map_fd m = bp_fd p) ms)
      in case hit of
           Some m \<Rightarrow>
             if valid_span \<and> plane_end \<le> map_length m
             then \<lparr>plane_fd = bp_fd p, plane_offset = bp_offset p, plane_length = bp_length p, bytes_used = used,
                   plane_data = map_base m + ucast (bp_offset p), mapping_base = map_base m,
                   mapped_length = map_length m\<rparr>
             else \<lparr>plane_fd = bp_fd p, plane_offset = bp_offset p, plane_length = bp_length p, bytes_used = used,
                   plane_data = 0, mapping_base = 0, mapped_length = 0\<rparr>
         | None \<Rightarrow> \<lparr>plane_fd = bp_fd p, plane_offset = bp_offset p, plane_length = bp_length p, bytes_used = used,
                    plane_data = 0, mapping_base = 0, mapped_length = 0\<rparr>)"

definition makeView :: "nat \<Rightarrow> frame_buffer \<Rightarrow> stream_view \<Rightarrow> (nat \<rightharpoonup> mapping list) \<Rightarrow> stream_view" where
  "makeView b fb layout mappings =
     layout\<lparr>planes := map (\<lambda>(i, p). view_plane (mappings b) p
                             (if i < length (fb_bytesused fb) then fb_bytesused fb ! i else bp_length p))
                       (enumerate 0 (fb_planes fb))\<rparr>"

definition unmapBuffers :: "('k \<Rightarrow> ptr \<Rightarrow> u64 \<Rightarrow> 'k) \<Rightarrow> (nat \<times> mapping list) list \<Rightarrow> 'k \<Rightarrow> 'k" where
  "unmapBuffers munmap table k = fold (\<lambda>(b, ms). unmapEach munmap ms) table k"

text \<open>
  \<open>createRequests\<close>: \<open>build i\<close> is whether libcamera created request \<open>i\<close> and took both of its
  buffers.
\<close>

definition createRequests :: "nat \<Rightarrow> nat \<Rightarrow> (nat \<Rightarrow> bool) \<Rightarrow> nat list option" where
  "createRequests main_buffers lores_buffers build =
     (let count = min main_buffers lores_buffers
      in if count < 4 then None
         else if list_all build [0..<count] then Some [0..<count] else None)"

section \<open>Requests and leases\<close>

datatype request_status = RequestComplete | RequestCancelled | RequestPending

datatype recycler_pc =
    NoThread | LoopHead | AtWait | IdleChecked | Asleep | Holding nat | Finished

datatype stop_pc = NotStopping | Flagged | Notified | CameraStopped

record camera =
  cam_initialized :: bool
  cam_running :: bool
  cam_stopping :: bool
  recycler_stopping :: bool
  requests :: "nat list"
  queued :: "nat list"
  refs :: "nat \<Rightarrow> nat"
  releasing :: "nat list"
  recycle :: "nat list"
  parked :: "nat list"
  recycler :: recycler_pc
  stopper :: stop_pc
  cam_metrics :: metrics

text \<open>\<open>recycler_->cv.notify_one()\<close> and \<open>notify_all()\<close>: the recycler is the only waiter.\<close>

definition wake :: "camera \<Rightarrow> camera" where
  "wake c = (if recycler c = Asleep then c\<lparr>recycler := AtWait\<rparr> else c)"

definition releaseRequest :: "nat \<Rightarrow> camera \<Rightarrow> camera" where
  "releaseRequest r c =
     (if cam_stopping c \<or> recycler_stopping c then c\<lparr>parked := parked c @ [r]\<rparr>
      else wake (c\<lparr>recycle := recycle c @ [r]\<rparr>))"

text \<open>One reference goes away; the last one runs the release callback up to its test of \<open>stopping\<close>.\<close>

definition drop_reference :: "nat \<Rightarrow> camera \<Rightarrow> camera" where
  "drop_reference r c =
     (let c1 = c\<lparr>refs := (refs c)(r := refs c r - 1)\<rparr>
      in if refs c r \<noteq> 1 then c1
         else let c2 = c1\<lparr>cam_metrics := (cam_metrics c1)(Cap outstanding_leases := cam_metrics c1 (Cap outstanding_leases) - 1)\<rparr>
              in if recycler_stopping c2 then c2\<lparr>parked := parked c2 @ [r]\<rparr>
                 else c2\<lparr>releasing := releasing c2 @ [r]\<rparr>)"

text \<open>The locked half of the release callback.\<close>

definition finish_release :: "nat \<Rightarrow> camera \<Rightarrow> camera" where
  "finish_release r c = wake (c\<lparr>releasing := remove1 r (releasing c), recycle := recycle c @ [r]\<rparr>)"

definition note_peak :: "u64 \<Rightarrow> metrics \<Rightarrow> metrics" where
  "note_peak outstanding m =
     (if outstanding > m (Cap outstanding_leases_peak) then m(Cap outstanding_leases_peak := outstanding) else m)"

text \<open>
  The result of a frame consumer: the references it kept, or an exception after which the remaining
  consumer is not called.
\<close>

datatype consumer_result = Kept nat | Thrown

definition onRequestCompleted :: "request_status \<Rightarrow> bool \<Rightarrow> bool \<Rightarrow> consumer_result \<Rightarrow> consumer_result
     \<Rightarrow> nat \<Rightarrow> camera \<Rightarrow> camera" where
  "onRequestCompleted status has_main has_lores main_consumer inference_consumer r c0 =
     (let c = c0\<lparr>queued := remove1 r (queued c0)\<rparr>
      in if status = RequestCancelled \<or> cam_stopping c then c\<lparr>parked := parked c @ [r]\<rparr>
         else if status \<noteq> RequestComplete \<or> \<not> has_main \<or> \<not> has_lores
         then releaseRequest r (c\<lparr>cam_metrics := bump (Cap capture_errors) (cam_metrics c)\<rparr>)
         else
           let m1 = bump (Cap outstanding_leases) (bump (Cap captured) (cam_metrics c));
               m2 = note_peak (m1 (Cap outstanding_leases)) m1;
               (kept, thrown) =
                 (case main_consumer of
                    Thrown \<Rightarrow> (0, True)
                  | Kept a \<Rightarrow> (case inference_consumer of Thrown \<Rightarrow> (a, True) | Kept b \<Rightarrow> (a + b, False)));
               m3 = (if thrown then bump (Cap capture_errors) m2 else m2)
           in drop_reference r (c\<lparr>cam_metrics := m3, refs := (refs c)(r := Suc kept)\<rparr>))"

text \<open>One step of \<open>recyclerLoop\<close>; \<open>ok\<close> is whether \<open>queueRequest\<close> succeeded.\<close>

definition recycler_step :: "bool \<Rightarrow> camera \<Rightarrow> camera" where
  "recycler_step ok c =
     (case recycler c of
        LoopHead \<Rightarrow> c\<lparr>recycler := if recycler_stopping c then Finished else AtWait\<rparr>
      | AtWait \<Rightarrow>
          if \<not> (recycler_stopping c \<or> recycle c \<noteq> []) then c\<lparr>recycler := IdleChecked\<rparr>
          else if recycler_stopping c then c\<lparr>recycler := Finished\<rparr>
          else c\<lparr>recycler := Holding (hd (recycle c)), recycle := tl (recycle c)\<rparr>
      | IdleChecked \<Rightarrow> c\<lparr>recycler := Asleep\<rparr>
      | Holding r \<Rightarrow>
          if ok then c\<lparr>recycler := LoopHead, queued := queued c @ [r]\<rparr>
          else c\<lparr>recycler := LoopHead, parked := parked c @ [r],
                 cam_metrics := bump (Cap capture_errors) (cam_metrics c)\<rparr>
      | _ \<Rightarrow> c)"

text \<open>
  \<open>stop\<close> in its phases: the stores of the flags, the notification (without the mutex), the
  camera's own stop, and what follows the join.
\<close>

definition cam_stop_flag :: "camera \<Rightarrow> camera" where
  "cam_stop_flag c =
     (if \<not> cam_running c then c
      else c\<lparr>cam_running := False, cam_stopping := True, recycler_stopping := True, stopper := Flagged\<rparr>)"

definition cam_stop_notify :: "camera \<Rightarrow> camera" where
  "cam_stop_notify c = wake (c\<lparr>stopper := Notified\<rparr>)"

text \<open>\<open>camera_->stop()\<close> completes every queued request as cancelled.\<close>

definition cam_stop_camera :: "camera \<Rightarrow> camera" where
  "cam_stop_camera c = c\<lparr>queued := [], parked := parked c @ queued c, stopper := CameraStopped\<rparr>"

text \<open>After \<open>join\<close> has returned.\<close>

definition cam_stop_finish :: "camera \<Rightarrow> camera" where
  "cam_stop_finish c = c\<lparr>recycle := [], parked := parked c @ recycle c, recycler := NoThread, stopper := NotStopping\<rparr>"

text \<open>
  \<open>start\<close>: \<open>started\<close> is the result of \<open>camera_->start\<close> and \<open>accepted\<close> how many requests
  \<open>queueRequest\<close> took; when it refused one, \<open>start\<close> enters \<open>stop\<close>.
\<close>

definition cam_start :: "bool \<Rightarrow> nat \<Rightarrow> camera \<Rightarrow> bool \<times> camera" where
  "cam_start started accepted c =
     (if \<not> cam_initialized c \<or> cam_running c then (cam_initialized c, c)
      else
        let c1 = c\<lparr>cam_stopping := False, recycler_stopping := False\<rparr>
        in if \<not> started then (False, c1)
           else
             let n = min accepted (length (requests c1));
                 c2 = c1\<lparr>cam_running := True, recycler := LoopHead, queued := queued c1 @ take n (requests c1),
                         parked := drop n (requests c1)\<rparr>
             in if n < length (requests c1) then (False, cam_stop_flag c2) else (True, c2))"

section \<open>The system of threads\<close>

text \<open>
  Steps that push to the recycler's queue need its mutex, which the recycler holds in
  \<open>IdleChecked\<close>. \<open>start\<close> is called by a client that has given back every lease.
\<close>

inductive cam_step :: "camera \<Rightarrow> camera \<Rightarrow> bool" where
  complete: "r \<in> set (queued c) \<Longrightarrow> recycler c \<noteq> IdleChecked \<Longrightarrow>
     cam_step c (onRequestCompleted status has_main has_lores main_consumer inference_consumer r c)"
| share: "0 < refs c r \<Longrightarrow> cam_step c (c\<lparr>refs := (refs c)(r := Suc (refs c r))\<rparr>)"
| drop: "0 < refs c r \<Longrightarrow> cam_step c (drop_reference r c)"
| release: "r \<in> set (releasing c) \<Longrightarrow> recycler c \<noteq> IdleChecked \<Longrightarrow> cam_step c (finish_release r c)"
| recycle: "cam_step c (recycler_step ok c)"
| start: "cam_initialized c \<Longrightarrow> \<not> cam_running c \<Longrightarrow> stopper c = NotStopping \<Longrightarrow>
     mset (parked c) = mset (requests c) \<Longrightarrow> cam_step c (snd (cam_start started accepted c))"
| stop_flag: "stopper c = NotStopping \<Longrightarrow> cam_step c (cam_stop_flag c)"
| stop_notify: "stopper c = Flagged \<Longrightarrow> cam_step c (cam_stop_notify c)"
| stop_camera: "stopper c = Notified \<Longrightarrow> cam_step c (cam_stop_camera c)"
| stop_join: "stopper c = CameraStopped \<Longrightarrow> recycler c = Finished \<Longrightarrow> cam_step c (cam_stop_finish c)"

definition cam_new :: "nat list \<Rightarrow> metrics \<Rightarrow> camera" where
  "cam_new rs m = \<lparr>cam_initialized = True, cam_running = False, cam_stopping = False,
     recycler_stopping = False, requests = rs, queued = [], refs = (\<lambda>_. 0), releasing = [], recycle = [],
     parked = rs, recycler = NoThread, stopper = NotStopping, cam_metrics = m\<rparr>"

section \<open>Conservation of requests\<close>

text \<open>In how many places a request is.\<close>

definition places :: "camera \<Rightarrow> nat \<Rightarrow> nat" where
  "places c r = count (mset (queued c)) r + count (mset (releasing c)) r + count (mset (recycle c)) r
     + count (mset (parked c)) r + (if recycler c = Holding r then 1 else 0) + (if 0 < refs c r then 1 else 0)"

definition live :: "camera \<Rightarrow> nat set" where
  "live c = {r. 0 < refs c r}"

definition cam_inv :: "camera \<Rightarrow> bool" where
  "cam_inv c \<longleftrightarrow>
     distinct (requests c) \<and> length (requests c) < 2 ^ 63
     \<and> (\<forall>r. places c r = (if r \<in> set (requests c) then 1 else 0))
     \<and> live c \<subseteq> set (requests c)
     \<and> unat (cam_metrics c (Cap outstanding_leases)) = card (live c)
     \<and> cam_metrics c (Cap outstanding_leases) \<le> cam_metrics c (Cap outstanding_leases_peak)
     \<and> (stopper c \<noteq> NotStopping \<longrightarrow> recycler_stopping c)"

lemma wake_fields [simp]:
  "queued (wake c) = queued c" "releasing (wake c) = releasing c" "recycle (wake c) = recycle c"
  "parked (wake c) = parked c" "refs (wake c) = refs c" "requests (wake c) = requests c"
  "cam_metrics (wake c) = cam_metrics c" "stopper (wake c) = stopper c" "recycler_stopping (wake c) = recycler_stopping c"
  "(recycler (wake c) = Holding r) = (recycler c = Holding r)"
  by (simp_all add: wake_def)

lemma live_bound: "cam_inv c \<Longrightarrow> card (live c) < 2 ^ 63"
proof -
  assume c: "cam_inv c"
  then have "card (live c) \<le> card (set (requests c))" by (intro card_mono) (auto simp: cam_inv_def)
  also have "\<dots> \<le> length (requests c)" by (rule card_length)
  finally show ?thesis using c by (auto simp: cam_inv_def)
qed

lemma live_finite: "cam_inv c \<Longrightarrow> finite (live c)"
  by (auto simp: cam_inv_def intro: finite_subset)

text \<open>Moving a request that is in exactly one place to another place.\<close>

lemma cam_inv_move:
  assumes inv: "cam_inv c" and same: "requests c' = requests c" "live c' = live c"
    and pl: "\<And>r. places c' r = places c r"
    and m: "cam_metrics c' (Cap outstanding_leases) = cam_metrics c (Cap outstanding_leases)"
      "cam_metrics c' (Cap outstanding_leases_peak) = cam_metrics c (Cap outstanding_leases_peak)"
    and st: "stopper c' \<noteq> NotStopping \<longrightarrow> recycler_stopping c'"
  shows "cam_inv c'"
  using inv same m st by (simp add: cam_inv_def pl)

lemma queued_facts:
  assumes inv: "cam_inv c" and r: "r \<in> set (queued c)"
  shows "refs c r = 0" "r \<in> set (requests c)" "count (mset (queued c)) r = 1"
proof -
  have p: "places c r = (if r \<in> set (requests c) then 1 else 0)" using inv by (simp add: cam_inv_def)
  have q: "0 < count (mset (queued c)) r" using r by simp
  show "r \<in> set (requests c)" using p q by (cases "r \<in> set (requests c)") (auto simp: places_def)
  then have "places c r = 1" using p by simp
  then show "refs c r = 0" "count (mset (queued c)) r = 1"
    using q unfolding places_def by (simp_all del: count_greater_zero_iff split: if_splits)
qed

lemma cam_inv_stop: "cam_inv c \<Longrightarrow> stopper c \<noteq> NotStopping \<longrightarrow> recycler_stopping c"
  by (simp add: cam_inv_def)

text \<open>A lease appears or disappears.\<close>

lemma cam_inv_lease:
  assumes inv: "cam_inv c" and same: "requests c' = requests c"
    and pl: "\<And>r. places c' r = places c r"
    and lv: "live c' \<subseteq> set (requests c)"
    and m: "unat (cam_metrics c' (Cap outstanding_leases)) = card (live c')"
      "cam_metrics c' (Cap outstanding_leases) \<le> cam_metrics c' (Cap outstanding_leases_peak)"
    and st: "stopper c' \<noteq> NotStopping \<longrightarrow> recycler_stopping c'"
  shows "cam_inv c'"
  using inv same lv m st by (simp add: cam_inv_def pl)

lemma drop_reference_inv:
  assumes inv: "cam_inv c" and r: "0 < refs c r"
  shows "cam_inv (drop_reference r c)"
proof (cases "refs c r = 1")
  case False
  with r cam_inv_stop[OF inv] show ?thesis
    by (intro cam_inv_move[OF inv]) (auto simp: drop_reference_def Let_def places_def live_def)
next
  case True
  let ?n = "cam_metrics c (Cap outstanding_leases)" and ?c = "drop_reference r c"
  have rl: "r \<in> live c" using r by (simp add: live_def)
  have lv: "live ?c = live c - {r}" using True by (auto simp: drop_reference_def Let_def live_def split: if_splits)
  have card: "unat ?n = card (live c)" "?n \<le> cam_metrics c (Cap outstanding_leases_peak)" "live c \<subseteq> set (requests c)"
    using inv by (auto simp: cam_inv_def)
  have pos: "0 < card (live c)" using rl live_finite[OF inv] card_gt_0_iff by blast
  then have "1 \<le> ?n" using card(1) by (simp add: word_le_iff_unat)
  then have n: "unat (?n - 1) = card (live c) - 1" using card(1) by (simp add: unat_sub)
  show ?thesis
  proof (rule cam_inv_lease[OF inv])
    show "requests ?c = requests c" by (simp add: drop_reference_def Let_def)
    show "places ?c q = places c q" for q
      using True by (auto simp: drop_reference_def Let_def places_def)
    show "live ?c \<subseteq> set (requests c)" using lv card(3) by auto
    have met: "cam_metrics ?c (Cap outstanding_leases) = ?n - 1"
      "cam_metrics ?c (Cap outstanding_leases_peak) = cam_metrics c (Cap outstanding_leases_peak)"
      using True by (simp_all add: drop_reference_def Let_def)
    show "unat (cam_metrics ?c (Cap outstanding_leases)) = card (live ?c)"
      using n rl live_finite[OF inv] by (simp add: met lv)
    have "?n - 1 \<le> ?n" using n card(1) by (simp add: word_le_iff_unat)
    then show "cam_metrics ?c (Cap outstanding_leases) \<le> cam_metrics ?c (Cap outstanding_leases_peak)"
      using card(2) unfolding met by (rule order_trans)
    show "stopper ?c \<noteq> NotStopping \<longrightarrow> recycler_stopping ?c"
      using cam_inv_stop[OF inv] by (auto simp: drop_reference_def Let_def)
  qed
qed

text \<open>The completion callback just before its local reference goes away.\<close>

lemma lease_created_inv:
  assumes inv: "cam_inv c" and r: "r \<in> set (queued c)"
    and c': "c' = c\<lparr>queued := remove1 r (queued c), cam_metrics := m, refs := (refs c)(r := Suc k)\<rparr>"
    and m: "m (Cap outstanding_leases) = cam_metrics c (Cap outstanding_leases) + 1"
      "m (Cap outstanding_leases) \<le> m (Cap outstanding_leases_peak)"
  shows "cam_inv c'"
proof -
  note q = queued_facts[OF inv r]
  let ?n = "cam_metrics c (Cap outstanding_leases)"
  have lv: "live c' = insert r (live c)" "r \<notin> live c" using q(1) by (auto simp: c' live_def)
  have "unat ?n = card (live c)" using inv by (simp add: cam_inv_def)
  then have n: "unat (?n + 1) = Suc (card (live c))"
    using live_bound[OF inv] by (subst unat_add_no_wrap) simp_all
  show ?thesis
  proof (rule cam_inv_lease[OF inv])
    show "requests c' = requests c" by (simp add: c')
    show "places c' p = places c p" for p using q by (auto simp: c' places_def)
    show "live c' \<subseteq> set (requests c)" using lv q(2) inv by (auto simp: cam_inv_def)
    show "unat (cam_metrics c' (Cap outstanding_leases)) = card (live c')"
      using n lv live_finite[OF inv] by (simp add: c' m(1))
    show "cam_metrics c' (Cap outstanding_leases) \<le> cam_metrics c' (Cap outstanding_leases_peak)"
      using m(2) by (simp add: c')
    show "stopper c' \<noteq> NotStopping \<longrightarrow> recycler_stopping c'" using inv by (simp add: c' cam_inv_def)
  qed
qed

lemma releaseRequest_inv:
  assumes inv: "cam_inv c" and r: "r \<in> set (queued c)"
  shows "cam_inv (releaseRequest r (c\<lparr>queued := remove1 r (queued c), cam_metrics := bump (Cap capture_errors) (cam_metrics c)\<rparr>))"
  using queued_facts[OF inv r] cam_inv_stop[OF inv]
  by (intro cam_inv_move[OF inv]) (auto simp: releaseRequest_def places_def live_def)

lemma note_peak_ge: "note_peak n m (Cap outstanding_leases_peak) \<ge> n"
  by (auto simp: note_peak_def)

lemma note_peak_other [simp]: "d \<noteq> Cap outstanding_leases_peak \<Longrightarrow> note_peak n m d = m d"
  by (auto simp: note_peak_def)

lemma onRequestCompleted_inv:
  assumes inv: "cam_inv c" and r: "r \<in> set (queued c)"
  shows "cam_inv (onRequestCompleted status a b mc ic r c)"
proof -
  let ?c = "c\<lparr>queued := remove1 r (queued c)\<rparr>"
  consider (ignored) "status = RequestCancelled \<or> cam_stopping c"
    | (error) "\<not> (status = RequestCancelled \<or> cam_stopping c)" "status \<noteq> RequestComplete \<or> \<not> a \<or> \<not> b"
    | (frame) "\<not> cam_stopping c" "status = RequestComplete" "a" "b" by blast
  then show ?thesis
  proof cases
    case ignored
    then show ?thesis
      using queued_facts[OF inv r] cam_inv_stop[OF inv]
      by (intro cam_inv_move[OF inv]) (auto simp: onRequestCompleted_def Let_def places_def live_def)
  next
    case error
    then have "onRequestCompleted status a b mc ic r c = releaseRequest r
        (c\<lparr>queued := remove1 r (queued c), cam_metrics := bump (Cap capture_errors) (cam_metrics c)\<rparr>)"
      by (simp add: onRequestCompleted_def Let_def)
    then show ?thesis using releaseRequest_inv[OF inv r] by simp
  next
    case frame
    define m1 where "m1 = bump (Cap outstanding_leases) (bump (Cap captured) (cam_metrics c))"
    define m2 where "m2 = note_peak (m1 (Cap outstanding_leases)) m1"
    obtain kept thrown where k: "(case mc of Thrown \<Rightarrow> (0, True)
        | Kept a \<Rightarrow> (case ic of Thrown \<Rightarrow> (a, True) | Kept b \<Rightarrow> (a + b, False))) = (kept, thrown)"
      by force
    define m3 where "m3 = (if thrown then bump (Cap capture_errors) m2 else m2)"
    let ?c' = "c\<lparr>queued := remove1 r (queued c), cam_metrics := m3, refs := (refs c)(r := Suc kept)\<rparr>"
    have "onRequestCompleted status a b mc ic r c = drop_reference r ?c'"
      using frame k unfolding onRequestCompleted_def Let_def m3_def m2_def m1_def by simp
    moreover have "cam_inv ?c'"
    proof (rule lease_created_inv[OF inv r refl])
      have "m2 (Cap outstanding_leases) = m1 (Cap outstanding_leases)" by (simp add: m2_def)
      moreover have "m2 (Cap outstanding_leases_peak) \<ge> m1 (Cap outstanding_leases)"
        unfolding m2_def by (rule note_peak_ge)
      ultimately show "m3 (Cap outstanding_leases) = cam_metrics c (Cap outstanding_leases) + 1"
        "m3 (Cap outstanding_leases) \<le> m3 (Cap outstanding_leases_peak)"
        by (simp_all add: m3_def m1_def)
    qed
    then have "cam_inv (drop_reference r ?c')" by (rule drop_reference_inv) simp
    ultimately show ?thesis by simp
  qed
qed

lemma finish_release_inv:
  assumes inv: "cam_inv c" and r: "r \<in> set (releasing c)"
  shows "cam_inv (finish_release r c)"
proof -
  have "0 < count (mset (releasing c)) r" using r by simp
  then show ?thesis
    using cam_inv_stop[OF inv]
    by (intro cam_inv_move[OF inv]) (auto simp: finish_release_def places_def live_def simp del: count_greater_zero_iff)
qed

lemma recycler_step_inv: "cam_inv c \<Longrightarrow> cam_inv (recycler_step ok c)"
proof (rule cam_inv_move)
  assume inv: "cam_inv c"
  show "places (recycler_step ok c) r = places c r" for r
  proof (cases "recycler c = AtWait \<and> \<not> recycler_stopping c \<and> recycle c \<noteq> []")
    case True
    then obtain x xs where "recycle c = x # xs" by (cases "recycle c") auto
    with True show ?thesis by (simp add: recycler_step_def places_def)
  next
    case False
    then show ?thesis by (auto simp: recycler_step_def places_def split: recycler_pc.splits)
  qed
  show "stopper (recycler_step ok c) \<noteq> NotStopping \<longrightarrow> recycler_stopping (recycler_step ok c)"
    using cam_inv_stop[OF inv] by (auto simp: recycler_step_def split: recycler_pc.split)
qed (simp_all add: recycler_step_def live_def split: recycler_pc.split)

lemma cam_stop_flag_inv: "cam_inv c \<Longrightarrow> cam_inv (cam_stop_flag c)"
proof -
  assume inv: "cam_inv c"
  show ?thesis
    by (rule cam_inv_move[OF inv]) (use cam_inv_stop[OF inv] in \<open>auto simp: cam_stop_flag_def places_def live_def\<close>)
qed

lemma quiescent_places:
  assumes inv: "cam_inv c" and q: "mset (parked c) = mset (requests c)"
  shows "queued c = []" "releasing c = []" "recycle c = []" "live c = {}" "recycler c \<noteq> Holding r"
proof -
  have one: "places c x = (if x \<in> set (requests c) then 1 else 0)" for x using inv by (simp add: cam_inv_def)
  have dist: "count (mset (requests c)) x = (if x \<in> set (requests c) then 1 else 0)" for x
    using inv by (simp add: cam_inv_def distinct_count_atmost_1)
  have zero: "count (mset (queued c)) x + count (mset (releasing c)) x + count (mset (recycle c)) x
      + (if recycler c = Holding x then 1 else 0) + (if 0 < refs c x then 1 else 0) = 0" for x
    using one[of x] dist[of x] q by (simp add: places_def del: count_greater_zero_iff)
  have "mset (queued c) = {#}" "mset (releasing c) = {#}" "mset (recycle c) = {#}"
    by (rule multiset_eqI; use zero in simp)+
  then show "queued c = []" "releasing c = []" "recycle c = []" by simp_all
  have "refs c x = 0" for x using zero[of x] by (simp split: if_splits)
  then show "live c = {}" by (simp add: live_def)
  show "recycler c \<noteq> Holding r" using zero[of r] by (simp split: if_splits)
qed

lemma cam_start_inv:
  assumes inv: "cam_inv c" and q: "mset (parked c) = mset (requests c)" and st: "stopper c = NotStopping"
  shows "cam_inv (snd (cam_start started accepted c))"
proof -
  note e = quiescent_places[OF inv q]
  let ?n = "min accepted (length (requests c))"
  let ?c1 = "c\<lparr>cam_stopping := False, recycler_stopping := False\<rparr>"
  let ?c2 = "?c1\<lparr>cam_running := True, recycler := LoopHead, queued := queued ?c1 @ take ?n (requests ?c1),
    parked := drop ?n (requests ?c1)\<rparr>"
  have c1: "cam_inv ?c1" by (rule cam_inv_move[OF inv]) (simp_all add: places_def live_def st)
  have sum: "count (mset (take ?n (requests c))) x + count (mset (drop ?n (requests c))) x = count (mset (parked c)) x" for x
    unfolding q by (metis append_take_drop_id mset_append plus_multiset.rep_eq)
  have "cam_inv ?c2"
  proof (rule cam_inv_move[OF c1])
    show "places ?c2 x = places ?c1 x" for x
      using e sum[of x] by (simp add: places_def)
  qed (simp_all add: live_def st)
  with c1 inv cam_stop_flag_inv[OF \<open>cam_inv ?c2\<close>] show ?thesis
    by (auto simp: cam_start_def Let_def)
qed

lemma cam_step_inv: "cam_step c c' \<Longrightarrow> cam_inv c \<Longrightarrow> cam_inv c'"
proof (induction rule: cam_step.induct)
  case (complete r c status a b mc ic)
  then show ?case by (intro onRequestCompleted_inv)
next
  case (share c r)
  show ?case
    by (rule cam_inv_move[OF share(2)]) (use share cam_inv_stop[OF share(2)] in \<open>auto simp: places_def live_def\<close>)
next
  case (drop c r)
  then show ?case by (intro drop_reference_inv)
next
  case (release r c)
  then show ?case by (intro finish_release_inv)
next
  case (recycle c ok)
  then show ?case by (rule recycler_step_inv)
next
  case (start c started accepted)
  then show ?case by (intro cam_start_inv)
next
  case (stop_flag c)
  then show ?case by (intro cam_stop_flag_inv)
next
  case (stop_notify c)
  show ?case
    by (rule cam_inv_move[OF stop_notify(2)]) (use stop_notify cam_inv_stop[OF stop_notify(2)] in \<open>auto simp: cam_stop_notify_def places_def live_def\<close>)
next
  case (stop_camera c)
  show ?case
    by (rule cam_inv_move[OF stop_camera(2)]) (use stop_camera cam_inv_stop[OF stop_camera(2)] in \<open>auto simp: cam_stop_camera_def places_def live_def\<close>)
next
  case (stop_join c)
  show ?case
    by (rule cam_inv_move[OF stop_join(3)]) (use stop_join in \<open>auto simp: cam_stop_finish_def places_def live_def\<close>)
qed

lemma requests_const:
  "requests (onRequestCompleted status a b mc ic r c) = requests c"
  "requests (drop_reference r c) = requests c" "requests (finish_release r c) = requests c"
  "requests (recycler_step ok c) = requests c" "requests (snd (cam_start st n c)) = requests c"
  "requests (cam_stop_flag c) = requests c" "requests (cam_stop_notify c) = requests c"
  "requests (cam_stop_camera c) = requests c" "requests (cam_stop_finish c) = requests c"
  by (simp_all add: onRequestCompleted_def drop_reference_def finish_release_def releaseRequest_def
      recycler_step_def cam_start_def cam_stop_flag_def cam_stop_notify_def cam_stop_camera_def cam_stop_finish_def
      Let_def case_prod_beta split: recycler_pc.split)



section \<open>Stopping\<close>

text \<open>
  The recycler thread is lost when it sleeps although it has been told to stop: nothing can wake
  it, because requests are no longer handed to it and the notification has been spent.
\<close>

definition stranded :: "camera \<Rightarrow> bool" where
  "stranded c \<longleftrightarrow> recycler c = Asleep \<and> recycler_stopping c \<and> cam_stopping c \<and> \<not> cam_running c
     \<and> (stopper c = Notified \<or> stopper c = CameraStopped) \<and> releasing c = []"

lemma stranded_step: "cam_step c c' \<Longrightarrow> stranded c \<Longrightarrow> stranded c'"
proof (induction rule: cam_step.induct)
  case (complete r c status a b mc ic)
  then show ?case by (auto simp: stranded_def onRequestCompleted_def Let_def)
next
  case (recycle c ok)
  then show ?case by (auto simp: stranded_def recycler_step_def)
qed (auto simp: stranded_def drop_reference_def Let_def finish_release_def cam_start_def
    cam_stop_flag_def cam_stop_notify_def cam_stop_camera_def cam_stop_finish_def)

text \<open>
  C20. \<open>stop\<close> can hang. It stores \<open>stopping\<close> and notifies without holding the recycler's mutex, so
  both can fall between the recycler's evaluation of its wait predicate and its going to sleep.
  From an idle, freshly started camera there is a schedule that leads to such a state, and from
  there every continuation leaves the recycler asleep, so the join in \<open>stop\<close> never returns.
\<close>

theorem camera_stop_can_hang:
  "\<exists>c. cam_step\<^sup>*\<^sup>* (cam_new [0, 1, 2, 3] metrics_init) c \<and> stopper c = Notified \<and> recycler c = Asleep
       \<and> {d. cam_step\<^sup>*\<^sup>* c d} \<subseteq> {d. recycler d = Asleep \<and> stopper d \<noteq> NotStopping}"
proof -
  define c0 where "c0 = cam_new [0, 1, 2, 3] metrics_init"
  define c1 where "c1 = snd (cam_start True 4 c0)"
  define c2 where "c2 = recycler_step True c1"
  define c3 where "c3 = recycler_step True c2"
  define c4 where "c4 = cam_stop_flag c3"
  define c5 where "c5 = cam_stop_notify c4"
  define c6 where "c6 = recycler_step True c5"
  have c1: "recycler c1 = LoopHead" "\<not> recycler_stopping c1" "recycle c1 = []" "cam_running c1"
    "stopper c1 = NotStopping" "releasing c1 = []"
    by (simp_all add: c1_def c0_def cam_new_def cam_start_def Let_def)
  have c3: "recycler c3 = IdleChecked" "cam_running c3" "stopper c3 = NotStopping" "releasing c3 = []"
    using c1 by (simp_all add: c3_def c2_def recycler_step_def)
  have c4: "recycler c4 = IdleChecked" "recycler_stopping c4" "cam_stopping c4" "\<not> cam_running c4"
    "stopper c4 = Flagged" "releasing c4 = []"
    using c3 by (simp_all add: c4_def cam_stop_flag_def)
  have c6: "recycler c6 = Asleep" "recycler_stopping c6" "cam_stopping c6" "\<not> cam_running c6"
    "stopper c6 = Notified" "releasing c6 = []"
    using c4 by (simp_all add: c6_def c5_def cam_stop_notify_def recycler_step_def wake_def)
  have "cam_step c0 c1" unfolding c1_def by (rule cam_step.start) (simp_all add: c0_def cam_new_def)
  moreover have "cam_step c1 c2" "cam_step c2 c3" "cam_step c5 c6"
    unfolding c2_def c3_def c6_def by (rule cam_step.recycle)+
  moreover have "cam_step c3 c4" unfolding c4_def by (rule cam_step.stop_flag) (rule c3)
  moreover have "cam_step c4 c5" unfolding c5_def by (rule cam_step.stop_notify) (rule c4)
  ultimately have run: "cam_step\<^sup>*\<^sup>* c0 c6"
    by (meson converse_rtranclp_into_rtranclp rtranclp.rtrancl_refl)
  have "stranded d" if "cam_step\<^sup>*\<^sup>* c6 d" for d
    using that
  proof (induction rule: rtranclp_induct)
    case base
    then show ?case using c6 by (simp add: stranded_def)
  qed (auto intro: stranded_step)
  moreover have "stranded d \<Longrightarrow> recycler d = Asleep \<and> stopper d \<noteq> NotStopping" for d
    by (auto simp: stranded_def)
  ultimately have "{d. cam_step\<^sup>*\<^sup>* c6 d} \<subseteq> {d. recycler d = Asleep \<and> stopper d \<noteq> NotStopping}"
    by blast
  then show ?thesis using run c6 unfolding c0_def by (intro exI[of _ c6] conjI) simp_all
qed

section \<open>Views lie inside their mappings\<close>

definition extends :: "mapping list \<Rightarrow> mapping list \<Rightarrow> bool" where
  "extends ms ms' \<longleftrightarrow> (\<forall>m \<in> set ms. \<exists>m' \<in> set ms'. map_fd m' = map_fd m \<and> map_length m \<le> map_length m')"

lemma extends_refl: "extends ms ms"
  by (auto simp: extends_def)

lemma extends_trans: "extends a b \<Longrightarrow> extends b c \<Longrightarrow> extends a c"
  unfolding extends_def by (fastforce intro: order_trans)

definition covers :: "mapping list \<Rightarrow> buffer_plane \<Rightarrow> bool" where
  "covers ms p \<longleftrightarrow> (\<exists>m \<in> set ms. map_fd m = bp_fd p \<and> ucast (bp_offset p) + ucast (bp_length p) \<le> map_length m)"

lemma covers_extends:
  assumes "covers ms p" "extends ms ms'"
  shows "covers ms' p"
proof -
  from assms(1) obtain m where m: "m \<in> set ms" "map_fd m = bp_fd p"
    "ucast (bp_offset p) + ucast (bp_length p) \<le> map_length m" by (auto simp: covers_def)
  from assms(2) m(1) obtain m' where "m' \<in> set ms'" "map_fd m' = map_fd m" "map_length m \<le> map_length m'"
    by (auto simp: extends_def)
  with m show ?thesis by (auto simp: covers_def intro: order_trans)
qed

lemma note_mapping_covers:
  "\<exists>m \<in> set (note_mapping fd len ms). map_fd m = fd \<and> len \<le> map_length m"
  by (induction ms) auto

lemma note_mapping_extends: "extends ms (note_mapping fd len ms)"
  by (induction ms) (auto simp: extends_def)

lemma note_mapping_fds: "distinct (map map_fd ms) \<Longrightarrow> distinct (map map_fd (note_mapping fd len ms))
   \<and> set (map map_fd (note_mapping fd len ms)) = insert fd (set (map map_fd ms))"
  by (induction ms) auto

lemma planMappings_covers:
  assumes "planMappings ps ms = Some ms'" "distinct (map map_fd ms)"
  shows "distinct (map map_fd ms') \<and> (\<forall>p \<in> set ps. covers ms' p) \<and> extends ms ms'"
  using assms
proof (induction ps arbitrary: ms)
  case (Cons p ps)
  let ?len = "ucast (bp_offset p) + ucast (bp_length p)"
  let ?n = "note_mapping (bp_fd p) ?len ms"
  have rest: "planMappings ps ?n = Some ms'" using Cons.prems(1) by (simp split: if_splits)
  have d: "distinct (map map_fd ?n)" using note_mapping_fds[OF Cons.prems(2)] by blast
  note IH = Cons.IH[OF rest d]
  have "covers ?n p" using note_mapping_covers[of "bp_fd p" ?len ms] by (auto simp: covers_def)
  then have "covers ms' p" using IH by (blast intro: covers_extends)
  then show ?case using IH extends_trans[OF note_mapping_extends] by auto
qed (auto simp: extends_refl)

lemma mapAll_Inr:
  "mapAll mmap finished ms k = (Inr out, k') \<Longrightarrow>
     \<exists>bases. length bases = length ms \<and> out = finished @ map2 (\<lambda>m b. m\<lparr>map_base := b\<rparr>) ms bases
             \<and> MAP_FAILED \<notin> set bases"
proof (induction ms arbitrary: finished k)
  case (Cons m ms)
  obtain b k1 where b: "mmap k (map_fd m) (map_length m) = (b, k1)" by force
  with Cons.prems have ok: "b \<noteq> MAP_FAILED" "mapAll mmap (finished @ [m\<lparr>map_base := b\<rparr>]) ms k1 = (Inr out, k')"
    by (auto split: if_splits)
  from Cons.IH[OF ok(2)] obtain bases where "length bases = length ms"
    "out = (finished @ [m\<lparr>map_base := b\<rparr>]) @ map2 (\<lambda>m b. m\<lparr>map_base := b\<rparr>) ms bases" "MAP_FAILED \<notin> set bases" by blast
  with ok(1) show ?case by (intro exI[of _ "b # bases"]) auto
qed auto

text \<open>A mapping table in which every entry covers the planes of its buffer.\<close>

definition table_ok :: "(nat \<times> frame_buffer) list \<Rightarrow> (nat \<rightharpoonup> mapping list) \<Rightarrow> bool" where
  "table_ok bufs t \<longleftrightarrow> (\<forall>(b, fb) \<in> set bufs. \<exists>ms. t b = Some ms \<and> distinct (map map_fd ms)
     \<and> (\<forall>p \<in> set (fb_planes fb). covers ms p) \<and> (\<forall>m \<in> set ms. map_base m \<noteq> MAP_FAILED))"

lemma map2_base:
  assumes "length bases = length ms"
  shows "map map_fd (map2 (\<lambda>m b. m\<lparr>map_base := b\<rparr>) ms bases) = map map_fd ms"
    and "covers (map2 (\<lambda>m b. m\<lparr>map_base := b\<rparr>) ms bases) p = covers ms p"
    and "map_base ` set (map2 (\<lambda>m b. m\<lparr>map_base := b\<rparr>) ms bases) = set bases"
  using assms by (induction bases ms rule: list_induct2) (auto simp: covers_def)

lemma mapBuffers_table_ok:
  assumes "mapBuffers mmap munmap bufs target k = (True, t, k')" "distinct (map fst bufs)"
    and "dom target \<inter> fst ` set bufs = {}"
  shows "table_ok bufs t \<and> (\<forall>b \<in> dom target. t b = target b)"
  using assms
proof (induction bufs arbitrary: target k)
  case (Cons bf rest)
  obtain b fb where bf: "bf = (b, fb)" by force
  from Cons.prems(1) obtain plan where plan: "planMappings (fb_planes fb) [] = Some plan"
    by (auto simp: bf split: option.splits)
  from Cons.prems(1) obtain ms k1 where ms: "mapAll mmap [] plan k = (Inr ms, k1)"
    by (auto simp: bf plan split: prod.splits sum.splits)
  have fresh: "b \<notin> dom target" using Cons.prems(3) by (auto simp: bf)
  then have rest: "mapBuffers mmap munmap rest (target(b \<mapsto> ms)) k1 = (True, t, k')"
    using Cons.prems(1) by (simp add: bf plan ms)
  have IH: "table_ok rest t" "\<forall>x \<in> dom (target(b \<mapsto> ms)). t x = (target(b \<mapsto> ms)) x"
  proof -
    have "dom (target(b \<mapsto> ms)) \<inter> fst ` set rest = {}" "distinct (map fst rest)"
      using Cons.prems(2,3) by (auto simp: bf)
    then show "table_ok rest t" "\<forall>x \<in> dom (target(b \<mapsto> ms)). t x = (target(b \<mapsto> ms)) x"
      using Cons.IH[OF rest] by blast+
  qed
  obtain bases where bases: "length bases = length plan" "ms = map2 (\<lambda>m b. m\<lparr>map_base := b\<rparr>) plan bases"
    "MAP_FAILED \<notin> set bases"
    using mapAll_Inr[OF ms] by auto
  note pc = planMappings_covers[OF plan] and m2 = map2_base[OF bases(1)]
  have "distinct (map map_fd ms) \<and> (\<forall>p \<in> set (fb_planes fb). covers ms p) \<and> (\<forall>m \<in> set ms. map_base m \<noteq> MAP_FAILED)"
    using pc m2 bases(2,3) by (auto dest: set_zip_rightD)
  moreover have "t b = Some ms" using IH(2) by simp
  ultimately show ?case using IH fresh by (auto simp: table_ok_def bf)
qed (simp add: table_ok_def)

lemma find_fd:
  assumes "distinct (map map_fd ms)" "m \<in> set ms" "map_fd m = fd"
  shows "find (\<lambda>m. map_fd m = fd) ms = Some m"
  using assms by (induction ms) auto

lemma plane_span_no_wrap: "unat (ucast (a :: u32) + ucast (b :: u32) :: u64) = unat a + unat b"
  using unat_u32_less[of a] unat_u32_less[of b] by (subst unat_add_no_wrap) simp_all

text \<open>
  C21. When \<open>mapBuffers\<close> succeeds, every plane of every view that \<open>makeView\<close> builds for one of those
  buffers is CPU mapped: it points into the mapping of its own descriptor at the plane's offset, and
  the whole plane lies inside the mapping. Each descriptor is mapped once, however many planes share
  it.
\<close>

theorem views_lie_in_mappings:
  assumes "mapBuffers mmap munmap bufs Map.empty k = (True, t, k')" "distinct (map fst bufs)"
    and "(b, fb) \<in> set bufs"
  shows "list_all2 (\<lambda>v p. plane_fd v = bp_fd p \<and> plane_offset v = bp_offset p \<and> plane_length v = bp_length p
           \<and> plane_data v = mapping_base v + ucast (bp_offset p)
           \<and> unat (bp_offset p) + unat (bp_length p) \<le> unat (mapped_length v)
           \<and> (\<exists>ms m. t b = Some ms \<and> distinct (map map_fd ms) \<and> m \<in> set ms \<and> map_fd m = bp_fd p
                  \<and> mapping_base v = map_base m \<and> mapped_length v = map_length m \<and> map_base m \<noteq> MAP_FAILED))
         (planes (makeView b fb layout t)) (fb_planes fb)"
proof -
  from mapBuffers_table_ok[OF assms(1,2)] assms(3) obtain ms where ms: "t b = Some ms" "distinct (map map_fd ms)"
    "\<forall>p \<in> set (fb_planes fb). covers ms p" "\<forall>m \<in> set ms. map_base m \<noteq> MAP_FAILED"
    by (auto simp: table_ok_def)
  have view: "view_plane (Some ms) p used = \<lparr>plane_fd = bp_fd p, plane_offset = bp_offset p,
        plane_length = bp_length p, bytes_used = used, plane_data = map_base m + ucast (bp_offset p),
        mapping_base = map_base m, mapped_length = map_length m\<rparr>"
    if "m \<in> set ms" "map_fd m = bp_fd p" "ucast (bp_offset p) + ucast (bp_length p) \<le> map_length m" for m p used
  proof -
    have "ucast (bp_length p) \<le> u64_max - ucast (bp_offset p)"
      using unat_u32_less[of "bp_offset p"] unat_u32_less[of "bp_length p"]
      by (subst word_le_iff_unat, subst unat_sub) simp_all
    with that find_fd[OF ms(2) that(1,2)] show ?thesis by (simp add: view_plane_def Let_def)
  qed
  show ?thesis
  proof (rule list_all2_all_nthI)
    show "length (planes (makeView b fb layout t)) = length (fb_planes fb)" by (simp add: makeView_def)
  next
    fix i assume "i < length (planes (makeView b fb layout t))"
    then have i: "i < length (fb_planes fb)" by (simp add: makeView_def)
    let ?p = "fb_planes fb ! i"
    from ms(3) i obtain m where m: "m \<in> set ms" "map_fd m = bp_fd ?p"
      "ucast (bp_offset ?p) + ucast (bp_length ?p) \<le> map_length m" by (force simp: covers_def)
    have "planes (makeView b fb layout t) ! i = view_plane (Some ms) ?p
        (if i < length (fb_bytesused fb) then fb_bytesused fb ! i else bp_length ?p)"
      using i by (simp add: makeView_def ms(1) nth_enumerate_eq)
    moreover have "unat (bp_offset ?p) + unat (bp_length ?p) \<le> unat (map_length m)"
      using m(3) by (simp add: word_le_iff_unat plane_span_no_wrap)
    ultimately show "plane_fd (planes (makeView b fb layout t) ! i) = bp_fd ?p
        \<and> plane_offset (planes (makeView b fb layout t) ! i) = bp_offset ?p
        \<and> plane_length (planes (makeView b fb layout t) ! i) = bp_length ?p
        \<and> plane_data (planes (makeView b fb layout t) ! i)
            = mapping_base (planes (makeView b fb layout t) ! i) + ucast (bp_offset ?p)
        \<and> unat (bp_offset ?p) + unat (bp_length ?p) \<le> unat (mapped_length (planes (makeView b fb layout t) ! i))
        \<and> (\<exists>ms m. t b = Some ms \<and> distinct (map map_fd ms) \<and> m \<in> set ms \<and> map_fd m = bp_fd ?p
             \<and> mapping_base (planes (makeView b fb layout t) ! i) = map_base m
             \<and> mapped_length (planes (makeView b fb layout t) ! i) = map_length m \<and> map_base m \<noteq> MAP_FAILED)"
      using view[OF m] m ms(1,2,4) by auto
  qed
qed

definition sample_buffer :: frame_buffer where
  "sample_buffer = \<lparr>fb_planes = [\<lparr>bp_fd = 5, bp_offset = 0, bp_length = 8\<rparr>, \<lparr>bp_fd = 5, bp_offset = 8, bp_length = 2\<rparr>,
     \<lparr>bp_fd = 5, bp_offset = 10, bp_length = 2\<rparr>], fb_bytesused = [8, 2]\<rparr>"

theorem views_lie_in_mappings_witness:
  "\<exists>t. mapBuffers (\<lambda>k fd n. (4096, k + 1)) (\<lambda>k b n. k - 1) [(0, sample_buffer)] Map.empty (0 :: nat) = (True, t, 1)
     \<and> plane_data (planes (makeView 0 sample_buffer sample_view t) ! 2) =
         mapping_base (planes (makeView 0 sample_buffer sample_view t) ! 2) + 10"
proof -
  define t where "t = [0 :: nat \<mapsto> [\<lparr>map_fd = 5, map_base = 4096, map_length = 12\<rparr>]]"
  have map: "mapBuffers (\<lambda>k fd n. (4096, k + 1)) (\<lambda>k b n. k - 1) [(0, sample_buffer)] Map.empty (0 :: nat) = (True, t, 1)"
    by (simp add: sample_buffer_def t_def MAP_FAILED_def max_def word_le_iff_unat)
  from views_lie_in_mappings[OF map, of 0 sample_buffer sample_view] map show ?thesis
    by (auto simp: sample_buffer_def list_all2_conv_all_nth dest!: spec[where x = 2])
qed

end
