(* ===== verification/Cxx_Number.thy ===== *)
theory Cxx_Number
  imports Complex_Main Egg_Prelude
begin

text \<open>
  The parts of the C++ standard library with which the program turns text into numbers
  (\<open>std::stoul\<close>, \<open>std::stoull\<close>, \<open>std::stoi\<close>, \<open>std::stof\<close>, \<open>std::stod\<close>, in the "C" locale, on a platform
  whose \<open>unsigned long\<close> has 64 bits), and its binary floating point: values, the IEEE 754
  comparisons, and the basic operations as exact rational arithmetic followed by rounding to
  nearest, ties to even. The sign of zero is not represented; no comparison or operation of the
  program depends on it, only the minus sign that printing a negative zero would show.

  A conversion that throws is \<open>Inl\<close> with the \<open>what()\<close> text of the exception; libstdc++ uses the name
  of the function for \<open>std::invalid_argument\<close> and for \<open>std::out_of_range\<close>.
\<close>

section \<open>Scanning\<close>

definition is_space :: "char \<Rightarrow> bool" where
  "is_space c \<longleftrightarrow> c = CHR '' '' \<or> (9 \<le> (of_char c :: nat) \<and> (of_char c :: nat) \<le> 13)"

definition digit_value :: "char \<Rightarrow> nat option" where
  "digit_value c =
     (let n = of_char c in
      if 48 \<le> n \<and> n \<le> 57 then Some (n - 48)
      else if 97 \<le> n \<and> n \<le> 102 then Some (n - 87)
      else if 65 \<le> n \<and> n \<le> 70 then Some (n - 55) else None)"

fun take_digits :: "nat \<Rightarrow> string \<Rightarrow> nat list \<times> string" where
  "take_digits b [] = ([], [])"
| "take_digits b (c # cs) =
     (case digit_value c of
        Some d \<Rightarrow> if d < b then (case take_digits b cs of (ds, rest) \<Rightarrow> (d # ds, rest)) else ([], c # cs)
      | None \<Rightarrow> ([], c # cs))"

definition digits_int :: "int \<Rightarrow> nat list \<Rightarrow> int" where
  "digits_int b ds = foldl (\<lambda>n d. n * b + int d) 0 ds"

fun strip_sign :: "string \<Rightarrow> bool \<times> string" where
  "strip_sign (c # cs) = (if c = CHR ''-'' then (True, cs) else if c = CHR ''+'' then (False, cs) else (False, c # cs))"
| "strip_sign [] = (False, [])"

section \<open>Integers\<close>

definition scan_integer :: "string \<Rightarrow> (bool \<times> int) option" where
  "scan_integer s =
     (let (neg, cs) = strip_sign (dropWhile is_space s); (ds, rest) = take_digits 10 cs
      in if ds = [] then None else Some (neg, digits_int 10 ds))"

text \<open>\<open>strtoul\<close> and \<open>strtoull\<close> negate modulo \<open>2^64\<close> after a minus sign; both ignore what follows the digits.\<close>

definition stou64 :: "string \<Rightarrow> string \<Rightarrow> string + u64" where
  "stou64 name s =
     (case scan_integer s of
        None \<Rightarrow> Inl name
      | Some (neg, n) \<Rightarrow>
          if n \<ge> 2 ^ 64 then Inl name else Inr (if neg then - of_int n else of_int n))"

abbreviation stoul :: "string \<Rightarrow> string + u64" where
  "stoul \<equiv> stou64 ''stoul''"

abbreviation stoull :: "string \<Rightarrow> string + u64" where
  "stoull \<equiv> stou64 ''stoull''"

definition stoi :: "string \<Rightarrow> string + int" where
  "stoi s =
     (case scan_integer s of
        None \<Rightarrow> Inl ''stoi''
      | Some (neg, n) \<Rightarrow>
          let i = (if neg then - n else n)
          in if - (2 ^ 31) \<le> i \<and> i < 2 ^ 31 then Inr i else Inl ''stoi'')"

section \<open>Floating point values\<close>

datatype fval = FNaN | FInf bool | Fin rat

text \<open>\<open>FInf True\<close> is negative infinity.\<close>

fun fless :: "fval \<Rightarrow> fval \<Rightarrow> bool" where
  "fless FNaN _ = False"
| "fless _ FNaN = False"
| "fless (FInf a) (FInf b) = (a \<and> \<not> b)"
| "fless (FInf a) (Fin _) = a"
| "fless (Fin _) (FInf b) = (\<not> b)"
| "fless (Fin p) (Fin q) = (p < q)"

definition fle :: "fval \<Rightarrow> fval \<Rightarrow> bool" where
  "fle x y \<longleftrightarrow> fless x y \<or> (x = y \<and> x \<noteq> FNaN)"

lemma fless_NaN [simp]: "\<not> fless x FNaN"
  by (cases x) auto

lemma fle_simps [simp]:
  "fle (Fin p) (Fin q) \<longleftrightarrow> p \<le> q" "\<not> fle FNaN x" "\<not> fle x FNaN"
  by (auto simp: fle_def)

lemma fless_irrefl [simp]: "\<not> fless x x"
  by (cases x) auto

lemma fless_trans: "fless x y \<Longrightarrow> fless y z \<Longrightarrow> fless x z"
  by (cases x; cases y; cases z) auto

section \<open>Rounding\<close>

record float_format =
  fmt_prec :: nat
  fmt_emin :: int
  fmt_emax :: int

definition binary32 :: float_format where
  "binary32 = \<lparr>fmt_prec = 24, fmt_emin = - 126, fmt_emax = 127\<rparr>"

definition binary64 :: float_format where
  "binary64 = \<lparr>fmt_prec = 53, fmt_emin = - 1022, fmt_emax = 1023\<rparr>"

definition pow2 :: "int \<Rightarrow> rat" where
  "pow2 k = (if 0 \<le> k then 2 ^ nat k else 1 / 2 ^ nat (- k))"

function bit_len :: "int \<Rightarrow> int" where
  "bit_len n = (if n \<le> 0 then 0 else 1 + bit_len (n div 2))"
  by auto

termination bit_len
  by (relation "measure nat") auto

declare bit_len.simps [simp del]

text \<open>The binary exponent of a positive rational.\<close>

definition ilog2 :: "rat \<Rightarrow> int" where
  "ilog2 q =
     (let (n, d) = quotient_of q; k = bit_len n - bit_len d
      in if pow2 k \<le> q then k else k - 1)"

definition round_even :: "rat \<Rightarrow> int" where
  "round_even x =
     (let f = \<lfloor>x\<rfloor>; r = x - of_int f
      in if r < 1 / 2 then f else if r > 1 / 2 then f + 1 else if even f then f else f + 1)"

definition ulp_exp :: "float_format \<Rightarrow> rat \<Rightarrow> int" where
  "ulp_exp F q = max (ilog2 q) (fmt_emin F) - int (fmt_prec F) + 1"

definition round_mag :: "float_format \<Rightarrow> rat \<Rightarrow> rat" where
  "round_mag F q = of_int (round_even (q / pow2 (ulp_exp F q))) * pow2 (ulp_exp F q)"

definition fround :: "float_format \<Rightarrow> rat \<Rightarrow> fval" where
  "fround F q =
     (if q = 0 then Fin 0
      else let r = round_mag F \<bar>q\<bar>
           in if ilog2 r > fmt_emax F then FInf (q < 0) else Fin (sgn q * r))"

lemma pow2_pos [simp]: "0 < pow2 k"
  by (simp add: pow2_def)

lemma round_even_nonneg: "0 \<le> x \<Longrightarrow> 0 \<le> round_even x"
  by (simp add: round_even_def Let_def)

text \<open>Not NaN, not negative infinity, not a negative number.\<close>

definition fnonneg :: "fval \<Rightarrow> bool" where
  "fnonneg x = (case x of Fin q \<Rightarrow> 0 \<le> q | FInf s \<Rightarrow> \<not> s | FNaN \<Rightarrow> False)"

lemma fnonneg_simps [simp]: "fnonneg (Fin q) \<longleftrightarrow> 0 \<le> q" "fnonneg (FInf s) \<longleftrightarrow> \<not> s" "\<not> fnonneg FNaN"
  by (simp_all add: fnonneg_def)

lemma fround_nonneg: "0 \<le> q \<Longrightarrow> fnonneg (fround F q)"
  using round_even_nonneg[of "q / pow2 (ulp_exp F q)"]
  by (auto simp: fround_def round_mag_def fnonneg_def Let_def less_imp_le intro!: mult_nonneg_nonneg)

section \<open>Arithmetic\<close>

fun fadd :: "float_format \<Rightarrow> fval \<Rightarrow> fval \<Rightarrow> fval" where
  "fadd F FNaN _ = FNaN"
| "fadd F _ FNaN = FNaN"
| "fadd F (FInf a) (FInf b) = (if a = b then FInf a else FNaN)"
| "fadd F (FInf a) (Fin _) = FInf a"
| "fadd F (Fin _) (FInf b) = FInf b"
| "fadd F (Fin p) (Fin q) = fround F (p + q)"

fun fneg :: "fval \<Rightarrow> fval" where
  "fneg FNaN = FNaN"
| "fneg (FInf a) = FInf (\<not> a)"
| "fneg (Fin q) = Fin (- q)"

definition fsub :: "float_format \<Rightarrow> fval \<Rightarrow> fval \<Rightarrow> fval" where
  "fsub F x y = fadd F x (fneg y)"

fun fmul :: "float_format \<Rightarrow> fval \<Rightarrow> fval \<Rightarrow> fval" where
  "fmul F FNaN _ = FNaN"
| "fmul F _ FNaN = FNaN"
| "fmul F (FInf a) (FInf b) = FInf (a \<noteq> b)"
| "fmul F (FInf a) (Fin q) = (if q = 0 then FNaN else FInf (a \<noteq> (q < 0)))"
| "fmul F (Fin q) (FInf b) = (if q = 0 then FNaN else FInf ((q < 0) \<noteq> b))"
| "fmul F (Fin p) (Fin q) = fround F (p * q)"

text \<open>A zero divisor is taken to be positive zero.\<close>

fun fdiv :: "float_format \<Rightarrow> fval \<Rightarrow> fval \<Rightarrow> fval" where
  "fdiv F FNaN _ = FNaN"
| "fdiv F _ FNaN = FNaN"
| "fdiv F (FInf a) (FInf b) = FNaN"
| "fdiv F (FInf a) (Fin q) = FInf (a \<noteq> (q < 0))"
| "fdiv F (Fin p) (FInf b) = Fin 0"
| "fdiv F (Fin p) (Fin q) =
     (if q = 0 then (if p = 0 then FNaN else FInf (p < 0)) else fround F (p / q))"

lemma fadd_nonneg: "fnonneg x \<Longrightarrow> fnonneg y \<Longrightarrow> fnonneg (fadd F x y)"
  by (cases x; cases y) (auto simp: fround_nonneg)

lemma fdiv_nonneg: "fnonneg x \<Longrightarrow> 0 < q \<Longrightarrow> fnonneg (fdiv F x (Fin q))"
  by (cases x) (auto simp: fround_nonneg)

section \<open>Reading floating point text\<close>

definition lower :: "char \<Rightarrow> char" where
  "lower c = (let n = of_char c :: nat in if 65 \<le> n \<and> n \<le> 90 then char_of (n + 32) else c)"

definition starts_with :: "string \<Rightarrow> string \<Rightarrow> bool" where
  "starts_with p s \<longleftrightarrow> take (length p) (map lower s) = p"

text \<open>Mantissa digits around an optional point: the digits, the number after the point, the rest.\<close>

definition scan_mantissa :: "nat \<Rightarrow> string \<Rightarrow> nat list \<times> nat \<times> string" where
  "scan_mantissa b s =
     (let (whole, r1) = take_digits b s
      in case r1 of
           c # r2 \<Rightarrow>
             if c = CHR ''.'' then let (frac, r3) = take_digits b r2 in (whole @ frac, length frac, r3)
             else (whole, 0, r1)
         | [] \<Rightarrow> (whole, 0, r1))"

definition scan_exponent :: "char \<Rightarrow> string \<Rightarrow> int" where
  "scan_exponent e s =
     (case s of
        [] \<Rightarrow> 0
      | c # cs \<Rightarrow>
          if lower c = e then let (neg, r) = strip_sign cs; (ds, _) = take_digits 10 r
                              in if neg then - digits_int 10 ds else digits_int 10 ds
          else 0)"

definition pow10 :: "int \<Rightarrow> rat" where
  "pow10 k = (if 0 \<le> k then 10 ^ nat k else 1 / 10 ^ nat (- k))"

datatype float_text = TextNaN | TextInf bool | TextNumber bool rat

definition scan_float :: "string \<Rightarrow> float_text option" where
  "scan_float s =
     (let (neg, cs) = strip_sign (dropWhile is_space s);
          (hex, hex_frac, hex_rest) = scan_mantissa 16 (drop 2 cs);
          (dec, dec_frac, dec_rest) = scan_mantissa 10 cs
      in if starts_with ''inf'' cs then Some (TextInf neg)
         else if starts_with ''nan'' cs then Some TextNaN
         else if starts_with ''0x'' cs \<and> hex \<noteq> []
         then Some (TextNumber neg (of_int (digits_int 16 hex)
                      * pow2 (scan_exponent (CHR ''p'') hex_rest - 4 * int hex_frac)))
         else if dec \<noteq> []
         then Some (TextNumber neg (of_int (digits_int 10 dec)
                      * pow10 (scan_exponent (CHR ''e'') dec_rest - int dec_frac)))
         else None)"

text \<open>
  \<open>strtof\<close> and \<open>strtod\<close> report overflow and inexact underflow through \<open>errno\<close>, on which \<open>std::stof\<close> and
  \<open>std::stod\<close> throw.
\<close>

definition stofloat :: "float_format \<Rightarrow> string \<Rightarrow> string \<Rightarrow> string + fval" where
  "stofloat F name s =
     (case scan_float s of
        None \<Rightarrow> Inl name
      | Some TextNaN \<Rightarrow> Inr FNaN
      | Some (TextInf neg) \<Rightarrow> Inr (FInf neg)
      | Some (TextNumber neg q) \<Rightarrow>
          (case fround F q of
             Fin r \<Rightarrow> if q \<noteq> 0 \<and> ilog2 q < fmt_emin F \<and> r \<noteq> q then Inl name
                      else Inr (Fin (if neg then - r else r))
           | _ \<Rightarrow> Inl name))"

abbreviation stof :: "string \<Rightarrow> string + fval" where
  "stof \<equiv> stofloat binary32 ''stof''"

abbreviation stod :: "string \<Rightarrow> string + fval" where
  "stod \<equiv> stofloat binary64 ''stod''"

section \<open>Round trip of unsigned integers\<close>

lemma digit_value_digit: "d < 10 \<Longrightarrow> digit_value (digit_char d) = Some d"
  by (simp add: digit_value_def digit_char_def)

definition decimal :: "string \<Rightarrow> bool" where
  "decimal s \<longleftrightarrow> list_all (\<lambda>c. \<exists>d < 10. c = digit_char d) s"

lemma decimal_show_nat: "decimal (show_nat n)"
proof (induction n rule: show_nat.induct)
  case (1 n)
  have "\<exists>d < 10. digit_char (n mod 10) = digit_char d" by (rule exI[of _ "n mod 10"]) simp
  then show ?case using 1 by (subst show_nat.simps) (auto simp: decimal_def)
qed

lemma take_digits_append:
  assumes "decimal s"
  shows "take_digits 10 (s @ t) = (case take_digits 10 t of (ds, r) \<Rightarrow> (map (\<lambda>c. the (digit_value c)) s @ ds, r))"
  using assms
  by (induction s) (auto simp: decimal_def digit_value_digit split: prod.splits)

lemma digits_int_append: "digits_int b (xs @ [d]) = digits_int b xs * b + int d"
  by (simp add: digits_int_def)

lemma digits_show_nat: "digits_int 10 (map (\<lambda>c. the (digit_value c)) (show_nat n)) = int n"
proof (induction n rule: show_nat.induct)
  case (1 n)
  show ?case
  proof (cases "n < 10")
    case True
    then show ?thesis by (subst show_nat.simps) (simp add: digit_value_digit digits_int_def)
  next
    case False
    have "int (n div 10) * 10 + int (n mod 10) = int n" by (simp add: zdiv_int zmod_int)
    with False 1 show ?thesis
      by (subst show_nat.simps) (simp add: digit_value_digit digits_int_append)
  qed
qed

lemma show_nat_first: "\<exists>d cs. show_nat n = digit_char d # cs \<and> d < 10"
  using decimal_show_nat[of n] by (cases "show_nat n") (auto simp: decimal_def)

lemma scan_integer_show_nat: "scan_integer (show_nat n) = Some (False, int n)"
proof -
  obtain d cs where d: "show_nat n = digit_char d # cs" "d < 10" using show_nat_first by blast
  have c: "\<not> is_space (digit_char d)" "digit_char d \<noteq> CHR ''-''" "digit_char d \<noteq> CHR ''+''"
    using d(2) take_bit_nat_eq_self[of "48 + d" 8] by (auto simp: is_space_def digit_char_def char_of_eq_iff)
  have "strip_sign (dropWhile is_space (show_nat n)) = (False, show_nat n)" using d c by simp
  moreover have "take_digits 10 (show_nat n) = (map (\<lambda>c. the (digit_value c)) (show_nat n), [])"
    using take_digits_append[OF decimal_show_nat, of n "[]"] by simp
  ultimately show ?thesis by (simp add: scan_integer_def digits_show_nat)
qed

lemma stou64_show_nat: "n < 2 ^ 64 \<Longrightarrow> stou64 name (show_nat n) = Inr (of_nat n)"
  by (simp add: stou64_def scan_integer_show_nat)

lemma stou64_show_nat_big: "\<not> n < 2 ^ 64 \<Longrightarrow> stou64 name (show_nat n) = Inl name"
  by (simp add: stou64_def scan_integer_show_nat)

lemma stoi_show_nat: "n < 2 ^ 31 \<Longrightarrow> stoi (show_nat n) = Inr (int n)"
  by (simp add: stoi_def scan_integer_show_nat)

end
