(* ===== verification/App_Config.thy ===== *)
theory App_Config
  imports Cxx_Number
begin

text \<open>
  \<open>AppConfig\<close> (\<open>include/eggvision/config.hpp\<close>) and the command line: \<open>usage\<close> and \<open>parseArguments\<close>
  (\<open>app/main.cpp\<close>). The argument list excludes the program name. A thrown exception is
  \<open>ParseThrows\<close> with its \<open>what()\<close> text and \<open>--help\<close>, which prints the usage and calls \<open>exit(0)\<close>, is
  \<open>ParseHelp\<close>.

  Results: every accepted configuration satisfies the bounds the rest of the program relies on,
  with the exact exception of NaN; the options round-trip; the documented options and defaults are
  the implemented ones; and what a wrapped or non-finite argument does.
\<close>

record app_config =
  cfg_main_width :: u32
  cfg_main_height :: u32
  cfg_lores_width :: u32
  cfg_lores_height :: u32
  cfg_fps :: u32
  cfg_buffer_count :: u32
  cfg_rtsp_address :: string
  cfg_rtsp_port :: string
  cfg_rtsp_mount :: string
  cfg_rtsp_max_sessions :: u32
  cfg_bitrate :: u32
  cfg_gop :: u32
  cfg_inference_enabled :: bool
  cfg_inference_backend :: string
  cfg_model_path :: string
  cfg_confidence_threshold :: fval
  cfg_nms_threshold :: fval
  cfg_inference_width :: u32
  cfg_inference_height :: u32
  cfg_inference_threads :: u32
  cfg_event_recording_enabled :: bool
  cfg_events_dir :: string
  cfg_event_pre_seconds :: fval
  cfg_event_post_seconds :: fval
  cfg_event_cooldown_seconds :: fval
  cfg_event_ring_seconds :: fval
  cfg_event_ring_max_bytes :: u64
  cfg_event_min_free_bytes :: u64
  cfg_event_jpeg_quality :: int
  cfg_event_container :: string
  cfg_duration_seconds :: u32
  cfg_metrics_interval_seconds :: u32

definition default_config :: app_config where
  "default_config =
     \<lparr>cfg_main_width = 1920, cfg_main_height = 1080, cfg_lores_width = 640, cfg_lores_height = 480,
      cfg_fps = 30, cfg_buffer_count = 8, cfg_rtsp_address = ''0.0.0.0'', cfg_rtsp_port = ''8554'',
      cfg_rtsp_mount = ''/stream'', cfg_rtsp_max_sessions = 32, cfg_bitrate = 4000000, cfg_gop = 12,
      cfg_inference_enabled = True, cfg_inference_backend = ''mnn'',
      cfg_model_path = ''models/yolov5n.mnn'',
      cfg_confidence_threshold = fround binary32 (3 / 10), cfg_nms_threshold = fround binary32 (45 / 100),
      cfg_inference_width = 320, cfg_inference_height = 320, cfg_inference_threads = 3,
      cfg_event_recording_enabled = True, cfg_events_dir = ''/var/lib/eggvision/events'',
      cfg_event_pre_seconds = Fin (3 / 2), cfg_event_post_seconds = Fin (3 / 2),
      cfg_event_cooldown_seconds = Fin 10, cfg_event_ring_seconds = Fin 4,
      cfg_event_ring_max_bytes = 8 * 1024 * 1024, cfg_event_min_free_bytes = 1 * 1024 * 1024 * 1024,
      cfg_event_jpeg_quality = 90, cfg_event_container = ''mp4'',
      cfg_duration_seconds = 0, cfg_metrics_interval_seconds = 5\<rparr>"

section \<open>Command line\<close>

record parse_state =
  ps_config :: app_config
  model_overridden :: bool
  threads_overridden :: bool

datatype parse_outcome = ParseThrows string | ParseHelp | ParseOk app_config

text \<open>The conversions of the option values, with \<open>static_cast<unsigned>\<close> for \<open>std::stoul\<close>.\<close>

definition with_value :: "string + 'a \<Rightarrow> ('a \<Rightarrow> app_config \<Rightarrow> app_config) \<Rightarrow> parse_state \<Rightarrow> string + parse_state" where
  "with_value v f s = (case v of Inl e \<Rightarrow> Inl e | Inr x \<Rightarrow> Inr (s\<lparr>ps_config := f x (ps_config s)\<rparr>))"

definition stounsigned :: "string \<Rightarrow> string + u32" where
  "stounsigned v = (case stoul v of Inl e \<Rightarrow> Inl e | Inr n \<Rightarrow> Inr (ucast n))"

text \<open>The branches of the loop that consume a value.\<close>

definition value_option :: "string \<Rightarrow> (string \<Rightarrow> parse_state \<Rightarrow> string + parse_state) option" where
  "value_option argument =
     (if argument = ''--inference-backend'' then Some (\<lambda>v. with_value (Inr v) (\<lambda>x. cfg_inference_backend_update (\<lambda>_. x)))
      else if argument = ''--model'' then
        Some (\<lambda>v s. with_value (Inr v) (\<lambda>x. cfg_model_path_update (\<lambda>_. x)) (s\<lparr>model_overridden := True\<rparr>))
      else if argument = ''--port'' then Some (\<lambda>v. with_value (Inr v) (\<lambda>x. cfg_rtsp_port_update (\<lambda>_. x)))
      else if argument = ''--mount'' then Some (\<lambda>v. with_value (Inr v) (\<lambda>x. cfg_rtsp_mount_update (\<lambda>_. x)))
      else if argument = ''--max-rtsp-sessions'' then
        Some (\<lambda>v. with_value (stounsigned v) (\<lambda>x. cfg_rtsp_max_sessions_update (\<lambda>_. x)))
      else if argument = ''--bitrate'' then Some (\<lambda>v. with_value (stounsigned v) (\<lambda>x. cfg_bitrate_update (\<lambda>_. x)))
      else if argument = ''--gop'' then Some (\<lambda>v. with_value (stounsigned v) (\<lambda>x. cfg_gop_update (\<lambda>_. x)))
      else if argument = ''--confidence'' then
        Some (\<lambda>v. with_value (stof v) (\<lambda>x. cfg_confidence_threshold_update (\<lambda>_. x)))
      else if argument = ''--nms'' then Some (\<lambda>v. with_value (stof v) (\<lambda>x. cfg_nms_threshold_update (\<lambda>_. x)))
      else if argument = ''--inference-threads'' then
        Some (\<lambda>v s. with_value (stounsigned v) (\<lambda>x. cfg_inference_threads_update (\<lambda>_. x)) (s\<lparr>threads_overridden := True\<rparr>))
      else if argument = ''--events-dir'' then Some (\<lambda>v. with_value (Inr v) (\<lambda>x. cfg_events_dir_update (\<lambda>_. x)))
      else if argument = ''--event-pre-seconds'' then
        Some (\<lambda>v. with_value (stod v) (\<lambda>x. cfg_event_pre_seconds_update (\<lambda>_. x)))
      else if argument = ''--event-post-seconds'' then
        Some (\<lambda>v. with_value (stod v) (\<lambda>x. cfg_event_post_seconds_update (\<lambda>_. x)))
      else if argument = ''--event-cooldown-seconds'' then
        Some (\<lambda>v. with_value (stod v) (\<lambda>x. cfg_event_cooldown_seconds_update (\<lambda>_. x)))
      else if argument = ''--event-ring-seconds'' then
        Some (\<lambda>v. with_value (stod v) (\<lambda>x. cfg_event_ring_seconds_update (\<lambda>_. x)))
      else if argument = ''--event-ring-max-bytes'' then
        Some (\<lambda>v. with_value (stoull v) (\<lambda>x. cfg_event_ring_max_bytes_update (\<lambda>_. x)))
      else if argument = ''--event-min-free-bytes'' then
        Some (\<lambda>v. with_value (stoull v) (\<lambda>x. cfg_event_min_free_bytes_update (\<lambda>_. x)))
      else if argument = ''--event-jpeg-quality'' then
        Some (\<lambda>v. with_value (stoi v) (\<lambda>x. cfg_event_jpeg_quality_update (\<lambda>_. x)))
      else if argument = ''--event-container'' then
        Some (\<lambda>v. with_value (Inr v) (\<lambda>x. cfg_event_container_update (\<lambda>_. x)))
      else if argument = ''--duration'' then
        Some (\<lambda>v. with_value (stounsigned v) (\<lambda>x. cfg_duration_seconds_update (\<lambda>_. x)))
      else None)"

text \<open>The argument loop; \<open>Inr None\<close> is the exit after \<open>--help\<close>.\<close>

fun parse_loop :: "string list \<Rightarrow> parse_state \<Rightarrow> string + parse_state option" where
  "parse_loop [] s = Inr (Some s)"
| "parse_loop (argument # rest) s =
     (case value_option argument of
        Some assign \<Rightarrow>
          (case rest of
             [] \<Rightarrow> Inl (''missing value after '' @ argument)
           | v # rest' \<Rightarrow> (case assign v s of Inl e \<Rightarrow> Inl e | Inr s' \<Rightarrow> parse_loop rest' s'))
      | None \<Rightarrow>
          if argument = ''--no-inference''
          then parse_loop rest (s\<lparr>ps_config := (ps_config s)\<lparr>cfg_inference_enabled := False\<rparr>\<rparr>)
          else if argument = ''--no-event-recording''
          then parse_loop rest (s\<lparr>ps_config := (ps_config s)\<lparr>cfg_event_recording_enabled := False\<rparr>\<rparr>)
          else if argument = ''--help'' then Inr None
          else Inl (''unknown argument: '' @ argument))"

definition apply_defaults :: "parse_state \<Rightarrow> app_config" where
  "apply_defaults s =
     (let c = ps_config s;
          c1 = (if model_overridden s then c
                else c\<lparr>cfg_model_path := (if cfg_inference_backend c = ''mnn'' then ''models/yolov5n.mnn''
                                          else ''models/yolov5n.xml'')\<rparr>)
      in if threads_overridden s then c1
         else c1\<lparr>cfg_inference_threads := (if cfg_inference_backend c1 = ''mnn'' then 3 else 2)\<rparr>)"

definition u32_to_double :: "u32 \<Rightarrow> fval" where
  "u32_to_double n = Fin (of_int (uint n))"

definition minimum_ring :: "app_config \<Rightarrow> fval" where
  "minimum_ring c =
     fadd binary64
       (fadd binary64 (cfg_event_pre_seconds c)
          (fdiv binary64 (u32_to_double (cfg_gop c)) (u32_to_double (cfg_fps c))))
       (Fin (1 / 2))"

definition backend_error :: "app_config \<Rightarrow> bool" where
  "backend_error c \<longleftrightarrow> cfg_inference_backend c \<noteq> ''mnn'' \<and> cfg_inference_backend c \<noteq> ''openvino''"

definition event_config_error :: "app_config \<Rightarrow> string option" where
  "event_config_error c =
     (if cfg_events_dir c = [] then Some ''--events-dir must not be empty''
      else if fle (cfg_event_pre_seconds c) (Fin 0) \<or> fle (cfg_event_post_seconds c) (Fin 0)
              \<or> fless (cfg_event_cooldown_seconds c) (Fin 0) \<or> fle (cfg_event_ring_seconds c) (Fin 0)
      then Some ''event durations must be positive; cooldown may be zero''
      else if fless (cfg_event_ring_seconds c) (minimum_ring c)
      then Some ''--event-ring-seconds must cover pre-roll, one GOP, and 0.5s safety''
      else if cfg_event_ring_max_bytes c < 1024 * 1024
      then Some ''--event-ring-max-bytes must be at least 1048576''
      else if cfg_event_jpeg_quality c < 1 \<or> cfg_event_jpeg_quality c > 100
      then Some ''--event-jpeg-quality must be in [1,100]''
      else if cfg_event_container c \<noteq> ''mp4'' \<and> cfg_event_container c \<noteq> ''mkv''
      then Some ''--event-container must be mp4 or mkv''
      else None)"

definition config_error :: "app_config \<Rightarrow> string option" where
  "config_error c =
     (if cfg_rtsp_mount c = [] \<or> hd (cfg_rtsp_mount c) \<noteq> CHR ''/''
      then Some (''--mount must begin with '' @ [CHR 0x27] @ ''/'' @ [CHR 0x27])
      else if fless (cfg_confidence_threshold c) (Fin 0) \<or> fless (Fin 1) (cfg_confidence_threshold c)
              \<or> fless (cfg_nms_threshold c) (Fin 0) \<or> fless (Fin 1) (cfg_nms_threshold c)
      then Some ''confidence and NMS thresholds must be in [0,1]''
      else if cfg_inference_threads c = 0 then Some ''--inference-threads must be at least 1''
      else if cfg_rtsp_max_sessions c = 0 then Some ''--max-rtsp-sessions must be at least 1''
      else if cfg_bitrate c = 0 \<or> cfg_gop c = 0 then Some ''--bitrate and --gop must be at least 1''
      else if cfg_event_recording_enabled c then event_config_error c
      else None)"

definition parseArguments :: "string list \<Rightarrow> parse_outcome" where
  "parseArguments args =
     (case parse_loop args \<lparr>ps_config = default_config, model_overridden = False, threads_overridden = False\<rparr> of
        Inl e \<Rightarrow> ParseThrows e
      | Inr None \<Rightarrow> ParseHelp
      | Inr (Some s) \<Rightarrow>
          if backend_error (ps_config s) then ParseThrows ''--inference-backend must be mnn or openvino''
          else let c = apply_defaults s
               in case config_error c of Some e \<Rightarrow> ParseThrows e | None \<Rightarrow> ParseOk c)"

section \<open>Usage text\<close>

text \<open>The options \<open>usage\<close> lists: whether each takes a value, and its documented default.\<close>

definition usage_options :: "(string \<times> bool \<times> string option) list" where
  "usage_options =
     [(''--inference-backend'', True, Some ''mnn''),
      (''--model'', True, None),
      (''--port'', True, Some ''8554''),
      (''--mount'', True, Some ''/stream''),
      (''--max-rtsp-sessions'', True, Some ''32''),
      (''--bitrate'', True, Some ''4000000''),
      (''--gop'', True, Some ''12''),
      (''--confidence'', True, Some ''0.30''),
      (''--nms'', True, Some ''0.45''),
      (''--inference-threads'', True, Some ''3''),
      (''--events-dir'', True, Some ''/var/lib/eggvision/events''),
      (''--event-pre-seconds'', True, Some ''1.5''),
      (''--event-post-seconds'', True, Some ''1.5''),
      (''--event-cooldown-seconds'', True, Some ''10''),
      (''--event-ring-seconds'', True, Some ''4''),
      (''--event-ring-max-bytes'', True, Some ''8388608''),
      (''--event-min-free-bytes'', True, Some ''1073741824''),
      (''--event-jpeg-quality'', True, Some ''90''),
      (''--event-container'', True, Some ''mp4''),
      (''--no-event-recording'', False, None),
      (''--duration'', True, None),
      (''--no-inference'', False, None),
      (''--help'', False, None)]"

section \<open>Accepted configurations\<close>

text \<open>What the program may assume of an accepted configuration.\<close>

definition unit_interval_or_NaN :: "fval \<Rightarrow> bool" where
  "unit_interval_or_NaN x = (case x of Fin q \<Rightarrow> 0 \<le> q \<and> q \<le> 1 | FNaN \<Rightarrow> True | FInf _ \<Rightarrow> False)"

definition config_ok :: "app_config \<Rightarrow> bool" where
  "config_ok c \<longleftrightarrow>
     (cfg_inference_backend c = ''mnn'' \<or> cfg_inference_backend c = ''openvino'')
     \<and> (\<exists>rest. cfg_rtsp_mount c = CHR ''/'' # rest)
     \<and> unit_interval_or_NaN (cfg_confidence_threshold c) \<and> unit_interval_or_NaN (cfg_nms_threshold c)
     \<and> cfg_inference_threads c > 0 \<and> cfg_rtsp_max_sessions c > 0 \<and> cfg_bitrate c > 0 \<and> cfg_gop c > 0
     \<and> cfg_fps c = 30 \<and> cfg_buffer_count c = 8
     \<and> (\<not> cfg_event_recording_enabled c
        \<or> cfg_events_dir c \<noteq> [] \<and> cfg_event_ring_max_bytes c \<ge> 2 ^ 20
          \<and> 1 \<le> cfg_event_jpeg_quality c \<and> cfg_event_jpeg_quality c \<le> 100
          \<and> (cfg_event_container c = ''mp4'' \<or> cfg_event_container c = ''mkv''))"

text \<open>With finite durations, the ring covers the pre-roll.\<close>

definition durations_ok :: "app_config \<Rightarrow> bool" where
  "durations_ok c =
     (case (cfg_event_pre_seconds c, cfg_event_post_seconds c, cfg_event_cooldown_seconds c, cfg_event_ring_seconds c) of
        (Fin pre, Fin post, Fin cooldown, Fin ring) \<Rightarrow>
          0 < pre \<and> 0 < post \<and> 0 \<le> cooldown \<and> 0 < ring
          \<and> (case minimum_ring c of Fin m \<Rightarrow> m \<le> ring | _ \<Rightarrow> False)
      | _ \<Rightarrow> True)"

lemma value_option_frame:
  assumes "value_option a = Some f" "f v s = Inr s'"
  shows "cfg_fps (ps_config s') = cfg_fps (ps_config s) \<and> cfg_buffer_count (ps_config s') = cfg_buffer_count (ps_config s)"
  using assms by (auto simp: value_option_def with_value_def split: if_splits sum.splits)

lemma parse_loop_frame:
  assumes "parse_loop args s = Inr (Some s')"
  shows "cfg_fps (ps_config s') = cfg_fps (ps_config s) \<and> cfg_buffer_count (ps_config s') = cfg_buffer_count (ps_config s)"
  using assms
proof (induction args s rule: parse_loop.induct)
  case (2 argument rest s)
  show ?case
  proof (cases "value_option argument")
    case (Some f)
    with 2 show ?thesis by (auto split: list.splits sum.splits dest!: value_option_frame)
  next
    case None
    with 2 show ?thesis by (auto split: if_splits)
  qed
qed simp

lemma unit_interval_or_NaN_iff:
  "unit_interval_or_NaN x \<longleftrightarrow> \<not> fless x (Fin 0) \<and> \<not> fless (Fin 1) x"
  by (auto simp: unit_interval_or_NaN_def split: fval.split)

lemma unsigned_rat_nonneg: "0 \<le> (unsigned (n :: u32) :: rat)"
  by (metis of_nat_unat of_nat_0_le_iff)

lemma minimum_ring_nonneg:
  assumes "cfg_fps c = 30" "cfg_event_pre_seconds c = Fin p" "0 < p"
  shows "fnonneg (minimum_ring c)"
  using assms unfolding minimum_ring_def u32_to_double_def
  by (intro fadd_nonneg) (auto intro!: fround_nonneg unsigned_rat_nonneg)

lemma event_config_error_durations:
  assumes e: "event_config_error c = None" and fps: "cfg_fps c = 30"
  shows "durations_ok c"
proof -
  have pos: "\<not> fle (cfg_event_pre_seconds c) (Fin 0)" "\<not> fle (cfg_event_post_seconds c) (Fin 0)"
    "\<not> fless (cfg_event_cooldown_seconds c) (Fin 0)" "\<not> fle (cfg_event_ring_seconds c) (Fin 0)"
    and ring: "\<not> fless (cfg_event_ring_seconds c) (minimum_ring c)"
    using e by (auto simp: event_config_error_def split: if_splits)
  have ring_ok: "case minimum_ring c of Fin m \<Rightarrow> m \<le> r | _ \<Rightarrow> False"
    if "cfg_event_pre_seconds c = Fin p" "cfg_event_ring_seconds c = Fin r" "0 < p" for p r
    using minimum_ring_nonneg[OF fps that(1,3)] ring that(2)
    by (cases "minimum_ring c") (auto simp: fnonneg_def)
  show ?thesis
  proof (cases "cfg_event_pre_seconds c"; cases "cfg_event_post_seconds c";
         cases "cfg_event_cooldown_seconds c"; cases "cfg_event_ring_seconds c")
  qed (use pos ring_ok in \<open>simp_all add: durations_ok_def not_le not_less\<close>)
qed

lemma config_error_None:
  assumes "config_error c = None"
  shows "\<exists>rest. cfg_rtsp_mount c = CHR ''/'' # rest"
    and "unit_interval_or_NaN (cfg_confidence_threshold c)" "unit_interval_or_NaN (cfg_nms_threshold c)"
    and "cfg_inference_threads c > 0" "cfg_rtsp_max_sessions c > 0" "cfg_bitrate c > 0" "cfg_gop c > 0"
    and "cfg_event_recording_enabled c \<Longrightarrow> event_config_error c = None"
  using assms
  by (auto simp: config_error_def unit_interval_or_NaN_iff word_neq_0_conv neq_Nil_conv split: if_splits)

lemma apply_defaults_frame:
  "cfg_fps (apply_defaults s) = cfg_fps (ps_config s)"
  "cfg_buffer_count (apply_defaults s) = cfg_buffer_count (ps_config s)"
  "cfg_inference_backend (apply_defaults s) = cfg_inference_backend (ps_config s)"
  by (auto simp: apply_defaults_def Let_def)

text \<open>
  C25. Every configuration the command line parser accepts is usable: a known backend, a mount that
  begins with a slash, positive session, bitrate, GOP and thread counts, thresholds that are NaN or
  in the unit interval, and, with recording on, a non-empty directory, a ring of at least one
  mebibyte, a JPEG quality and a container the recorder supports. If the durations are finite they
  are positive (the cooldown may be zero) and the ring covers the pre-roll, one GOP and half a
  second as computed in double precision.
\<close>

theorem accepted_configuration:
  assumes "parseArguments args = ParseOk c"
  shows "config_ok c \<and> (if cfg_event_recording_enabled c then durations_ok c else True)"
proof -
  let ?s0 = "\<lparr>ps_config = default_config, model_overridden = False, threads_overridden = False\<rparr>"
  obtain s where s: "parse_loop args ?s0 = Inr (Some s)" "\<not> backend_error (ps_config s)"
    "c = apply_defaults s" "config_error c = None"
    using assms by (auto simp: parseArguments_def Let_def split: sum.splits option.splits if_splits)
  have fixed: "cfg_fps c = 30" "cfg_buffer_count c = 8"
    using parse_loop_frame[OF s(1)] by (simp_all add: s(3) apply_defaults_frame default_config_def)
  have event: "event_config_error c = None" if "cfg_event_recording_enabled c"
    using config_error_None(8)[OF s(4) that] .
  have "config_ok c"
    unfolding config_ok_def
    using s(2) fixed config_error_None[OF s(4)] event
    by (auto simp: s(3) apply_defaults_frame backend_error_def event_config_error_def not_less split: if_splits)
  then show ?thesis using event_config_error_durations[OF event fixed(1)] by simp
qed

theorem accepted_configuration_witness:
  "\<exists>c. parseArguments [''--gop'', ''30'', ''--no-inference''] = ParseOk c \<and> cfg_gop c = 30
       \<and> config_ok c \<and> durations_ok c"
proof -
  define c where "c = default_config\<lparr>cfg_gop := 30, cfg_inference_enabled := False\<rparr>"
  have p: "parseArguments [''--gop'', ''30'', ''--no-inference''] = ParseOk c"
    unfolding c_def by code_simp
  from accepted_configuration[OF p] have "config_ok c \<and> durations_ok c"
    by (simp add: c_def default_config_def)
  with p show ?thesis by (auto simp: c_def)
qed

section \<open>Round trip of the options\<close>

text \<open>The command line that sets every option with an integer or text value.\<close>

definition cli_args :: "app_config \<Rightarrow> string list" where
  "cli_args c =
     [''--inference-backend'', cfg_inference_backend c, ''--model'', cfg_model_path c,
      ''--port'', cfg_rtsp_port c, ''--mount'', cfg_rtsp_mount c,
      ''--max-rtsp-sessions'', show_nat (unat (cfg_rtsp_max_sessions c)),
      ''--bitrate'', show_nat (unat (cfg_bitrate c)), ''--gop'', show_nat (unat (cfg_gop c)),
      ''--inference-threads'', show_nat (unat (cfg_inference_threads c)),
      ''--events-dir'', cfg_events_dir c,
      ''--event-ring-max-bytes'', show_nat (unat (cfg_event_ring_max_bytes c)),
      ''--event-min-free-bytes'', show_nat (unat (cfg_event_min_free_bytes c)),
      ''--event-jpeg-quality'', show_nat (nat (cfg_event_jpeg_quality c)),
      ''--event-container'', cfg_event_container c,
      ''--duration'', show_nat (unat (cfg_duration_seconds c))]
     @ (if cfg_inference_enabled c then [] else [''--no-inference''])
     @ (if cfg_event_recording_enabled c then [] else [''--no-event-recording''])"

text \<open>The fields no such option sets.\<close>

definition fixed_part :: "app_config \<Rightarrow> u32 list \<times> string \<times> fval list" where
  "fixed_part c =
     ([cfg_main_width c, cfg_main_height c, cfg_lores_width c, cfg_lores_height c, cfg_fps c,
       cfg_buffer_count c, cfg_inference_width c, cfg_inference_height c, cfg_metrics_interval_seconds c],
      cfg_rtsp_address c,
      [cfg_confidence_threshold c, cfg_nms_threshold c, cfg_event_pre_seconds c, cfg_event_post_seconds c,
       cfg_event_cooldown_seconds c, cfg_event_ring_seconds c])"

lemma stounsigned_show: "stounsigned (show_nat (unat (n :: u32))) = Inr n"
proof -
  have "unat n < 2 ^ 64" using unsigned_less[of n, where 'a = nat] by simp
  moreover have "ucast (ucast n :: u64) = n" by (simp add: ucast_up_ucast_id is_up)
  ultimately show ?thesis by (simp add: stounsigned_def stou64_show_nat)
qed

lemma stoull_show: "stoull (show_nat (unat (n :: u64))) = Inr n"
  using unsigned_less[of n, where 'a = nat] by (simp add: stou64_show_nat)

lemma value_option_simps:
  "value_option ''--inference-backend'' = Some (\<lambda>v. with_value (Inr v) (\<lambda>x. cfg_inference_backend_update (\<lambda>_. x)))"
  "value_option ''--model'' = Some (\<lambda>v s. with_value (Inr v) (\<lambda>x. cfg_model_path_update (\<lambda>_. x)) (s\<lparr>model_overridden := True\<rparr>))"
  "value_option ''--port'' = Some (\<lambda>v. with_value (Inr v) (\<lambda>x. cfg_rtsp_port_update (\<lambda>_. x)))"
  "value_option ''--mount'' = Some (\<lambda>v. with_value (Inr v) (\<lambda>x. cfg_rtsp_mount_update (\<lambda>_. x)))"
  "value_option ''--max-rtsp-sessions'' = Some (\<lambda>v. with_value (stounsigned v) (\<lambda>x. cfg_rtsp_max_sessions_update (\<lambda>_. x)))"
  "value_option ''--bitrate'' = Some (\<lambda>v. with_value (stounsigned v) (\<lambda>x. cfg_bitrate_update (\<lambda>_. x)))"
  "value_option ''--gop'' = Some (\<lambda>v. with_value (stounsigned v) (\<lambda>x. cfg_gop_update (\<lambda>_. x)))"
  "value_option ''--inference-threads'' =
     Some (\<lambda>v s. with_value (stounsigned v) (\<lambda>x. cfg_inference_threads_update (\<lambda>_. x)) (s\<lparr>threads_overridden := True\<rparr>))"
  "value_option ''--confidence'' = Some (\<lambda>v. with_value (stof v) (\<lambda>x. cfg_confidence_threshold_update (\<lambda>_. x)))"
  "value_option ''--nms'' = Some (\<lambda>v. with_value (stof v) (\<lambda>x. cfg_nms_threshold_update (\<lambda>_. x)))"
  "value_option ''--event-pre-seconds'' = Some (\<lambda>v. with_value (stod v) (\<lambda>x. cfg_event_pre_seconds_update (\<lambda>_. x)))"
  "value_option ''--event-post-seconds'' = Some (\<lambda>v. with_value (stod v) (\<lambda>x. cfg_event_post_seconds_update (\<lambda>_. x)))"
  "value_option ''--event-cooldown-seconds'' = Some (\<lambda>v. with_value (stod v) (\<lambda>x. cfg_event_cooldown_seconds_update (\<lambda>_. x)))"
  "value_option ''--event-ring-seconds'' = Some (\<lambda>v. with_value (stod v) (\<lambda>x. cfg_event_ring_seconds_update (\<lambda>_. x)))"
  "value_option ''--events-dir'' = Some (\<lambda>v. with_value (Inr v) (\<lambda>x. cfg_events_dir_update (\<lambda>_. x)))"
  "value_option ''--event-ring-max-bytes'' = Some (\<lambda>v. with_value (stoull v) (\<lambda>x. cfg_event_ring_max_bytes_update (\<lambda>_. x)))"
  "value_option ''--event-min-free-bytes'' = Some (\<lambda>v. with_value (stoull v) (\<lambda>x. cfg_event_min_free_bytes_update (\<lambda>_. x)))"
  "value_option ''--event-jpeg-quality'' = Some (\<lambda>v. with_value (stoi v) (\<lambda>x. cfg_event_jpeg_quality_update (\<lambda>_. x)))"
  "value_option ''--event-container'' = Some (\<lambda>v. with_value (Inr v) (\<lambda>x. cfg_event_container_update (\<lambda>_. x)))"
  "value_option ''--duration'' = Some (\<lambda>v. with_value (stounsigned v) (\<lambda>x. cfg_duration_seconds_update (\<lambda>_. x)))"
  "value_option ''--no-inference'' = None" "value_option ''--no-event-recording'' = None"
  by (simp_all add: value_option_def)

lemma config_default: "config_error default_config = None"
  by code_simp

lemma parse_cli:
  assumes "stounsigned n1 = Inr sessions" "stounsigned n2 = Inr bitrate" "stounsigned n3 = Inr gop"
    "stounsigned n4 = Inr threads" "stoull n5 = Inr ring" "stoull n6 = Inr free" "stoi n7 = Inr quality"
    "stounsigned n8 = Inr duration"
  shows "parse_loop ([''--inference-backend'', backend, ''--model'', model, ''--port'', port, ''--mount'', mount,
      ''--max-rtsp-sessions'', n1, ''--bitrate'', n2, ''--gop'', n3, ''--inference-threads'', n4,
      ''--events-dir'', dir, ''--event-ring-max-bytes'', n5, ''--event-min-free-bytes'', n6,
      ''--event-jpeg-quality'', n7, ''--event-container'', container, ''--duration'', n8] @ rest)
      \<lparr>ps_config = c0, model_overridden = False, threads_overridden = False\<rparr>
    = parse_loop rest \<lparr>ps_config = c0\<lparr>cfg_inference_backend := backend, cfg_model_path := model,
        cfg_rtsp_port := port, cfg_rtsp_mount := mount, cfg_rtsp_max_sessions := sessions, cfg_bitrate := bitrate,
        cfg_gop := gop, cfg_inference_threads := threads, cfg_events_dir := dir, cfg_event_ring_max_bytes := ring,
        cfg_event_min_free_bytes := free, cfg_event_jpeg_quality := quality, cfg_event_container := container,
        cfg_duration_seconds := duration\<rparr>, model_overridden = True, threads_overridden = True\<rparr>"
  using assms by (simp add: value_option_simps with_value_def)

lemma parse_flags:
  "parse_loop ((if x then [] else [''--no-inference'']) @ (if y then [] else [''--no-event-recording''])) s =
     Inr (Some (s\<lparr>ps_config := (ps_config s)\<lparr>cfg_inference_enabled := x \<and> cfg_inference_enabled (ps_config s),
       cfg_event_recording_enabled := y \<and> cfg_event_recording_enabled (ps_config s)\<rparr>\<rparr>))"
  by (cases x; cases y) (simp_all add: value_option_simps)

text \<open>
  C26. Options round-trip: printing the integer and text options of any acceptable configuration
  and parsing them gives the same configuration, for every word-sized value, so no option is
  ignored, mixed up with another or truncated within its type.
\<close>

theorem cli_roundtrip:
  assumes "fixed_part c = fixed_part default_config" "0 \<le> cfg_event_jpeg_quality c" "cfg_event_jpeg_quality c < 2 ^ 31"
    and "\<not> backend_error c" "config_error c = None"
  shows "parseArguments (cli_args c) = ParseOk c"
proof -
  let ?s0 = "\<lparr>ps_config = default_config, model_overridden = False, threads_overridden = False\<rparr>"
  have q: "stoi (show_nat (nat (cfg_event_jpeg_quality c))) = Inr (cfg_event_jpeg_quality c)"
    using assms(2,3) stoi_show_nat[of "nat (cfg_event_jpeg_quality c)"] by simp
  have "parse_loop (cli_args c) ?s0 = Inr (Some \<lparr>ps_config = c, model_overridden = True, threads_overridden = True\<rparr>)"
    unfolding cli_args_def
    by (subst parse_cli[OF stounsigned_show stounsigned_show stounsigned_show stounsigned_show stoull_show stoull_show
          q stounsigned_show]) (subst parse_flags, use assms(1) in \<open>cases c, simp add: fixed_part_def default_config_def\<close>)
  then show ?thesis using assms(4,5) by (simp add: parseArguments_def apply_defaults_def)
qed

theorem cli_roundtrip_witness:
  "parseArguments (cli_args (default_config\<lparr>cfg_bitrate := 2 ^ 32 - 1, cfg_rtsp_mount := ''/cam'',
       cfg_event_recording_enabled := False, cfg_event_min_free_bytes := 2 ^ 64 - 1\<rparr>))
   = ParseOk (default_config\<lparr>cfg_bitrate := 2 ^ 32 - 1, cfg_rtsp_mount := ''/cam'',
       cfg_event_recording_enabled := False, cfg_event_min_free_bytes := 2 ^ 64 - 1\<rparr>)"
proof (rule cli_roundtrip)
  let ?c = "default_config\<lparr>cfg_bitrate := 2 ^ 32 - 1, cfg_rtsp_mount := ''/cam'',
       cfg_event_recording_enabled := False, cfg_event_min_free_bytes := 2 ^ 64 - 1\<rparr>"
  show "config_error ?c = None" by code_simp
qed (simp_all add: fixed_part_def backend_error_def default_config_def)

section \<open>Documentation\<close>

lemma value_option_known:
  "value_option a \<noteq> None \<longleftrightarrow> a \<in> set (map fst (filter (\<lambda>p. fst (snd p)) usage_options))"
  by (simp add: value_option_def usage_options_def)

lemma default_values:
  "stounsigned ''32'' = Inr 32" "stounsigned ''4000000'' = Inr 4000000" "stounsigned ''12'' = Inr 12"
  "stounsigned ''3'' = Inr 3" "stof ''0.30'' = Inr (fround binary32 (3 / 10))"
  "stof ''0.45'' = Inr (fround binary32 (45 / 100))" "stod ''1.5'' = Inr (Fin (3 / 2))" "stod ''10'' = Inr (Fin 10)"
  "stod ''4'' = Inr (Fin 4)" "stoull ''8388608'' = Inr 8388608" "stoull ''1073741824'' = Inr 1073741824"
  "stoi ''90'' = Inr 90"
  by code_simp+


text \<open>
  C28. \<open>static_cast<unsigned>(std::stoul(v))\<close> keeps only the low 32 bits of an option value: for every
  natural number below \<open>2^64\<close> the parser accepts \<open>--duration n\<close> and runs for \<open>n mod 2^32\<close> seconds, in
  particular \<open>--duration 4294967296\<close> runs until a signal. Larger numbers are rejected.
\<close>

theorem duration_wraps:
  "parseArguments [''--duration'', show_nat n] =
     (if n < 2 ^ 64 then ParseOk (default_config\<lparr>cfg_duration_seconds := word_of_nat (n mod 2 ^ 32)\<rparr>)
      else ParseThrows ''stoul'')"
proof (cases "n < 2 ^ 64")
  case True
  have "(ucast (word_of_nat n :: u64) :: u32) = word_of_nat (n mod 2 ^ 32)"
    unfolding take_bit_eq_mod[symmetric] by (rule bit_word_eqI) (auto simp: bit_simps)
  moreover have "config_error (default_config\<lparr>cfg_duration_seconds := d\<rparr>) = config_error default_config" for d
    by (simp add: config_error_def event_config_error_def minimum_ring_def)
  ultimately show ?thesis using True
    by (simp add: config_default parseArguments_def value_option_simps stounsigned_def stou64_show_nat with_value_def
        backend_error_def apply_defaults_def) (simp add: default_config_def)
qed (simp add: parseArguments_def value_option_simps stounsigned_def stou64_show_nat_big with_value_def)

text \<open>
  Not-a-number passes every range check, because each compares for the forbidden side: the
  parser accepts NaN for a threshold and for an event duration with recording enabled.
\<close>

lemma nan_is_accepted:
  "parseArguments [''--confidence'', ''nan'', ''--event-pre-seconds'', ''nan'', ''--event-ring-seconds'', ''nan''] =
     ParseOk (default_config\<lparr>cfg_confidence_threshold := FNaN, cfg_event_pre_seconds := FNaN,
       cfg_event_ring_seconds := FNaN\<rparr>)"
  by code_simp

end
