(* ===== verification/Camera_Setup.thy ===== *)
theory Camera_Setup
  imports Camera_Capture App_Config
begin

text \<open>
  \<open>CameraCapture::initialize\<close> with \<open>configureStreams\<close> and \<open>allocateBuffers\<close>, and the destructor
  (\<open>src/camera_capture.cpp\<close>). \<open>libcamera\<close> is a parameter: a record of its answers. The kernel is the state
  that \<open>mmap\<close> and \<open>munmap\<close> pass on. What the library calls need to be balanced, acquisition and
  release of the camera, start and stop of the manager, is recorded in a log.
\<close>

section \<open>What libcamera answers\<close>

datatype pixel_format = YUV420 | OtherFormat nat

record stream_config =
  sc_format :: pixel_format
  sc_width :: u32
  sc_height :: u32
  sc_buffer_count :: u32
  sc_stride :: u32
  sc_frame_size :: u32

datatype config_status = ConfigValid | ConfigAdjusted | ConfigInvalid

record libcamera =
  lc_manager_start :: bool
  lc_cameras :: "string list"
  lc_acquire :: "string \<Rightarrow> bool"
  lc_generate :: "stream_config list option"
  lc_validate :: "stream_config \<Rightarrow> stream_config \<Rightarrow> config_status \<times> stream_config \<times> stream_config"
  lc_configure :: "stream_config \<Rightarrow> stream_config \<Rightarrow> bool"
  lc_allocate_main :: bool
  lc_allocate_lores :: bool
  lc_main_buffers :: "(nat \<times> frame_buffer) list"
  lc_lores_buffers :: "(nat \<times> frame_buffer) list"
  lc_build :: "nat \<Rightarrow> bool"

datatype lib_call = ManagerStart | Acquire string | Configure stream_config stream_config | Release string | ManagerStop

text \<open>The members of the object that set-up and destruction change.\<close>

record camera_setup =
  su_initialized :: bool
  su_manager :: bool
  su_camera :: "string option"
  su_main_layout :: stream_view
  su_lores_layout :: stream_view
  su_main_mappings :: "nat \<rightharpoonup> mapping list"
  su_lores_mappings :: "nat \<rightharpoonup> mapping list"
  su_requests :: "nat list"
  su_log :: "lib_call list"

definition empty_layout :: stream_view where
  "empty_layout = \<lparr>sv_width = 0, sv_height = 0, sv_stride = 0, frame_size = 0, planes = []\<rparr>"

definition setup_new :: camera_setup where
  "setup_new = \<lparr>su_initialized = False, su_manager = False, su_camera = None, su_main_layout = empty_layout,
     su_lores_layout = empty_layout, su_main_mappings = Map.empty, su_lores_mappings = Map.empty, su_requests = [],
     su_log = []\<rparr>"

definition log_call :: "lib_call \<Rightarrow> camera_setup \<Rightarrow> camera_setup" where
  "log_call c s = s\<lparr>su_log := su_log s @ [c]\<rparr>"

section \<open>Set-up\<close>

definition request_stream :: "u32 \<Rightarrow> u32 \<Rightarrow> u32 \<Rightarrow> stream_config \<Rightarrow> stream_config" where
  "request_stream w h n c = c\<lparr>sc_format := YUV420, sc_width := w, sc_height := h, sc_buffer_count := n\<rparr>"

definition exact_stream :: "u32 \<Rightarrow> u32 \<Rightarrow> stream_config \<Rightarrow> bool" where
  "exact_stream w h c \<longleftrightarrow> sc_format c = YUV420 \<and> sc_width c = w \<and> sc_height c = h"

definition set_layout :: "stream_config \<Rightarrow> stream_view \<Rightarrow> stream_view" where
  "set_layout c v = v\<lparr>sv_width := sc_width c, sv_height := sc_height c, sv_stride := sc_stride c, frame_size := sc_frame_size c\<rparr>"

definition configureStreams :: "libcamera \<Rightarrow> app_config \<Rightarrow> camera_setup \<Rightarrow> bool \<times> camera_setup" where
  "configureStreams lc config s =
     (case lc_generate lc of
        Some [main0, lores0] \<Rightarrow>
          let (status, main, lores) = lc_validate lc
                (request_stream (cfg_main_width config) (cfg_main_height config) (cfg_buffer_count config) main0)
                (request_stream (cfg_lores_width config) (cfg_lores_height config) (cfg_buffer_count config) lores0)
          in if status = ConfigInvalid then (False, s)
             else if \<not> (exact_stream (cfg_main_width config) (cfg_main_height config) main
                         \<and> exact_stream (cfg_lores_width config) (cfg_lores_height config) lores) then (False, s)
             else let s1 = log_call (Configure main lores) s
                  in if \<not> lc_configure lc main lores then (False, s1)
                     else (True, s1\<lparr>su_main_layout := set_layout main (su_main_layout s1),
                                    su_lores_layout := set_layout lores (su_lores_layout s1)\<rparr>)
      | _ \<Rightarrow> (False, s))"

definition first_planes :: "(nat \<times> frame_buffer) list \<Rightarrow> stream_view \<Rightarrow> (nat \<rightharpoonup> mapping list) \<Rightarrow> stream_view" where
  "first_planes bufs layout table =
     (case bufs of [] \<Rightarrow> layout | (b, fb) # rest \<Rightarrow> layout\<lparr>planes := planes (makeView b fb layout table)\<rparr>)"

definition allocateBuffers :: "('k \<Rightarrow> int \<Rightarrow> u64 \<Rightarrow> ptr \<times> 'k) \<Rightarrow> ('k \<Rightarrow> ptr \<Rightarrow> u64 \<Rightarrow> 'k) \<Rightarrow> libcamera
     \<Rightarrow> camera_setup \<Rightarrow> 'k \<Rightarrow> bool \<times> camera_setup \<times> 'k" where
  "allocateBuffers mmap munmap lc s k =
     (if \<not> lc_allocate_main lc \<or> \<not> lc_allocate_lores lc then (False, s, k)
      else
        let (main_ok, main_table, k1) = mapBuffers mmap munmap (lc_main_buffers lc) (su_main_mappings s) k;
            s1 = s\<lparr>su_main_mappings := main_table\<rparr>
        in if \<not> main_ok then (False, s1, k1)
           else
             let (lores_ok, lores_table, k2) = mapBuffers mmap munmap (lc_lores_buffers lc) (su_lores_mappings s1) k1;
                 s2 = s1\<lparr>su_lores_mappings := lores_table\<rparr>
             in if \<not> lores_ok then (False, s2, k2)
                else (True,
                      s2\<lparr>su_main_layout := first_planes (lc_main_buffers lc) (su_main_layout s2) main_table,
                         su_lores_layout := first_planes (lc_lores_buffers lc) (su_lores_layout s2) lores_table\<rparr>,
                      k2))"

text \<open>The requests built before the first that fails are kept.\<close>

definition build_requests :: "libcamera \<Rightarrow> camera_setup \<Rightarrow> bool \<times> camera_setup" where
  "build_requests lc s =
     (let n = min (length (lc_main_buffers lc)) (length (lc_lores_buffers lc))
      in case createRequests (length (lc_main_buffers lc)) (length (lc_lores_buffers lc)) (lc_build lc) of
           None \<Rightarrow> (False, if n < 4 then s else s\<lparr>su_requests := su_requests s @ takeWhile (lc_build lc) [0..<n]\<rparr>)
         | Some rs \<Rightarrow> (True, s\<lparr>su_requests := su_requests s @ rs\<rparr>))"

definition cam_initialize :: "('k \<Rightarrow> int \<Rightarrow> u64 \<Rightarrow> ptr \<times> 'k) \<Rightarrow> ('k \<Rightarrow> ptr \<Rightarrow> u64 \<Rightarrow> 'k) \<Rightarrow> libcamera \<Rightarrow> app_config
     \<Rightarrow> camera_setup \<Rightarrow> 'k \<Rightarrow> bool \<times> camera_setup \<times> 'k" where
  "cam_initialize mmap munmap lc config s0 k =
     (if su_initialized s0 then (True, s0, k)
      else
        let s = log_call ManagerStart (s0\<lparr>su_manager := True\<rparr>)
        in if \<not> lc_manager_start lc then (False, s, k)
           else
             case lc_cameras lc of
               [] \<Rightarrow> (False, s, k)
             | camera_id # others \<Rightarrow>
                 let s1 = log_call (Acquire camera_id) (s\<lparr>su_camera := Some camera_id\<rparr>)
                 in if \<not> lc_acquire lc camera_id then (False, s1, k)
                    else
                      case configureStreams lc config s1 of
                        (False, s2) \<Rightarrow> (False, s2, k)
                      | (True, s2) \<Rightarrow>
                          (case allocateBuffers mmap munmap lc s2 k of
                             (False, s3, k3) \<Rightarrow> (False, s3, k3)
                           | (True, s3, k3) \<Rightarrow>
                               (case build_requests lc s3 of
                                  (False, s4) \<Rightarrow> (False, s4, k3)
                                | (True, s4) \<Rightarrow> (True, s4\<lparr>su_initialized := True\<rparr>, k3))))"

text \<open>
  The destructor after its call of \<open>stop\<close>. The tables are unordered: \<open>main_order\<close> and \<open>lores_order\<close>
  are the keys in the order of the iteration.
\<close>

definition entries :: "nat list \<Rightarrow> (nat \<rightharpoonup> mapping list) \<Rightarrow> (nat \<times> mapping list) list" where
  "entries order table = map (\<lambda>b. (b, the (table b))) order"

definition cam_destroy :: "('k \<Rightarrow> ptr \<Rightarrow> u64 \<Rightarrow> 'k) \<Rightarrow> nat list \<Rightarrow> nat list \<Rightarrow> camera_setup \<Rightarrow> 'k \<Rightarrow> camera_setup \<times> 'k" where
  "cam_destroy munmap main_order lores_order s k =
     (let k1 = unmapBuffers munmap (entries main_order (su_main_mappings s)) k;
          k2 = unmapBuffers munmap (entries lores_order (su_lores_mappings s)) k1;
          s1 = s\<lparr>su_main_mappings := Map.empty, su_lores_mappings := Map.empty, su_requests := []\<rparr>;
          s2 = (case su_camera s1 of None \<Rightarrow> s1 | Some i \<Rightarrow> log_call (Release i) (s1\<lparr>su_camera := None\<rparr>));
          s3 = (if su_manager s2 then log_call ManagerStop s2 else s2)
      in (s3, k2))"

section \<open>Mapped memory\<close>

text \<open>
  What \<open>mmap\<close> and \<open>munmap\<close> promise: \<open>held\<close> is the collection of live mappings, a successful call of
  \<open>mmap\<close> adds one at an address that is not null, and \<open>munmap\<close> removes one.
\<close>

definition mapping_laws :: "('k \<Rightarrow> int \<Rightarrow> u64 \<Rightarrow> ptr \<times> 'k) \<Rightarrow> ('k \<Rightarrow> ptr \<Rightarrow> u64 \<Rightarrow> 'k) \<Rightarrow> ('k \<Rightarrow> (ptr \<times> u64) multiset) \<Rightarrow> bool" where
  "mapping_laws mmap munmap held \<longleftrightarrow>
     (\<forall>k fd n p k'. mmap k fd n = (p, k') \<longrightarrow>
        (if p = MAP_FAILED then held k' = held k else p \<noteq> 0 \<and> held k' = add_mset (p, n) (held k)))
     \<and> (\<forall>k p n. (p, n) \<in># held k \<longrightarrow> held (munmap k p n) = held k - {#(p, n)#})"

definition is_mapped :: "mapping \<Rightarrow> bool" where
  "is_mapped m \<longleftrightarrow> map_base m \<noteq> 0 \<and> map_base m \<noteq> MAP_FAILED"

definition regions :: "mapping list \<Rightarrow> (ptr \<times> u64) multiset" where
  "regions ms = mset (map (\<lambda>m. (map_base m, map_length m)) (filter is_mapped ms))"

lemma regions_simps [simp]:
  "regions [] = {#}" "regions (xs @ ys) = regions xs + regions ys"
  "regions (m # ms) = (if is_mapped m then {#(map_base m, map_length m)#} else {#}) + regions ms"
  by (simp_all add: regions_def)

definition table_regions :: "(nat \<rightharpoonup> mapping list) \<Rightarrow> (ptr \<times> u64) multiset" where
  "table_regions t = (\<Sum>b\<in>dom t. regions (the (t b)))"

lemma table_regions_empty [simp]: "table_regions Map.empty = {#}"
  by (simp add: table_regions_def)

lemma table_regions_insert:
  "finite (dom t) \<Longrightarrow> b \<notin> dom t \<Longrightarrow> table_regions (t(b \<mapsto> ms)) = regions ms + table_regions t"
  unfolding table_regions_def by (simp add: domIff) (intro sum.cong, auto)

lemma note_mapping_base: "\<forall>m\<in>set ms. map_base m = 0 \<Longrightarrow> \<forall>m\<in>set (note_mapping fd len ms). map_base m = 0"
  by (induction ms) auto

lemma planMappings_base: "planMappings ps ms = Some plan \<Longrightarrow> \<forall>m\<in>set ms. map_base m = 0 \<Longrightarrow> \<forall>m\<in>set plan. map_base m = 0"
proof (induction ps arbitrary: ms)
  case (Cons p ps)
  have "planMappings ps (note_mapping (bp_fd p) (ucast (bp_offset p) + ucast (bp_length p)) ms) = Some plan"
    using Cons.prems(1) by (simp split: if_splits)
  then show ?case using Cons.IH note_mapping_base[OF Cons.prems(2)] by blast
qed simp

lemma regions_unmapped: "\<forall>m\<in>set ms. map_base m = 0 \<Longrightarrow> regions ms = {#}"
  by (induction ms) (auto simp: is_mapped_def)

lemma mapAll_live:
  assumes laws: "mapping_laws mmap munmap held"
  shows "mapAll mmap fin ms k = (r, k') \<Longrightarrow> \<forall>m\<in>set ms. map_base m = 0 \<Longrightarrow>
    held k' + regions fin = held k + regions (case r of Inl x \<Rightarrow> x | Inr x \<Rightarrow> x)"
proof (induction ms arbitrary: fin k)
  case (Cons m ms)
  obtain p k1 where call: "mmap k (map_fd m) (map_length m) = (p, k1)" by force
  note law = laws[unfolded mapping_laws_def, THEN conjunct1, rule_format, OF call]
  show ?case
  proof (cases "p = MAP_FAILED")
    case True
    then show ?thesis using Cons.prems call law by (auto simp: regions_unmapped is_mapped_def)
  next
    case False
    then have rest: "mapAll mmap (fin @ [m\<lparr>map_base := p\<rparr>]) ms k1 = (r, k')" and new: "p \<noteq> 0" "held k1 = add_mset (p, map_length m) (held k)"
      using Cons.prems call law by auto
    have "held k' + regions (fin @ [m\<lparr>map_base := p\<rparr>]) = held k1 + regions (case r of Inl x \<Rightarrow> x | Inr x \<Rightarrow> x)"
      using Cons.IH[OF rest] Cons.prems(2) by simp
    then show ?thesis using new False by (simp add: is_mapped_def)
  qed
qed auto

lemma unmapEach_live:
  assumes laws: "mapping_laws mmap munmap held"
  shows "regions ms \<subseteq># held k \<Longrightarrow> held (unmapEach munmap ms k) = held k - regions ms"
proof (induction ms arbitrary: k)
  case (Cons m ms)
  show ?case
  proof (cases "is_mapped m")
    case True
    let ?k = "munmap k (map_base m) (map_length m)"
    have "(map_base m, map_length m) \<in># held k" using Cons.prems True by (auto dest: mset_subset_eqD)
    then have k: "held ?k = held k - {#(map_base m, map_length m)#}" using laws by (auto simp: mapping_laws_def)
    have "regions ms \<subseteq># held ?k" using Cons.prems True k by (auto simp: insert_subset_eq_iff)
    then show ?thesis using Cons.IH[of ?k] True k by (simp add: unmapEach_def is_mapped_def)
  next
    case False
    then show ?thesis using Cons by (auto simp: unmapEach_def is_mapped_def)
  qed
qed (simp add: unmapEach_def)

lemma mapBuffers_live:
  assumes laws: "mapping_laws mmap munmap held"
  shows "mapBuffers mmap munmap bufs t k = (ok, t', k') \<Longrightarrow> distinct (map fst bufs) \<Longrightarrow> set (map fst bufs) \<inter> dom t = {} \<Longrightarrow>
    finite (dom t) \<Longrightarrow>
    finite (dom t') \<and> held k' + table_regions t = held k + table_regions t' \<and> (ok \<longrightarrow> dom t' = dom t \<union> set (map fst bufs))"
proof (induction bufs arbitrary: t k)
  case (Cons x bufs)
  obtain b fb where x: "x = (b, fb)" by force
  have fresh: "b \<notin> dom t" using Cons.prems(3) x by auto
  show ?case
  proof (cases "planMappings (fb_planes fb) []")
    case None
    then show ?thesis using Cons.prems x by simp
  next
    case (Some plan)
    then have base: "\<forall>m\<in>set plan. map_base m = 0" by (rule planMappings_base) simp
    obtain r k1 where all: "mapAll mmap [] plan k = (r, k1)" by force
    have k1: "held k1 = held k + regions (case r of Inl x \<Rightarrow> x | Inr x \<Rightarrow> x)" using mapAll_live[OF laws all base] by simp
    show ?thesis
    proof (cases r)
      case (Inl ms)
      have "held (unmapEach munmap ms k1) = held k" using unmapEach_live[OF laws, of ms k1] k1 Inl by simp
      then show ?thesis using Cons.prems x Some all Inl by auto
    next
      case (Inr ms)
      have rest: "mapBuffers mmap munmap bufs (t(b \<mapsto> ms)) k1 = (ok, t', k')" using Cons.prems(1) x Some all Inr fresh by simp
      have dom: "dom (t(b \<mapsto> ms)) = insert b (dom t)" by auto
      have "finite (dom t') \<and> held k' + table_regions (t(b \<mapsto> ms)) = held k1 + table_regions t'
          \<and> (ok \<longrightarrow> dom t' = dom (t(b \<mapsto> ms)) \<union> set (map fst bufs))"
        by (rule Cons.IH[OF rest], unfold dom) (use Cons.prems x in auto)
      then show ?thesis using k1 Inr x Cons.prems(4) fresh by (auto simp: table_regions_insert ac_simps)
    qed
  qed
qed auto

lemma unmapBuffers_live:
  assumes laws: "mapping_laws mmap munmap held"
  shows "distinct order \<Longrightarrow> (\<Sum>b\<in>set order. regions (the (t b))) \<subseteq># held k \<Longrightarrow>
    held (unmapBuffers munmap (entries order t) k) = held k - (\<Sum>b\<in>set order. regions (the (t b)))"
proof (induction order arbitrary: k)
  case (Cons b order)
  let ?k = "unmapEach munmap (the (t b)) k"
  have sum: "(\<Sum>b\<in>set (b # order). regions (the (t b))) = regions (the (t b)) + (\<Sum>b\<in>set order. regions (the (t b)))"
    using Cons.prems(1) by simp
  then obtain C where C: "held k = regions (the (t b)) + (\<Sum>b\<in>set order. regions (the (t b))) + C"
    using Cons.prems(2) by (metis subset_mset.less_eqE)
  then have k: "held ?k = (\<Sum>b\<in>set order. regions (the (t b))) + C" using unmapEach_live[OF laws, of "the (t b)" k] by simp
  then have "held (unmapBuffers munmap (entries order t) ?k) = C" using Cons.IH[of ?k] Cons.prems(1) by simp
  then show ?case using C sum by (simp add: unmapBuffers_def entries_def)
qed (simp add: unmapBuffers_def entries_def)

section \<open>Set-up and destruction\<close>

lemma log_call_fields [simp]:
  "su_main_mappings (log_call c s) = su_main_mappings s" "su_lores_mappings (log_call c s) = su_lores_mappings s"
  "su_requests (log_call c s) = su_requests s" "su_log (log_call c s) = su_log s @ [c]"
  "su_camera (log_call c s) = su_camera s" "su_manager (log_call c s) = su_manager s"
  "su_main_layout (log_call c s) = su_main_layout s" "su_lores_layout (log_call c s) = su_lores_layout s"
  by (simp_all add: log_call_def)

definition configured :: "app_config \<Rightarrow> libcamera \<Rightarrow> stream_config \<Rightarrow> stream_config \<Rightarrow> bool" where
  "configured config lc main lores \<longleftrightarrow>
     exact_stream (cfg_main_width config) (cfg_main_height config) main
     \<and> exact_stream (cfg_lores_width config) (cfg_lores_height config) lores \<and> lc_configure lc main lores"

lemma configureStreams_spec:
  assumes "configureStreams lc config s = (ok, s')"
  shows "su_main_mappings s' = su_main_mappings s" "su_lores_mappings s' = su_lores_mappings s"
    "su_requests s' = su_requests s" "su_camera s' = su_camera s" "su_manager s' = su_manager s"
    "ok \<Longrightarrow> \<exists>main lores. configured config lc main lores \<and> su_log s' = su_log s @ [Configure main lores]
        \<and> su_main_layout s' = set_layout main (su_main_layout s) \<and> su_lores_layout s' = set_layout lores (su_lores_layout s)"
    "\<exists>cs. su_log s' = su_log s @ cs \<and> (\<forall>i. Acquire i \<notin> set cs)"
  using assms
  by (auto simp: configureStreams_def configured_def Let_def split: option.splits list.splits prod.splits if_splits)

lemma allocateBuffers_spec:
  assumes laws: "mapping_laws mmap munmap held"
    and "distinct (map fst (lc_main_buffers lc))" "distinct (map fst (lc_lores_buffers lc))"
    and "su_main_mappings s = Map.empty" "su_lores_mappings s = Map.empty"
    and call: "allocateBuffers mmap munmap lc s k = (ok, s', k')"
  shows "finite (dom (su_main_mappings s'))" "finite (dom (su_lores_mappings s'))"
    "held k' = held k + table_regions (su_main_mappings s') + table_regions (su_lores_mappings s')"
    "su_requests s' = su_requests s" "su_camera s' = su_camera s" "su_manager s' = su_manager s" "su_log s' = su_log s"
    "ok \<Longrightarrow> dom (su_main_mappings s') = set (map fst (lc_main_buffers lc))
        \<and> dom (su_lores_mappings s') = set (map fst (lc_lores_buffers lc))
        \<and> su_main_layout s' = first_planes (lc_main_buffers lc) (su_main_layout s) (su_main_mappings s')
        \<and> su_lores_layout s' = first_planes (lc_lores_buffers lc) (su_lores_layout s) (su_lores_mappings s')"
proof -
  obtain a t1 k1 where m1: "mapBuffers mmap munmap (lc_main_buffers lc) Map.empty k = (a, t1, k1)"
    by (cases "mapBuffers mmap munmap (lc_main_buffers lc) Map.empty k") auto
  obtain b t2 k2 where m2: "mapBuffers mmap munmap (lc_lores_buffers lc) Map.empty k1 = (b, t2, k2)"
    by (cases "mapBuffers mmap munmap (lc_lores_buffers lc) Map.empty k1") auto
  have l1: "finite (dom t1)" "held k1 = held k + table_regions t1" "a \<longrightarrow> dom t1 = set (map fst (lc_main_buffers lc))"
    using mapBuffers_live[OF laws m1] assms(2) by simp_all
  have l2: "finite (dom t2)" "held k2 = held k1 + table_regions t2" "b \<longrightarrow> dom t2 = set (map fst (lc_lores_buffers lc))"
    using mapBuffers_live[OF laws m2] assms(3) by simp_all
  note cases = call assms(4,5) m1 m2 l1 l2
  show "finite (dom (su_main_mappings s'))" "finite (dom (su_lores_mappings s'))"
    "held k' = held k + table_regions (su_main_mappings s') + table_regions (su_lores_mappings s')"
    "su_requests s' = su_requests s" "su_camera s' = su_camera s" "su_manager s' = su_manager s" "su_log s' = su_log s"
    using cases by (auto simp: allocateBuffers_def Let_def split: if_splits)
  show "dom (su_main_mappings s') = set (map fst (lc_main_buffers lc))
        \<and> dom (su_lores_mappings s') = set (map fst (lc_lores_buffers lc))
        \<and> su_main_layout s' = first_planes (lc_main_buffers lc) (su_main_layout s) (su_main_mappings s')
        \<and> su_lores_layout s' = first_planes (lc_lores_buffers lc) (su_lores_layout s) (su_lores_mappings s')" if ok
    using cases that by (clarsimp simp: allocateBuffers_def Let_def split: if_splits)
qed

lemma build_requests_spec:
  assumes "build_requests lc s = (ok, s')"
  shows "\<exists>rs. s' = s\<lparr>su_requests := su_requests s @ rs\<rparr>
      \<and> (ok \<longrightarrow> rs = [0..<min (length (lc_main_buffers lc)) (length (lc_lores_buffers lc))] \<and> 4 \<le> length rs)"
  using assms by (auto simp: build_requests_def createRequests_def Let_def split: if_splits intro: exI[of _ "[]"])

text \<open>The state after a first \<open>initialize\<close>: what it left mapped is in its tables, and its log.\<close>

definition setup_ok :: "libcamera \<Rightarrow> app_config \<Rightarrow> camera_setup \<Rightarrow> bool" where
  "setup_ok lc config s \<longleftrightarrow>
     (\<exists>i main lores n. configured config lc main lores \<and> n = min (length (lc_main_buffers lc)) (length (lc_lores_buffers lc)) \<and> 4 \<le> n
        \<and> su_initialized s \<and> su_log s = [ManagerStart, Acquire i, Configure main lores] \<and> su_requests s = [0..<n]
        \<and> dom (su_main_mappings s) = set (map fst (lc_main_buffers lc))
        \<and> dom (su_lores_mappings s) = set (map fst (lc_lores_buffers lc))
        \<and> su_main_layout s = makeView (fst (hd (lc_main_buffers lc))) (snd (hd (lc_main_buffers lc)))
            (set_layout main empty_layout) (su_main_mappings s)
        \<and> su_lores_layout s = makeView (fst (hd (lc_lores_buffers lc))) (snd (hd (lc_lores_buffers lc)))
            (set_layout lores empty_layout) (su_lores_mappings s))"

lemma first_planes_view: "bufs \<noteq> [] \<Longrightarrow> first_planes bufs layout table = makeView (fst (hd bufs)) (snd (hd bufs)) layout table"
  by (cases bufs; cases "hd bufs") (simp_all add: first_planes_def makeView_def)

lemma initialize_spec:
  assumes laws: "mapping_laws mmap munmap held"
    and ids: "distinct (map fst (lc_main_buffers lc))" "distinct (map fst (lc_lores_buffers lc))"
    and call: "cam_initialize mmap munmap lc config setup_new k = (ok, s, k')"
  shows "finite (dom (su_main_mappings s)) \<and> finite (dom (su_lores_mappings s))
    \<and> held k' = held k + table_regions (su_main_mappings s) + table_regions (su_lores_mappings s)
    \<and> su_manager s \<and> (case su_camera s of None \<Rightarrow> \<forall>i. Acquire i \<notin> set (su_log s) | Some i \<Rightarrow> Acquire i \<in> set (su_log s))
    \<and> (ok \<longrightarrow> setup_ok lc config s)"
proof -
  let ?s0 = "log_call ManagerStart (setup_new\<lparr>su_manager := True\<rparr>)"
  have s0: "su_main_mappings ?s0 = Map.empty" "su_lores_mappings ?s0 = Map.empty" "su_requests ?s0 = []" "su_camera ?s0 = None"
    "su_manager ?s0" "su_log ?s0 = [ManagerStart]" "su_main_layout ?s0 = empty_layout" "su_lores_layout ?s0 = empty_layout"
    "\<not> su_initialized setup_new"
    by (simp_all add: setup_new_def)
  show ?thesis
  proof (cases "lc_manager_start lc \<and> lc_cameras lc \<noteq> []")
    case False
    then have "s = ?s0" "k' = k" "\<not> ok" using call s0(9) by (auto simp: cam_initialize_def Let_def split: list.splits)
    then show ?thesis using s0 by simp
  next
    case True
    then obtain i rest where i: "lc_manager_start lc" "lc_cameras lc = i # rest" by (auto simp: neq_Nil_conv)
    let ?s1 = "log_call (Acquire i) (?s0\<lparr>su_camera := Some i\<rparr>)"
    obtain c s2 where conf: "configureStreams lc config ?s1 = (c, s2)" by force
    obtain a s3 k3 where alloc: "allocateBuffers mmap munmap lc s2 k = (a, s3, k3)" by (cases "allocateBuffers mmap munmap lc s2 k") auto
    obtain b s4 where req: "build_requests lc s3 = (b, s4)" by force
    note C = configureStreams_spec[OF conf]
    have e2: "su_main_mappings s2 = Map.empty" "su_lores_mappings s2 = Map.empty" using C s0 by simp_all
    note A = allocateBuffers_spec[OF laws ids e2 alloc]
    note R = build_requests_spec[OF req]
    have s1: "su_log ?s1 = [ManagerStart, Acquire i]" "su_camera ?s1 = Some i" "su_manager ?s1" "su_requests ?s1 = []"
      "su_main_layout ?s1 = empty_layout" "su_lores_layout ?s1 = empty_layout"
      "su_main_mappings ?s1 = Map.empty" "su_lores_mappings ?s1 = Map.empty"
      using s0 by simp_all
    obtain cs where cs: "su_log s2 = [ManagerStart, Acquire i] @ cs" using C(7) s1 by auto
    have held: "finite (dom (su_main_mappings x)) \<and> finite (dom (su_lores_mappings x))
        \<and> held kx = held k + table_regions (su_main_mappings x) + table_regions (su_lores_mappings x)"
      if "x = ?s1 \<and> kx = k \<or> x = s2 \<and> kx = k \<or> x = s3 \<and> kx = k3 \<or> x = s4 \<and> kx = k3" for x kx
      using that A(1,2,3) R e2 s1 by auto
    have lib: "su_manager x \<and> su_camera x = Some i \<and> Acquire i \<in> set (su_log x)"
      if "x = ?s1 \<or> x = s2 \<or> x = s3 \<or> x = s4" for x
      using that s1 C(4,5) cs A(5,6,7) R by auto
    have res: "(ok, s, k') = (if \<not> lc_acquire lc i then (False, ?s1, k) else if \<not> c then (False, s2, k)
        else if \<not> a then (False, s3, k3) else if \<not> b then (False, s4, k3) else (True, s4\<lparr>su_initialized := True\<rparr>, k3))"
      using call i conf alloc req s0(9)
      by (cases "lc_acquire lc i"; cases c; cases a; cases b) (simp_all add: cam_initialize_def Let_def)
    have good: "setup_ok lc config (s4\<lparr>su_initialized := True\<rparr>)" if made: c a b
    proof -
      let ?n = "min (length (lc_main_buffers lc)) (length (lc_lores_buffers lc))"
      obtain main lores where conf: "configured config lc main lores" "su_log s2 = [ManagerStart, Acquire i, Configure main lores]"
        "su_main_layout s2 = set_layout main empty_layout" "su_lores_layout s2 = set_layout lores empty_layout"
        using C(6)[OF made(1)] s1 by auto
      have s4: "s4 = s3\<lparr>su_requests := [0..<?n]\<rparr>" and n: "4 \<le> ?n" using R made(3) A(4) C(3) s1(4) by auto
      then have "lc_main_buffers lc \<noteq> []" "lc_lores_buffers lc \<noteq> []" by auto
      note views = this[THEN first_planes_view]
      show ?thesis unfolding setup_ok_def
        by (rule exI[of _ i], rule exI[of _ main], rule exI[of _ lores], rule exI[of _ ?n])
          (use conf n A(7) A(8)[OF made(2)] in \<open>simp add: s4 views\<close>)
    qed
    have "\<exists>x. (x = ?s1 \<and> k' = k \<or> x = s2 \<and> k' = k \<or> x = s3 \<and> k' = k3 \<or> x = s4 \<and> k' = k3)
        \<and> (s = x \<or> s = x\<lparr>su_initialized := True\<rparr>) \<and> (ok \<longrightarrow> c \<and> a \<and> b \<and> s = s4\<lparr>su_initialized := True\<rparr>)"
      using res
      by (intro exI[of _ "if \<not> lc_acquire lc i then ?s1 else if \<not> c then s2 else if \<not> a then s3 else s4"])
        (cases "lc_acquire lc i"; cases c; cases a; cases b; simp)
    then obtain x where x: "x = ?s1 \<and> k' = k \<or> x = s2 \<and> k' = k \<or> x = s3 \<and> k' = k3 \<or> x = s4 \<and> k' = k3"
      "s = x \<or> s = x\<lparr>su_initialized := True\<rparr>" "ok \<longrightarrow> c \<and> a \<and> b \<and> s = s4\<lparr>su_initialized := True\<rparr>" by blast
    have "su_manager x \<and> su_camera x = Some i \<and> Acquire i \<in> set (su_log x)" by (rule lib) (use x(1) in blast)
    moreover have "ok \<longrightarrow> setup_ok lc config s" using x(3) good by simp
    ultimately show ?thesis using held[OF x(1)] x(2) by (elim disjE) simp_all
  qed
qed

lemma destroy_held:
  assumes laws: "mapping_laws mmap munmap held"
    and order: "distinct main_order" "set main_order = dom (su_main_mappings s)"
      "distinct lores_order" "set lores_order = dom (su_lores_mappings s)"
    and k: "held k = base + table_regions (su_main_mappings s) + table_regions (su_lores_mappings s)"
  shows "held (snd (cam_destroy munmap main_order lores_order s k)) = base"
proof -
  let ?k1 = "unmapBuffers munmap (entries main_order (su_main_mappings s)) k"
  have "held ?k1 = held k - table_regions (su_main_mappings s)"
    using unmapBuffers_live[OF laws order(1)] order(2) k by (simp add: table_regions_def)
  then have "held ?k1 = base + table_regions (su_lores_mappings s)" using k by simp
  moreover from this have "held (unmapBuffers munmap (entries lores_order (su_lores_mappings s)) ?k1)
      = held ?k1 - table_regions (su_lores_mappings s)"
    using unmapBuffers_live[OF laws order(3)] order(4) by (simp add: table_regions_def)
  ultimately show ?thesis by (simp add: cam_destroy_def Let_def)
qed

text \<open>
  C22. Setting up the camera. When \<open>initialize\<close> succeeds, the configuration given to the camera has both
  streams in YUV420 at exactly the configured sizes, whatever libcamera adjusted; the layouts have these
  sizes with the stride and the frame size libcamera chose and the planes of the first buffer; the tables
  have one entry per buffer; and there are at least four requests, one per pair of buffers. Whether it
  succeeds or fails at any point, the destructor then unmaps everything that was mapped and nothing else,
  in whatever order the tables are traversed, stops the manager, and releases the camera if one was chosen.
\<close>

theorem camera_setup_contract:
  assumes "mapping_laws mmap munmap held"
    and "distinct (map fst (lc_main_buffers lc))" "distinct (map fst (lc_lores_buffers lc))"
    and "cam_initialize mmap munmap lc config setup_new k = (ok, s, k')"
    and "distinct main_order" "set main_order = dom (su_main_mappings s)"
    and "distinct lores_order" "set lores_order = dom (su_lores_mappings s)"
  shows "(ok \<longrightarrow> setup_ok lc config s)
    \<and> held (snd (cam_destroy munmap main_order lores_order s k')) = held k
    \<and> su_log (fst (cam_destroy munmap main_order lores_order s k')) =
        su_log s @ (case su_camera s of None \<Rightarrow> [] | Some i \<Rightarrow> [Release i]) @ [ManagerStop]
    \<and> (case su_camera s of None \<Rightarrow> \<forall>i. Acquire i \<notin> set (su_log s) | Some i \<Rightarrow> Acquire i \<in> set (su_log s))"
proof -
  note init = initialize_spec[OF assms(1-4)]
  have "held (snd (cam_destroy munmap main_order lores_order s k')) = held k"
    using destroy_held[OF assms(1,5-8)] init by blast
  then show ?thesis using init by (auto simp: cam_destroy_def Let_def log_call_def split: option.splits)
qed

text \<open>A camera with a low-resolution buffer that cannot be mapped: \<open>initialize\<close> fails with two mappings made.\<close>

definition sample_mmap :: "ptr \<times> (ptr \<times> u64) multiset \<Rightarrow> int \<Rightarrow> u64 \<Rightarrow> ptr \<times> ptr \<times> (ptr \<times> u64) multiset" where
  "sample_mmap k fd n =
     (if fst k < 2 then (fst k + 1, fst k + 1, add_mset (fst k + 1, n) (snd k)) else (MAP_FAILED, k))"

definition sample_munmap :: "ptr \<times> (ptr \<times> u64) multiset \<Rightarrow> ptr \<Rightarrow> u64 \<Rightarrow> ptr \<times> (ptr \<times> u64) multiset" where
  "sample_munmap k p n = (fst k, snd k - {#(p, n)#})"

definition sample_stream :: stream_config where
  "sample_stream = \<lparr>sc_format = OtherFormat 1, sc_width = 1, sc_height = 1, sc_buffer_count = 1, sc_stride = 1, sc_frame_size = 1\<rparr>"

definition sample_libcamera :: libcamera where
  "sample_libcamera = \<lparr>lc_manager_start = True, lc_cameras = [''imx''], lc_acquire = (\<lambda>i. True),
     lc_generate = Some [sample_stream, sample_stream],
     lc_validate = (\<lambda>a b. (ConfigAdjusted, a\<lparr>sc_stride := 2048\<rparr>, b)), lc_configure = (\<lambda>a b. True), lc_allocate_main = True,
     lc_allocate_lores = True, lc_main_buffers = [(0, sample_buffer), (1, sample_buffer)],
     lc_lores_buffers = [(5, sample_buffer)], lc_build = (\<lambda>i. True)\<rparr>"

lemma sample_laws: "mapping_laws sample_mmap sample_munmap snd"
proof -
  have "(p + 1 :: ptr) \<noteq> 0 \<and> p + 1 \<noteq> MAP_FAILED" if "p < 2" for p
  proof -
    have "p = 0 \<or> p = 1" using that by (auto simp: word_less_nat_alt word_unat_eq_iff)
    then show ?thesis by (auto simp: MAP_FAILED_def)
  qed
  then show ?thesis by (auto simp: mapping_laws_def sample_mmap_def sample_munmap_def)
qed

definition sample_plan :: "ptr \<Rightarrow> mapping list" where
  "sample_plan p = [\<lparr>map_fd = 5, map_base = p, map_length = 12\<rparr>]"

lemma sample_plans: "planMappings (fb_planes sample_buffer) [] = Some (sample_plan 0)"
  by (simp add: sample_buffer_def sample_plan_def max_def word_le_iff_unat)

lemma sample_maps:
  "mapBuffers sample_mmap sample_munmap [(0, sample_buffer), (1, sample_buffer)] Map.empty (0, {#})
     = (True, [0 \<mapsto> sample_plan 1, 1 \<mapsto> sample_plan 2], 2, {#(2, 12), (1, 12)#})"
  "mapBuffers sample_mmap sample_munmap [(5, sample_buffer)] Map.empty (2, {#(2, 12), (1, 12)#})
     = (False, Map.empty, 2, {#(2, 12), (1, 12)#})"
  by (simp_all add: sample_plans sample_plan_def sample_mmap_def MAP_FAILED_def unmapEach_def)

lemma sample_setup:
  "\<exists>s. cam_initialize sample_mmap sample_munmap sample_libcamera default_config setup_new (0, {#})
       = (False, s, 2, {#(2, 12), (1, 12)#})
     \<and> dom (su_main_mappings s) = {0, 1} \<and> dom (su_lores_mappings s) = {}"
  using sample_maps
  by (simp add: cam_initialize_def sample_libcamera_def setup_new_def configureStreams_def allocateBuffers_def Let_def
      request_stream_def exact_stream_def log_call_def insert_commute del: mapBuffers.simps)

theorem camera_setup_contract_witness:
  "\<exists>s. cam_initialize sample_mmap sample_munmap sample_libcamera default_config setup_new (0, {#})
       = (False, s, 2, {#(2, 12), (1, 12)#})
     \<and> snd (snd (cam_destroy sample_munmap [1, 0] [] s (2, {#(2, 12), (1, 12)#}))) = {#}"
proof -
  obtain s where c: "cam_initialize sample_mmap sample_munmap sample_libcamera default_config setup_new (0, {#})
      = (False, s, 2, {#(2, 12), (1, 12)#})" "dom (su_main_mappings s) = {0, 1}" "dom (su_lores_mappings s) = {}"
    using sample_setup by blast
  have "snd (snd (cam_destroy sample_munmap [1, 0] [] s (2, {#(2, 12), (1, 12)#}))) = snd (0 :: ptr, {#} :: (ptr \<times> u64) multiset)"
    using camera_setup_contract[OF sample_laws _ _ c(1), of "[1, 0]" "[]"] c(2,3) by (simp add: sample_libcamera_def insert_commute)
  then show ?thesis using c(1) by auto
qed

end
