(* ===== verification/Latest_Queue.thy ===== *)
theory Latest_Queue
  imports Egg_Prelude "HOL-Library.Sublist"
begin

text \<open>
  \<open>LatestFrameQueue<T>\<close> (\<open>include/eggvision/latest_frame_queue.hpp\<close>): the mutex-protected queue of
  capacity one that hands frames to the encoder and to the inference worker and access units to
  the RTSP feeder. Every member function runs under the queue's mutex, so each is one atomic
  operation on the pair of fields; \<open>waitPop\<close> reports \<open>PopBlocked\<close> in exactly the states in
  which the condition variable keeps the caller asleep.

  The locale \<open>mailbox\<close> is the contract its three clients rely on, interpreted below on the
  operations; the last section runs arbitrary interleavings of operations and shows that nothing
  is duplicated, reordered or lost without being reported.
\<close>

section \<open>The queue\<close>

record 'a latest_queue =
  slot :: "'a option"
  closed :: bool

datatype 'a pop_result = PopBlocked | PopClosed | Popped 'a

definition lq_init :: "'a latest_queue" where
  "lq_init = \<lparr>slot = None, closed = False\<rparr>"

definition lq_push :: "'a \<Rightarrow> 'a latest_queue \<Rightarrow> bool \<times> 'a latest_queue" where
  "lq_push v q =
     (if closed q then (False, q)
      else (slot q \<noteq> None, q\<lparr>slot := Some v\<rparr>))"

definition lq_waitPop :: "'a latest_queue \<Rightarrow> 'a pop_result \<times> 'a latest_queue" where
  "lq_waitPop q =
     (if \<not> (closed q \<or> slot q \<noteq> None) then (PopBlocked, q)
      else case slot q of
             None \<Rightarrow> (PopClosed, q)
           | Some v \<Rightarrow> (Popped v, q\<lparr>slot := None\<rparr>))"

definition lq_clear :: "'a latest_queue \<Rightarrow> 'a latest_queue" where
  "lq_clear q = q\<lparr>slot := None\<rparr>"

definition lq_close :: "'a latest_queue \<Rightarrow> 'a latest_queue" where
  "lq_close q = q\<lparr>closed := True, slot := None\<rparr>"

definition lq_reopen :: "'a latest_queue \<Rightarrow> 'a latest_queue" where
  "lq_reopen q = q\<lparr>slot := None, closed := False\<rparr>"

text \<open>A closed queue holds nothing.\<close>

definition lq_invar :: "'a latest_queue \<Rightarrow> bool" where
  "lq_invar q \<longleftrightarrow> (closed q \<longrightarrow> slot q = None)"

lemmas lq_defs = lq_init_def lq_push_def lq_waitPop_def lq_clear_def lq_close_def lq_reopen_def
  lq_invar_def

section \<open>The contract of the clients\<close>

locale mailbox =
  fixes fresh :: "'q"
    and put :: "'a \<Rightarrow> 'q \<Rightarrow> bool \<times> 'q"
    and take_next :: "'q \<Rightarrow> 'a pop_result \<times> 'q"
    and drop_all :: "'q \<Rightarrow> 'q"
    and shut :: "'q \<Rightarrow> 'q"
    and restart :: "'q \<Rightarrow> 'q"
    and pending :: "'q \<Rightarrow> 'a option"
    and is_shut :: "'q \<Rightarrow> bool"
    and invar :: "'q \<Rightarrow> bool"
  assumes fresh: "invar fresh" "pending fresh = None" "\<not> is_shut fresh"
    and put_open: "invar q \<Longrightarrow> \<not> is_shut q \<Longrightarrow>
          fst (put v q) = (pending q \<noteq> None) \<and> pending (snd (put v q)) = Some v
          \<and> \<not> is_shut (snd (put v q)) \<and> invar (snd (put v q))"
    and put_shut: "is_shut q \<Longrightarrow> put v q = (False, q)"
    and take_Some: "invar q \<Longrightarrow> pending q = Some v \<Longrightarrow>
          fst (take_next q) = Popped v \<and> pending (snd (take_next q)) = None
          \<and> is_shut (snd (take_next q)) = is_shut q \<and> invar (snd (take_next q))"
    and take_None: "pending q = None \<Longrightarrow>
          take_next q = (if is_shut q then PopClosed else PopBlocked, q)"
    and drop_all: "invar q \<Longrightarrow>
          pending (drop_all q) = None \<and> is_shut (drop_all q) = is_shut q \<and> invar (drop_all q)"
    and shut: "is_shut (shut q) \<and> pending (shut q) = None \<and> invar (shut q)"
    and restart: "\<not> is_shut (restart q) \<and> pending (restart q) = None \<and> invar (restart q)"
begin

text \<open>A consumer that takes after several puts sees the newest of them and only that one.\<close>

lemma take_newest:
  assumes "invar q" "\<not> is_shut q"
  shows "fst (take_next (snd (put v (snd (put u q))))) = Popped v"
    and "fst (put v (snd (put u q)))"
proof -
  from put_open[OF assms, of u] have u: "invar (snd (put u q))" "\<not> is_shut (snd (put u q))"
      "pending (snd (put u q)) = Some u"
    by auto
  from put_open[OF u(1,2), of v] show "fst (put v (snd (put u q)))"
    by (simp add: u(3))
  from put_open[OF u(1,2), of v] show "fst (take_next (snd (put v (snd (put u q))))) = Popped v"
    by (simp add: take_Some)
qed

text \<open>Shutting the mailbox releases every blocked consumer and refuses every later put.\<close>

lemma shut_releases: "fst (take_next (shut q)) = PopClosed"
  using shut[of q] by (simp add: take_None)

lemma shut_refuses: "put v (shut q) = (False, shut q)"
  using shut[of q] by (simp add: put_shut)

text \<open>No item crosses a restart: the first take of the new epoch blocks until a new put.\<close>

lemma restart_isolates: "fst (take_next (restart q)) = PopBlocked"
  using restart[of q] by (simp add: take_None)

lemma restart_put_take: "fst (take_next (snd (put v (restart q)))) = Popped v"
  using restart[of q] put_open[of "restart q" v] take_Some by blast

end

interpretation lq: mailbox lq_init lq_push lq_waitPop lq_clear lq_close lq_reopen slot closed lq_invar
  by unfold_locales (auto simp: lq_defs)

section \<open>Arbitrary interleavings of producers and consumers\<close>

text \<open>
  Because every operation holds the mutex, an execution with any number of producer, consumer
  and lifecycle threads is a sequence of operations. \<open>lq_log\<close> records, beside the queue, the
  items accepted by \<open>push\<close>, the items handed to consumers, the number of overwrites reported by
  the return of \<open>push\<close>, and the number of items discarded by \<open>clear\<close>, \<open>close\<close> and \<open>reopen\<close>.
\<close>

datatype 'a lq_op = OpPush 'a | OpWaitPop | OpClear | OpClose | OpReopen

record 'a lq_log =
  lq_state :: "'a latest_queue"
  accepted :: "'a list"
  delivered :: "'a list"
  overwrites :: nat
  discards :: nat

definition held :: "'a latest_queue \<Rightarrow> nat" where
  "held q = (case slot q of None \<Rightarrow> 0 | Some _ \<Rightarrow> 1)"

fun lq_step :: "'a lq_op \<Rightarrow> 'a lq_log \<Rightarrow> 'a lq_log" where
  "lq_step (OpPush v) s =
     (let (replaced, q') = lq_push v (lq_state s)
      in s\<lparr>lq_state := q',
           accepted := (if closed (lq_state s) then accepted s else accepted s @ [v]),
           overwrites := (if replaced then Suc (overwrites s) else overwrites s)\<rparr>)"
| "lq_step OpWaitPop s =
     (let (r, q') = lq_waitPop (lq_state s)
      in s\<lparr>lq_state := q',
           delivered := (case r of Popped v \<Rightarrow> delivered s @ [v] | _ \<Rightarrow> delivered s)\<rparr>)"
| "lq_step OpClear s =
     s\<lparr>lq_state := lq_clear (lq_state s), discards := discards s + held (lq_state s)\<rparr>"
| "lq_step OpClose s =
     s\<lparr>lq_state := lq_close (lq_state s), discards := discards s + held (lq_state s)\<rparr>"
| "lq_step OpReopen s =
     s\<lparr>lq_state := lq_reopen (lq_state s), discards := discards s + held (lq_state s)\<rparr>"

definition lq_start :: "'a lq_log" where
  "lq_start = \<lparr>lq_state = lq_init, accepted = [], delivered = [], overwrites = 0, discards = 0\<rparr>"

definition lq_run :: "'a lq_op list \<Rightarrow> 'a lq_log" where
  "lq_run ops = fold lq_step ops lq_start"

text \<open>
  The log invariant: a pending item is the last accepted one and was accepted after everything
  delivered so far, and every accepted item is accounted for.
\<close>

definition lq_log_inv :: "'a lq_log \<Rightarrow> bool" where
  "lq_log_inv s \<longleftrightarrow>
     lq_invar (lq_state s)
     \<and> length (accepted s) =
         length (delivered s) + overwrites s + discards s + held (lq_state s)
     \<and> (\<exists>old. accepted s = old @ (case slot (lq_state s) of None \<Rightarrow> [] | Some v \<Rightarrow> [v])
              \<and> subseq (delivered s) old)"

lemma subseq_snoc_ignore: "subseq xs ys \<Longrightarrow> subseq xs (ys @ [y])"
  by (simp add: subseq_rev_drop_many)

lemma subseq_snoc_both: "subseq xs ys \<Longrightarrow> subseq (xs @ [y]) (ys @ [y])"
  by simp

lemma lq_step_inv: "lq_log_inv s \<Longrightarrow> lq_log_inv (lq_step op s)"
proof (cases op)
  case (OpPush v)
  assume inv: "lq_log_inv s"
  then obtain old where
    old: "accepted s = old @ (case slot (lq_state s) of None \<Rightarrow> [] | Some v \<Rightarrow> [v])"
      "subseq (delivered s) old"
    by (auto simp: lq_log_inv_def)
  show ?thesis
  proof (cases "closed (lq_state s)")
    case True
    with inv OpPush show ?thesis by (simp add: lq_log_inv_def lq_push_def)
  next
    case False
    have "subseq (delivered s) (accepted s)"
      using old by (auto split: option.splits intro: subseq_snoc_ignore)
    with False inv OpPush show ?thesis
      by (auto simp: lq_log_inv_def lq_push_def lq_invar_def held_def split: option.splits)
  qed
next
  case OpWaitPop
  assume inv: "lq_log_inv s"
  with OpWaitPop show ?thesis
    by (auto simp: lq_log_inv_def lq_waitPop_def lq_invar_def held_def split: option.splits)
next
  case OpClear
  assume inv: "lq_log_inv s"
  with OpClear show ?thesis
    by (auto simp: lq_log_inv_def lq_clear_def lq_invar_def held_def split: option.splits
        intro: subseq_snoc_ignore)
next
  case OpClose
  assume inv: "lq_log_inv s"
  with OpClose show ?thesis
    by (auto simp: lq_log_inv_def lq_close_def lq_invar_def held_def split: option.splits
        intro: subseq_snoc_ignore)
next
  case OpReopen
  assume inv: "lq_log_inv s"
  with OpReopen show ?thesis
    by (auto simp: lq_log_inv_def lq_reopen_def lq_invar_def held_def split: option.splits
        intro: subseq_snoc_ignore)
qed

lemma lq_run_inv: "lq_log_inv (lq_run ops)"
proof -
  have "lq_log_inv s \<Longrightarrow> lq_log_inv (fold lq_step ops s)" for s :: "'a lq_log"
    by (induction ops arbitrary: s) (auto intro: lq_step_inv)
  moreover have "lq_log_inv (lq_start :: 'a lq_log)"
    by (simp add: lq_log_inv_def lq_start_def lq_init_def lq_invar_def held_def)
  ultimately show ?thesis by (simp add: lq_run_def)
qed

lemma lq_run_snoc: "lq_run (ops @ [op]) = lq_step op (lq_run ops)"
  by (simp add: lq_run_def)

text \<open>
  C5. For every interleaving of \<open>push\<close>, \<open>waitPop\<close>, \<open>clear\<close>, \<open>close\<close> and \<open>reopen\<close>: what the
  consumers received is a subsequence of what \<open>push\<close> accepted (no duplication, no reordering, no
  invented frame), and the accepted items are exactly the delivered ones, plus the overwrites
  that \<open>push\<close> reported through its return value, plus those discarded by a lifecycle operation,
  plus the one still held. So the drop counters fed by that return value are exact.
\<close>

theorem latest_queue_conservation:
  "subseq (delivered (lq_run ops)) (accepted (lq_run ops))
   \<and> length (accepted (lq_run ops)) =
       length (delivered (lq_run ops)) + overwrites (lq_run ops) + discards (lq_run ops)
       + held (lq_state (lq_run ops))"
proof -
  from lq_run_inv[of ops] obtain old where
    "accepted (lq_run ops) = old @ (case slot (lq_state (lq_run ops)) of None \<Rightarrow> [] | Some v \<Rightarrow> [v])"
    "subseq (delivered (lq_run ops)) old"
    by (auto simp: lq_log_inv_def)
  then have "subseq (delivered (lq_run ops)) (accepted (lq_run ops))"
    by (auto split: option.splits intro: subseq_snoc_ignore)
  with lq_run_inv[of ops] show ?thesis by (auto simp: lq_log_inv_def)
qed

text \<open>
  Freshness: when a consumer's \<open>waitPop\<close> returns an item, it is the item accepted most
  recently, whatever producers and lifecycle calls came before; a slow consumer never sees a
  stale frame.
\<close>

theorem latest_queue_fresh:
  assumes "fst (lq_waitPop (lq_state (lq_run ops))) = Popped v"
  shows "accepted (lq_run ops) \<noteq> [] \<and> v = last (accepted (lq_run ops))
         \<and> slot (lq_state (lq_run (ops @ [OpWaitPop]))) = None"
proof -
  from assms have "slot (lq_state (lq_run ops)) = Some v"
    by (auto simp: lq_waitPop_def split: if_splits option.splits)
  with lq_run_inv[of ops] show ?thesis
    by (auto simp: lq_log_inv_def lq_run_snoc lq_waitPop_def)
qed

theorem latest_queue_fresh_witness:
  "last (accepted (lq_run [OpPush (1::nat), OpPush 2])) = 2"
proof -
  have "fst (lq_waitPop (lq_state (lq_run [OpPush (1::nat), OpPush 2]))) = Popped 2"
    by (simp add: lq_run_def lq_start_def lq_defs)
  from latest_queue_fresh[OF this] show ?thesis by simp
qed

end
