(* ===== verification/H264_Bitstream.thy ===== *)
theory H264_Bitstream
  imports Egg_Prelude
begin

unbundle bit_operations_syntax

text \<open>
  \<open>inspectH264ByteStream\<close> (\<open>src/h264_bitstream.cpp\<close>): the Annex-B scan that decides whether an
  access unit carries an IDR slice, an SPS and a PPS. The pair \<open>(data, size)\<close> is an optional
  byte list (\<open>None\<close> for the null pointer); offsets are natural numbers because they never exceed
  the size of an existing array, which is below \<open>2 ^ 63\<close>.

  The specification side is the Annex-B syntax itself: a stream is the concatenation of NAL units,
  each a three- or four-byte start code, a header byte and a body in which emulation prevention
  keeps the start-code triple from occurring.
\<close>

section \<open>The scanner\<close>

record h264_nal_summary =
  has_idr :: bool
  nal_sps :: bool
  nal_pps :: bool

definition startCodeLength :: "u8 list \<Rightarrow> nat \<Rightarrow> nat" where
  "startCodeLength d offset =
     (if offset + 3 \<le> length d \<and> d ! offset = 0 \<and> d ! (offset + 1) = 0 \<and> d ! (offset + 2) = 1
      then 3
      else if offset + 4 \<le> length d \<and> d ! offset = 0 \<and> d ! (offset + 1) = 0
              \<and> d ! (offset + 2) = 0 \<and> d ! (offset + 3) = 1
      then 4
      else 0)"

definition note_nal :: "u8 \<Rightarrow> h264_nal_summary \<Rightarrow> h264_nal_summary" where
  "note_nal b s =
     (let type = b AND 0x1f
      in \<lparr>has_idr = (has_idr s \<or> type = 5),
          nal_sps = (nal_sps s \<or> type = 7),
          nal_pps = (nal_pps s \<or> type = 8)\<rparr>)"

function scan_nals :: "u8 list \<Rightarrow> nat \<Rightarrow> h264_nal_summary \<Rightarrow> h264_nal_summary" where
  "scan_nals d offset s =
     (if offset + 3 < length d then
        (let prefix = startCodeLength d offset
         in if prefix = 0 then scan_nals d (offset + 1) s
            else let header = offset + prefix
                 in if header \<ge> length d then s
                    else scan_nals d (header + 1) (note_nal (d ! header) s))
      else s)"
  by pat_completeness auto
termination
  by (relation "measure (\<lambda>(d, offset, s). length d - offset)") auto

declare scan_nals.simps [simp del]

definition no_nals :: h264_nal_summary where
  "no_nals = \<lparr>has_idr = False, nal_sps = False, nal_pps = False\<rparr>"

definition inspectH264ByteStream :: "u8 list option \<Rightarrow> h264_nal_summary" where
  "inspectH264ByteStream bytes =
     (case bytes of
        None \<Rightarrow> no_nals
      | Some d \<Rightarrow> if length d < 4 then no_nals else scan_nals d 0 no_nals)"

section \<open>Annex-B streams\<close>

record nal_unit =
  long_prefix :: bool
  nal_header :: u8
  nal_body :: "u8 list"

definition nal_bytes :: "nal_unit \<Rightarrow> u8 list" where
  "nal_bytes n = (if long_prefix n then [0, 0, 0, 1] else [0, 0, 1]) @ nal_header n # nal_body n"

definition annexb :: "nal_unit list \<Rightarrow> u8 list" where
  "annexb ns = concat (map nal_bytes ns)"

fun has_start_triple :: "u8 list \<Rightarrow> bool" where
  "has_start_triple (a # b # c # xs) \<longleftrightarrow>
     (a = 0 \<and> b = 0 \<and> c = 1) \<or> has_start_triple (b # c # xs)"
| "has_start_triple _ \<longleftrightarrow> False"

definition nal_type :: "nal_unit \<Rightarrow> u8" where
  "nal_type n = nal_header n AND 0x1f"

section \<open>The scan on suffixes\<close>

text \<open>The scan only looks at the bytes from its offset on.\<close>

function scan_list :: "u8 list \<Rightarrow> h264_nal_summary \<Rightarrow> h264_nal_summary" where
  "scan_list d s =
     (if 3 < length d then
        (let prefix = startCodeLength d 0
         in if prefix = 0 then scan_list (drop 1 d) s
            else if prefix \<ge> length d then s
            else scan_list (drop (Suc prefix) d) (note_nal (d ! prefix) s))
      else s)"
  by pat_completeness auto
termination
  by (relation "measure (\<lambda>(d, s). length d)") auto

declare scan_list.simps [simp del]

lemma startCodeLength_drop:
  "offset \<le> length d \<Longrightarrow> startCodeLength d offset = startCodeLength (drop offset d) 0"
  by (simp add: startCodeLength_def) linarith

lemma scan_nals_eq_list: "offset \<le> length d \<Longrightarrow> scan_nals d offset s = scan_list (drop offset d) s"
proof (induction d offset s rule: scan_nals.induct)
  case (1 d offset s)
  let ?p = "startCodeLength d offset"
  show ?case
  proof (cases "offset + 3 < length d")
    case False
    then show ?thesis by (simp add: scan_nals.simps[of d] scan_list.simps[of "drop offset d"])
  next
    case True
    have p: "startCodeLength (drop offset d) 0 = ?p"
      using True startCodeLength_drop[of offset d] by simp
    consider (none) "?p = 0" | (last) "?p \<noteq> 0" "offset + ?p \<ge> length d"
      | (found) "?p \<noteq> 0" "offset + ?p < length d" by linarith
    then show ?thesis
    proof cases
      case none
      have "scan_nals d (offset + 1) s = scan_list (drop (offset + 1) d) s"
        using 1(1)[OF True refl none] True by simp
      with none True have "scan_nals d offset s = scan_list (drop (offset + 1) d) s"
        by (subst scan_nals.simps) simp
      with none True show ?thesis
        by (subst scan_list.simps) (simp add: p)
    next
      case last
      with True have "scan_nals d offset s = s"
        by (subst scan_nals.simps) simp
      with last True show ?thesis
        by (subst scan_list.simps) (simp add: p Let_def)
    next
      case found
      have "scan_nals d (offset + ?p + 1) (note_nal (d ! (offset + ?p)) s)
          = scan_list (drop (offset + ?p + 1) d) (note_nal (d ! (offset + ?p)) s)"
        using 1(2)[OF True refl found(1) refl] found(2) by simp
      with found True have "scan_nals d offset s
          = scan_list (drop (offset + ?p + 1) d) (note_nal (d ! (offset + ?p)) s)"
        by (subst scan_nals.simps) (simp add: Let_def)
      with found True show ?thesis
        by (subst scan_list.simps) (simp add: p Let_def add.commute)
    qed
  qed
qed

lemma inspect_eq_scan_list: "inspectH264ByteStream (Some d) = scan_list d no_nals"
  by (simp add: inspectH264ByteStream_def scan_nals_eq_list scan_list.simps[of d])

subsection \<open>One step of the scan\<close>

lemma scan_list_skip:
  "startCodeLength (b # d) 0 = 0 \<Longrightarrow> 3 \<le> length d \<Longrightarrow> scan_list (b # d) s = scan_list d s"
  by (simp add: scan_list.simps[of "b # d"])

lemma scan_list_short: "length d < 4 \<Longrightarrow> scan_list d s = s"
  by (simp add: scan_list.simps)

lemma scan_list_nal: "scan_list (nal_bytes n @ rest) s
    = scan_list (nal_body n @ rest) (note_nal (nal_header n) s)"
  by (subst scan_list.simps) (simp add: nal_bytes_def startCodeLength_def)

lemma scan_list_zero_nal:
  "\<not> long_prefix n \<Longrightarrow> scan_list (0 # nal_bytes n @ rest) s = scan_list (nal_bytes n @ rest) s"
  by (subst scan_list.simps) (simp add: scan_list_nal, simp add: nal_bytes_def startCodeLength_def)

text \<open>Inside a body, and across its end into the next start code, no false start code appears.\<close>

lemma startCodeLength_body:
  assumes "\<not> has_start_triple (b # body)" "rest = [] \<or> (\<exists>n more. rest = nal_bytes n @ more)"
    and "\<not> (b = 0 \<and> body = [] \<and> (\<exists>n more. rest = nal_bytes n @ more \<and> \<not> long_prefix n))"
  shows "startCodeLength (b # body @ rest) 0 = 0"
proof -
  consider "body = []" | x where "body = [x]" | x y where "body = [x, y]"
    | x y z more where "body = x # y # z # more"
    by (metis list.exhaust)
  then show ?thesis
    using assms by cases (auto simp: startCodeLength_def nal_bytes_def nth_append split: if_splits)
qed

lemma scan_list_body:
  assumes "\<not> has_start_triple body" "rest = [] \<or> (\<exists>n more. rest = nal_bytes n @ more)"
  shows "scan_list (body @ rest) s = scan_list rest s"
  using assms
proof (induction body)
  case Nil
  then show ?case by simp
next
  case (Cons b body)
  have body: "\<not> has_start_triple body"
    using Cons.prems(1) by (cases body rule: has_start_triple.cases) (auto simp: neq_Nil_conv)
  note IH = Cons.IH[OF body Cons.prems(2)]
  show ?case
  proof (cases "b = 0 \<and> body = [] \<and> (\<exists>n more. rest = nal_bytes n @ more \<and> \<not> long_prefix n)")
    case True
    then show ?thesis by (auto simp: scan_list_zero_nal)
  next
    case False
    have skip: "startCodeLength (b # body @ rest) 0 = 0"
      using Cons.prems False by (rule startCodeLength_body)
    show ?thesis
    proof (cases "3 \<le> length (body @ rest)")
      case True
      with scan_list_skip[OF skip True, of s] IH show ?thesis by simp
    next
      case False
      then have "length rest < 3" by simp
      with Cons.prems(2) have "rest = []" by (auto simp: nal_bytes_def split: if_splits)
      with False show ?thesis by (simp add: scan_list_short)
    qed
  qed
qed

lemma annexb_shape: "annexb ns = [] \<or> (\<exists>n more. annexb ns = nal_bytes n @ more)"
  by (cases ns) (auto simp: annexb_def)

lemma scan_list_annexb:
  "\<forall>n \<in> set ns. \<not> has_start_triple (nal_body n) \<Longrightarrow>
   scan_list (annexb ns) s = fold (\<lambda>n. note_nal (nal_header n)) ns s"
proof (induction ns arbitrary: s)
  case Nil
  then show ?case by (simp add: annexb_def scan_list_short)
next
  case (Cons n ns)
  have "scan_list (annexb (n # ns)) s = scan_list (nal_body n @ annexb ns) (note_nal (nal_header n) s)"
    by (simp add: annexb_def scan_list_nal)
  also have "\<dots> = scan_list (annexb ns) (note_nal (nal_header n) s)"
    using Cons.prems by (simp add: scan_list_body annexb_shape)
  finally show ?case using Cons by simp
qed

lemma fold_note_nal:
  "fold (\<lambda>n. note_nal (nal_header n)) ns s =
   \<lparr>has_idr = (has_idr s \<or> (\<exists>n \<in> set ns. nal_type n = 5)),
    nal_sps = (nal_sps s \<or> (\<exists>n \<in> set ns. nal_type n = 7)),
    nal_pps = (nal_pps s \<or> (\<exists>n \<in> set ns. nal_type n = 8))\<rparr>"
  by (induction ns arbitrary: s) (auto simp: note_nal_def nal_type_def Let_def)

text \<open>
  C6. The scan is exact on every Annex-B stream: whatever mix of three- and four-byte start
  codes, trailing zero bytes and NAL units, as long as emulation prevention holds in the bodies,
  \<open>inspectH264ByteStream\<close> reports an IDR slice, an SPS or a PPS if and only if one of the NAL
  units of the stream has that type. In particular a four-byte start code is not mistaken for a
  zero byte followed by a three-byte one, and nothing inside a body is reported.
\<close>

theorem inspect_annexb_exact:
  assumes "\<forall>n \<in> set ns. \<not> has_start_triple (nal_body n)"
  shows "inspectH264ByteStream (Some (annexb ns)) =
     \<lparr>has_idr = (\<exists>n \<in> set ns. nal_type n = 5),
      nal_sps = (\<exists>n \<in> set ns. nal_type n = 7),
      nal_pps = (\<exists>n \<in> set ns. nal_type n = 8)\<rparr>"
  using assms
  by (simp add: inspect_eq_scan_list scan_list_annexb fold_note_nal) (simp add: no_nals_def)

theorem inspect_annexb_exact_witness:
  "inspectH264ByteStream (Some (annexb
     [\<lparr>long_prefix = True, nal_header = 0x67, nal_body = [0x42, 0]\<rparr>,
      \<lparr>long_prefix = False, nal_header = 0x68, nal_body = []\<rparr>,
      \<lparr>long_prefix = False, nal_header = 0x65, nal_body = [0, 0, 3, 1]\<rparr>]))
   = \<lparr>has_idr = True, nal_sps = True, nal_pps = True\<rparr>"
  by (subst inspect_annexb_exact) (simp_all add: nal_type_def)

end
