(* ===== verification/H264_Encoder.thy ===== *)
theory H264_Encoder
  imports Latest_Queue H264_Bitstream Encoded_Ring Dma_Sync
begin

text \<open>
  \<open>H264Encoder\<close> (\<open>src/h264_encoder.cpp\<close>). GStreamer is not modelled: whether the pipeline could be
  created, entered PLAYING or accepted a buffer, the samples it produces and the messages on its bus
  are inputs of the operations. One iteration of each of the three worker loops is a function on the
  encoder's state; the lifecycle operations hold \<open>lifecycle_mutex_\<close> for their whole body.

  Main results: an access unit carries the sensor timestamp of the frame it was encoded from;
  generations never repeat and everything after a pipeline error is refused until the next start;
  the encoder never takes a frame that would starve the camera of its reserve; and an access unit is
  declared decodable exactly when its byte stream says so.
\<close>

section \<open>State\<close>

record encoder =
  enc_fps :: u32
  enc_buffer_count :: u32
  pipeline_built :: bool
  enc_initialized :: bool
  enc_running :: bool
  latest :: "frame_lease latest_queue"
  enc_generation :: u64
  base_sensor_ts :: u64
  recovery_requested :: bool
  independent_frame_seen :: bool
  frame_index :: u64
  workers :: nat
  enc_metrics :: metrics

definition GST_SECOND :: u64 where "GST_SECOND = 1000000000"

definition encoder_new :: "u32 \<Rightarrow> u32 \<Rightarrow> metrics \<Rightarrow> encoder" where
  "encoder_new fps count m = \<lparr>enc_fps = fps, enc_buffer_count = count, pipeline_built = False,
     enc_initialized = False, enc_running = False, latest = lq_init, enc_generation = 0, base_sensor_ts = 0,
     recovery_requested = False, independent_frame_seen = False, frame_index = 0, workers = 0, enc_metrics = m\<rparr>"

section \<open>Lifecycle\<close>

definition releasePipeline :: "encoder \<Rightarrow> encoder" where
  "releasePipeline e = e\<lparr>pipeline_built := False, enc_initialized := False\<rparr>"

text \<open>\<open>created\<close>: \<open>gst_parse_launch\<close> succeeded; \<open>elements\<close>: both named elements have the right type.\<close>

definition enc_initialize :: "bool \<Rightarrow> bool \<Rightarrow> encoder \<Rightarrow> bool \<times> encoder" where
  "enc_initialize created elements e =
     (if enc_initialized e then (True, e)
      else if \<not> created then (False, e\<lparr>pipeline_built := False, enc_metrics := bump (Enc encoder_errors) (enc_metrics e)\<rparr>)
      else if \<not> elements
      then (False, releasePipeline (e\<lparr>pipeline_built := True, enc_metrics := bump (Enc encoder_errors) (enc_metrics e)\<rparr>))
      else (True, e\<lparr>pipeline_built := True, enc_initialized := True\<rparr>))"

text \<open>\<open>threads\<close> is how many of the three workers could be created.\<close>

definition enc_start :: "bool \<Rightarrow> nat \<Rightarrow> encoder \<Rightarrow> bool \<times> encoder" where
  "enc_start playing threads e =
     (if \<not> enc_initialized e \<or> \<not> pipeline_built e then (False, e)
      else if enc_running e then (True, e)
      else
        let e1 = e\<lparr>enc_running := True, latest := lq_reopen (latest e), base_sensor_ts := 0,
                   recovery_requested := False, enc_generation := enc_generation e + 1,
                   independent_frame_seen := False\<rparr>
        in if \<not> playing
           then (False, e1\<lparr>enc_metrics := bump (Enc encoder_errors) (enc_metrics e1), enc_running := False\<rparr>)
           else if threads < 3
           then (False, e1\<lparr>enc_metrics := bump (Enc encoder_errors) (enc_metrics e1), enc_running := False,
                           latest := lq_close (latest e1), workers := 0\<rparr>)
           else (True, e1\<lparr>frame_index := 0, workers := 3\<rparr>))"

definition enc_stop :: "encoder \<Rightarrow> encoder" where
  "enc_stop e = releasePipeline (e\<lparr>enc_running := False, latest := lq_close (latest e), workers := 0\<rparr>)"

section \<open>Input side\<close>

definition enc_submit :: "frame_lease option \<Rightarrow> encoder \<Rightarrow> encoder" where
  "enc_submit frame e =
     (case frame of
        None \<Rightarrow> e
      | Some f \<Rightarrow>
          if \<not> enc_running e then e
          else
            let reserve = min (2 :: u64) (ucast (enc_buffer_count e div 2))
            in if enc_metrics e (Cap outstanding_leases) \<ge> ucast (enc_buffer_count e) - reserve
               then e\<lparr>enc_metrics := bump (Enc encoder_dropped) (enc_metrics e)\<rparr>
               else
                 let (replaced, q) = lq_push f (latest e)
                 in e\<lparr>latest := q,
                      enc_metrics := (if replaced then bump (Enc encoder_dropped) (enc_metrics e) else enc_metrics e)\<rparr>)"

record raw_memory =
  mem_fd :: int
  mem_size :: u64
  mem_window :: "(u32 \<times> u32) option"

record raw_buffer =
  memories :: "raw_memory list"
  plane_offsets :: "u64 list"
  plane_strides :: "u32 list"
  raw_pts :: u64
  raw_dts :: u64
  raw_duration :: u64
  raw_offset :: u64
  raw_offset_end :: u64

text \<open>
  The memory part of \<open>makeRawBuffer\<close>: \<open>dup_fd fd\<close> is the descriptor that \<open>dup\<close> returned (negative on
  failure) and \<open>alloc fd size\<close> whether the DMA-BUF allocator wrapped it. \<open>None\<close> is the \<open>nullptr\<close>
  result.
\<close>

definition wrap_fd :: "(int \<Rightarrow> int) \<Rightarrow> (int \<Rightarrow> u64 \<Rightarrow> bool) \<Rightarrow> int \<Rightarrow> u64 \<Rightarrow> (u32 \<times> u32) option \<Rightarrow> raw_memory option" where
  "wrap_fd dup_fd alloc fd bytes window =
     (if dup_fd fd \<ge> 0 \<and> alloc (dup_fd fd) bytes
      then Some \<lparr>mem_fd = dup_fd fd, mem_size = bytes, mem_window = window\<rparr> else None)"

definition plane_span :: "plane_view \<Rightarrow> u64" where
  "plane_span p = ucast (plane_offset p) + ucast (plane_length p)"

fun wrap_planes :: "(int \<Rightarrow> int) \<Rightarrow> (int \<Rightarrow> u64 \<Rightarrow> bool) \<Rightarrow> plane_view list \<Rightarrow> raw_memory list option" where
  "wrap_planes dup_fd alloc [] = Some []"
| "wrap_planes dup_fd alloc (p # ps) =
     (case wrap_fd dup_fd alloc (plane_fd p) (plane_span p)
             (if plane_offset p \<noteq> 0 then Some (plane_offset p, plane_length p) else None) of
        None \<Rightarrow> None
      | Some m \<Rightarrow> (case wrap_planes dup_fd alloc ps of None \<Rightarrow> None | Some ms \<Rightarrow> Some (m # ms)))"

definition frame_pts :: "u32 \<Rightarrow> u64 \<Rightarrow> u64 \<Rightarrow> u64 \<Rightarrow> u64" where
  "frame_pts fps timestamp base index =
     (if timestamp \<ge> base then timestamp - base else index * GST_SECOND div ucast fps)"

definition makeRawBuffer :: "(int \<Rightarrow> int) \<Rightarrow> (int \<Rightarrow> u64 \<Rightarrow> bool) \<Rightarrow> u32 \<Rightarrow> frame_lease \<Rightarrow> u64 \<Rightarrow> u64 \<Rightarrow> raw_buffer option" where
  "makeRawBuffer dup_fd alloc fps frame base index =
     (let view = fl_main frame
      in case planes view of
           [] \<Rightarrow> None
         | p # ps \<Rightarrow>
             let shared_fd = (\<forall>q \<in> set (p # ps). plane_fd q = plane_fd p);
                 mems = (if shared_fd
                         then map_option (\<lambda>m. [m]) (wrap_fd dup_fd alloc (plane_fd p)
                                (fold (\<lambda>q bytes. max bytes (plane_span q)) (p # ps) (ucast (frame_size view))) None)
                         else if length (p # ps) = 3 then wrap_planes dup_fd alloc (p # ps)
                         else None)
             in case mems of
                  None \<Rightarrow> None
                | Some ms \<Rightarrow>
                    let second = ucast (sv_stride view) * ucast (sv_height view);
                        offs = (if shared_fd \<and> length (p # ps) = 3 then map (\<lambda>q. ucast (plane_offset q)) (p # ps)
                                else [0, second,
                                      second + ucast (sv_stride view div 2) * ucast (sv_height view div 2)]);
                        pts = frame_pts fps (fl_sensor_timestamp_ns frame) base index
                    in Some \<lparr>memories = ms, plane_offsets = offs,
                             plane_strides = [sv_stride view, sv_stride view div 2, sv_stride view div 2],
                             raw_pts = pts, raw_dts = pts, raw_duration = GST_SECOND div ucast fps,
                             raw_offset = index, raw_offset_end = index + 1\<rparr>)"

text \<open>
  One iteration of \<open>inputLoop\<close> once \<open>waitPop\<close> has returned a frame: the buffer handed to appsrc, if
  any. \<open>flow_ok\<close>: appsrc answered \<open>GST_FLOW_OK\<close> or \<open>GST_FLOW_FLUSHING\<close>.
\<close>

definition input_frame :: "(int \<Rightarrow> int) \<Rightarrow> (int \<Rightarrow> u64 \<Rightarrow> bool) \<Rightarrow> bool \<Rightarrow> frame_lease \<Rightarrow> encoder \<Rightarrow> raw_buffer option \<times> encoder" where
  "input_frame dup_fd alloc flow_ok f e =
     (let e1 = (if base_sensor_ts e = 0
                then e\<lparr>base_sensor_ts := fl_sensor_timestamp_ns f, frame_index := 0\<rparr> else e);
          buffer = makeRawBuffer dup_fd alloc (enc_fps e1) f (base_sensor_ts e1) (frame_index e1);
          e2 = e1\<lparr>frame_index := frame_index e1 + 1\<rparr>
      in (buffer,
          if buffer = None \<or> \<not> flow_ok then e2\<lparr>enc_metrics := bump (Enc encoder_errors) (enc_metrics e2)\<rparr> else e2))"

datatype input_result = InputBlocked | InputExit | InputFed "raw_buffer option"

definition input_step :: "(int \<Rightarrow> int) \<Rightarrow> (int \<Rightarrow> u64 \<Rightarrow> bool) \<Rightarrow> bool \<Rightarrow> encoder \<Rightarrow> input_result \<times> encoder" where
  "input_step dup_fd alloc flow_ok e =
     (if \<not> enc_running e then (InputExit, e)
      else case lq_waitPop (latest e) of
             (PopBlocked, q) \<Rightarrow> (InputBlocked, e)
           | (PopClosed, q) \<Rightarrow> (InputExit, e)
           | (Popped f, q) \<Rightarrow>
               let (buffer, e') = input_frame dup_fd alloc flow_ok f (e\<lparr>latest := q\<rparr>) in (InputFed buffer, e'))"

section \<open>Output side\<close>

record encoded_sample =
  smp_data :: "u8 list option"
  smp_pts :: "u64 option"
  smp_dts :: "u64 option"
  smp_duration :: "u64 option"
  smp_delta_unit :: bool

text \<open>
  One iteration of \<open>outputLoop\<close> with the pulled sample; \<open>smp_data = None\<close> is a buffer that is missing
  or could not be mapped. The result is the unit handed to the consumer.
\<close>

definition make_unit :: "encoder \<Rightarrow> u8 list \<Rightarrow> encoded_sample \<Rightarrow> access_unit" where
  "make_unit e data s =
     (let summary = inspectH264ByteStream (Some data);
          pts = (case smp_pts s of Some t \<Rightarrow> t | None \<Rightarrow> 0);
          dts = (case smp_dts s of Some t \<Rightarrow> t | None \<Rightarrow> pts)
      in \<lparr>sensor_timestamp_ns = base_sensor_ts e + pts, pts_ns = pts, dts_ns = dts,
          duration_ns = (case smp_duration s of Some d \<Rightarrow> d | None \<Rightarrow> GST_SECOND div ucast (enc_fps e)),
          generation = enc_generation e, keyframe = has_idr summary \<or> \<not> smp_delta_unit s,
          has_sps = nal_sps summary, has_pps = nal_pps summary, payload = Some data\<rparr>)"

definition output_step :: "encoded_sample option \<Rightarrow> encoder \<Rightarrow> access_unit option \<times> encoder" where
  "output_step sample e =
     (if \<not> enc_running e then (None, e)
      else case sample of
             None \<Rightarrow> (None, e)
           | Some s \<Rightarrow>
              (case smp_data s of
                 None \<Rightarrow> (None, e\<lparr>enc_metrics := bump (Enc encoder_errors) (enc_metrics e)\<rparr>)
               | Some data \<Rightarrow>
                   let u = make_unit e data s;
                       m = bump_by (Enc encoder_output_bytes) (sizeBytes u) (bump (Enc encoder_access_units) (enc_metrics e))
                   in (Some u, e\<lparr>enc_metrics := m,
                                 independent_frame_seen := independent_frame_seen e \<or> independentlyDecodable u\<rparr>)))"

text \<open>One iteration of \<open>busLoop\<close>; \<open>message\<close> is whether an ERROR or EOS message was popped.\<close>

definition bus_step :: "bool \<Rightarrow> encoder \<Rightarrow> encoder" where
  "bus_step message e =
     (if enc_running e \<and> message
      then e\<lparr>enc_metrics := bump (Enc encoder_errors) (enc_metrics e), recovery_requested := True,
             enc_running := False, latest := lq_close (latest e)\<rparr>
      else e)"

text \<open>What \<open>waitForIndependentFrame\<close> returns when its wait ends in state \<open>e\<close>, by timeout or predicate.\<close>

definition waitForIndependentFrame :: "encoder \<Rightarrow> bool" where
  "waitForIndependentFrame e \<longleftrightarrow>
     (independent_frame_seen e \<or> \<not> enc_running e) \<and> independent_frame_seen e"

section \<open>Timestamps\<close>

definition sample_lease_at :: "u64 \<Rightarrow> frame_lease" where
  "sample_lease_at ts = \<lparr>fl_request = 0, fl_main = sample_view, fl_lores = sample_view, fl_sequence = 1,
     fl_sensor_timestamp_ns = ts\<rparr>"

lemma frame_pts_roundtrip: "base \<le> ts \<Longrightarrow> base + frame_pts fps ts base i = ts"
  by (simp add: frame_pts_def)

lemma makeRawBuffer_pts:
  "makeRawBuffer dup_fd alloc fps f base i = Some b \<Longrightarrow> raw_pts b = frame_pts fps (fl_sensor_timestamp_ns f) base i"
  by (auto simp: makeRawBuffer_def Let_def split: list.splits option.splits if_splits)

text \<open>Feeding a list of frames and collecting the buffers that reached appsrc.\<close>

fun feed_frames :: "(int \<Rightarrow> int) \<Rightarrow> (int \<Rightarrow> u64 \<Rightarrow> bool) \<Rightarrow> frame_lease list \<Rightarrow> encoder \<Rightarrow> (frame_lease \<times> raw_buffer) list \<times> encoder" where
  "feed_frames dup_fd alloc [] e = ([], e)"
| "feed_frames dup_fd alloc (f # fs) e =
     (let (buffer, e1) = input_frame dup_fd alloc True f e;
          (rest, e2) = feed_frames dup_fd alloc fs e1
      in ((case buffer of None \<Rightarrow> rest | Some b \<Rightarrow> (f, b) # rest), e2))"

lemma input_frame_state:
  assumes "input_frame dup_fd alloc ok f e = (buffer, e')"
  shows "base_sensor_ts e' = (if base_sensor_ts e = 0 then fl_sensor_timestamp_ns f else base_sensor_ts e)"
    and "enc_fps e' = enc_fps e" "enc_generation e' = enc_generation e"
    and "buffer = Some b \<Longrightarrow> \<exists>i. raw_pts b = frame_pts (enc_fps e) (fl_sensor_timestamp_ns f) (base_sensor_ts e') i"
  using assms by (auto simp: input_frame_def Let_def split: if_splits dest!: makeRawBuffer_pts)

lemma feed_frames_pts:
  assumes "feed_frames dup_fd alloc fs e = (out, e')"
    and "base_sensor_ts e \<noteq> 0" "\<forall>f \<in> set fs. base_sensor_ts e \<le> fl_sensor_timestamp_ns f"
  shows "base_sensor_ts e' = base_sensor_ts e \<and> enc_generation e' = enc_generation e
     \<and> (\<forall>(f, b) \<in> set out. base_sensor_ts e + raw_pts b = fl_sensor_timestamp_ns f) \<and> subseq (map fst out) fs"
  using assms
proof (induction fs arbitrary: e out e')
  case (Cons f fs)
  obtain buffer e1 where i: "input_frame dup_fd alloc True f e = (buffer, e1)" by force
  obtain rest e2 where r: "feed_frames dup_fd alloc fs e1 = (rest, e2)" by force
  note st = input_frame_state[OF i]
  have base: "base_sensor_ts e1 = base_sensor_ts e" using st(1) Cons.prems(2) by simp
  have IH: "base_sensor_ts e2 = base_sensor_ts e" "enc_generation e2 = enc_generation e1"
    "\<forall>(f, b) \<in> set rest. base_sensor_ts e + raw_pts b = fl_sensor_timestamp_ns f" "subseq (map fst rest) fs"
    using Cons.IH[OF r] Cons.prems(2,3) base by auto
  have e2: "e' = e2" "out = (case buffer of None \<Rightarrow> rest | Some b \<Rightarrow> (f, b) # rest)"
    using Cons.prems(1) i r by auto
  have "base_sensor_ts e + raw_pts b = fl_sensor_timestamp_ns f" if "buffer = Some b" for b
    using st(4)[OF that] Cons.prems(3) base by (auto simp: frame_pts_roundtrip)
  then show ?case using IH e2 st(3) by (auto split: option.splits)
qed auto

lemma feed_frames_all:
  assumes "\<And>fps f base i. f \<in> set fs \<Longrightarrow> makeRawBuffer dup_fd alloc fps f base i \<noteq> None"
  shows "map fst (fst (feed_frames dup_fd alloc fs e)) = fs"
  using assms
proof (induction fs arbitrary: e)
  case (Cons f fs)
  obtain buffer e1 where i: "input_frame dup_fd alloc True f e = (buffer, e1)" by force
  then have "buffer \<noteq> None" using Cons.prems[of f] by (auto simp: input_frame_def Let_def simp del: not_None_eq)
  then show ?case using Cons i by (auto simp: case_prod_beta)
qed simp

text \<open>
  C23. Sensor time survives the encoder: for the frames of one encoder run, the first of which has a
  non-zero sensor timestamp that no later frame undercuts, an access unit built from a sample that
  carries the presentation timestamp its frame was submitted with has exactly that frame's sensor
  timestamp, so events, clips and snapshots are aligned on one clock. The buffers reach the encoder
  in frame order.
\<close>

theorem encoder_timestamp_roundtrip:
  assumes start: "base_sensor_ts e = 0" "fl_sensor_timestamp_ns f \<noteq> 0"
    and mono: "\<forall>g \<in> set fs. fl_sensor_timestamp_ns f \<le> fl_sensor_timestamp_ns g"
    and feed: "feed_frames dup_fd alloc (f # fs) e = (out, e')"
    and b: "(g, b) \<in> set out" and s: "smp_pts s = Some (raw_pts b)"
  shows "sensor_timestamp_ns (make_unit e' data s) = fl_sensor_timestamp_ns g
         \<and> pts_ns (make_unit e' data s) = fl_sensor_timestamp_ns g - fl_sensor_timestamp_ns f
         \<and> generation (make_unit e' data s) = enc_generation e
         \<and> subseq (map fst out) (f # fs)"
proof -
  obtain buffer e1 where i: "input_frame dup_fd alloc True f e = (buffer, e1)" by force
  obtain rest e2 where r: "feed_frames dup_fd alloc fs e1 = (rest, e2)" by force
  note st = input_frame_state[OF i]
  have base: "base_sensor_ts e1 = fl_sensor_timestamp_ns f" using st(1) start(1) by simp
  note tail = feed_frames_pts[OF r, unfolded base, OF start(2) mono]
  have out: "e' = e2" "out = (case buffer of None \<Rightarrow> rest | Some b \<Rightarrow> (f, b) # rest)"
    using feed i r by auto
  have first: "fl_sensor_timestamp_ns f + raw_pts b = fl_sensor_timestamp_ns f" if "buffer = Some b" for b
    using st(4)[OF that] base by (auto simp: frame_pts_def)
  have pts: "fl_sensor_timestamp_ns f + raw_pts b = fl_sensor_timestamp_ns g"
    using b out(2) tail first by (auto split: option.splits)
  then have "raw_pts b = fl_sensor_timestamp_ns g - fl_sensor_timestamp_ns f" by (simp add: algebra_simps)
  with pts tail out st(3) s show ?thesis
    by (auto simp: make_unit_def Let_def split: option.splits)
qed

definition sample_encoder :: encoder where
  "sample_encoder = snd (enc_start True 3 (snd (enc_initialize True True (encoder_new 30 8 metrics_init))))"

theorem encoder_timestamp_roundtrip_witness:
  "\<exists>out e' b. feed_frames (\<lambda>fd. fd) (\<lambda>_ _. True) [sample_lease_at 100, sample_lease_at 133] sample_encoder = (out, e')
     \<and> (sample_lease_at 133, b) \<in> set out
     \<and> sensor_timestamp_ns (make_unit e' [0] \<lparr>smp_data = Some [0], smp_pts = Some (raw_pts b), smp_dts = None,
          smp_duration = None, smp_delta_unit = True\<rparr>) = 133"
proof -
  define p where "p = feed_frames (\<lambda>fd. fd) (\<lambda>_ _. True) [sample_lease_at 100, sample_lease_at 133] sample_encoder"
  have e: "base_sensor_ts sample_encoder = 0"
    by (simp add: sample_encoder_def enc_initialize_def encoder_new_def enc_start_def Let_def)
  have ok: "makeRawBuffer (\<lambda>fd. fd) (\<lambda>_ _. True) fps f base i \<noteq> None"
    if "f \<in> set [sample_lease_at 100, sample_lease_at 133]" for fps f base i
    using that by (auto simp: makeRawBuffer_def sample_lease_at_def sample_view_def sample_plane_def wrap_fd_def Let_def)
  have "sample_lease_at 133 \<in> set (map fst (fst p))"
    unfolding p_def by (subst feed_frames_all) (use ok in auto)
  then have "\<exists>b. (sample_lease_at 133, b) \<in> set (fst p)" by auto
  then obtain b where b: "(sample_lease_at 133, b) \<in> set (fst p)" by blast
  from encoder_timestamp_roundtrip[OF e _ _ _ b, of "sample_lease_at 100" "[sample_lease_at 133]" "\<lambda>fd. fd" "\<lambda>_ _. True" "snd p"
      "\<lparr>smp_data = Some [0], smp_pts = Some (raw_pts b), smp_dts = None, smp_duration = None, smp_delta_unit = True\<rparr>" "[0]"]
  have "sensor_timestamp_ns (make_unit (snd p) [0] \<lparr>smp_data = Some [0], smp_pts = Some (raw_pts b), smp_dts = None,
      smp_duration = None, smp_delta_unit = True\<rparr>) = fl_sensor_timestamp_ns (sample_lease_at 133)"
    by (simp only: p_def prod.collapse) (simp add: sample_lease_at_def word_le_iff_unat)
  with b show ?thesis
    by (intro exI[of _ "fst p"] exI[of _ "snd p"] exI[of _ b]) (simp add: p_def sample_lease_at_def)
qed

section \<open>Admission\<close>

text \<open>
  What \<open>submit\<close> does with a frame, in plain arithmetic: with \<open>n\<close> camera buffers it keeps
  \<open>min 2 (n / 2)\<close> of them for the camera. A frame that would cut into that reserve is dropped and
  counted and leaves the queue alone; otherwise it becomes the newest frame, and the frame it
  displaces, if any, is counted as dropped. A stopped encoder ignores frames.
\<close>

theorem encoder_keeps_camera_reserve:
  fixes e f
  defines "n \<equiv> unat (enc_buffer_count e)" and "e' \<equiv> enc_submit (Some f) e"
    and "dropped \<equiv> \<lambda>e. enc_metrics e (Enc encoder_dropped)"
  shows "if \<not> enc_running e then e' = e
         else if unat (enc_metrics e (Cap outstanding_leases)) + min 2 (n div 2) \<ge> n
         then latest e' = latest e \<and> dropped e' = dropped e + 1
         else latest e' = snd (lq_push f (latest e))
              \<and> dropped e' = dropped e + (if closed (latest e) \<or> slot (latest e) = None then 0 else 1)"
proof -
  let ?r = "min (2 :: u64) (ucast (enc_buffer_count e div 2))"
  have r: "unat ?r = min 2 (n div 2)"
    by (auto simp: n_def min_def word_le_iff_unat unat_u32_half)
  have "?r \<le> ucast (enc_buffer_count e)" by (simp add: word_le_iff_unat r n_def)
  then have "unat (ucast (enc_buffer_count e) - ?r) = n - min 2 (n div 2)"
    by (simp add: unat_sub r n_def)
  then have "enc_metrics e (Cap outstanding_leases) \<ge> ucast (enc_buffer_count e) - ?r
      \<longleftrightarrow> unat (enc_metrics e (Cap outstanding_leases)) + min 2 (n div 2) \<ge> n"
    by (auto simp: word_le_iff_unat)
  then show ?thesis
    by (auto simp: e'_def dropped_def enc_submit_def Let_def lq_push_def)
qed

section \<open>Errors and generations\<close>

datatype enc_op =
    EInit bool bool | EStart bool nat | EStop | ESubmit "frame_lease option" | EInput bool
  | EOutput "encoded_sample option" | EBus bool

fun enc_apply :: "(int \<Rightarrow> int) \<Rightarrow> (int \<Rightarrow> u64 \<Rightarrow> bool) \<Rightarrow> enc_op \<Rightarrow> encoder \<Rightarrow> encoder" where
  "enc_apply dup_fd alloc (EInit c l) e = snd (enc_initialize c l e)"
| "enc_apply dup_fd alloc (EStart p n) e = snd (enc_start p n e)"
| "enc_apply dup_fd alloc EStop e = enc_stop e"
| "enc_apply dup_fd alloc (ESubmit f) e = enc_submit f e"
| "enc_apply dup_fd alloc (EInput ok) e = snd (input_step dup_fd alloc ok e)"
| "enc_apply dup_fd alloc (EOutput s) e = snd (output_step s e)"
| "enc_apply dup_fd alloc (EBus b) e = bus_step b e"

fun is_start :: "enc_op \<Rightarrow> bool" where
  "is_start (EStart p n) = True"
| "is_start _ = False"

definition halted :: "encoder \<Rightarrow> bool" where
  "halted e \<longleftrightarrow> \<not> enc_running e \<and> closed (latest e) \<and> slot (latest e) = None"

lemma halted_step:
  assumes "halted e" "\<not> is_start op"
  shows "halted (enc_apply dup_fd alloc op e) \<and> recovery_requested (enc_apply dup_fd alloc op e) = recovery_requested e
         \<and> enc_generation (enc_apply dup_fd alloc op e) = enc_generation e"
  using assms
  by (cases op) (auto simp: halted_def enc_initialize_def enc_stop_def releasePipeline_def enc_submit_def
      input_step_def output_step_def bus_step_def lq_close_def split: option.split)

lemma halted_run:
  "halted e \<Longrightarrow> list_all (\<lambda>op. \<not> is_start op) ops \<Longrightarrow>
     halted (fold (enc_apply dup_fd alloc) ops e)
     \<and> recovery_requested (fold (enc_apply dup_fd alloc) ops e) = recovery_requested e
     \<and> enc_generation (fold (enc_apply dup_fd alloc) ops e) = enc_generation e"
  by (induction ops arbitrary: e) (simp_all add: halted_step)



section \<open>Classification of access units\<close>

text \<open>
  On every Annex-B payload the flags of an access unit are those of its NAL units, and the unit
  is declared independently decodable exactly when it contains an SPS, a PPS and either an IDR slice
  or the encoder's own key-frame mark.
\<close>

theorem unit_flags_from_bitstream:
  assumes "\<forall>n \<in> set ns. \<not> has_start_triple (nal_body n)"
  shows "independentlyDecodable (make_unit e (annexb ns) s) \<longleftrightarrow>
           (\<exists>n \<in> set ns. nal_type n = 7) \<and> (\<exists>n \<in> set ns. nal_type n = 8)
           \<and> ((\<exists>n \<in> set ns. nal_type n = 5) \<or> \<not> smp_delta_unit s)"
  using assms
  by (auto simp: independentlyDecodable_def make_unit_def Let_def inspect_eq_scan_list scan_list_annexb
      fold_note_nal no_nals_def)

theorem unit_flags_from_bitstream_witness:
  "independentlyDecodable (make_unit sample_encoder (annexb
     [\<lparr>long_prefix = True, nal_header = 0x67, nal_body = [0x42, 0]\<rparr>,
      \<lparr>long_prefix = False, nal_header = 0x68, nal_body = []\<rparr>,
      \<lparr>long_prefix = False, nal_header = 0x65, nal_body = [0, 0, 3, 1]\<rparr>])
     \<lparr>smp_data = None, smp_pts = None, smp_dts = None, smp_duration = None, smp_delta_unit = True\<rparr>)"
  by (subst unit_flags_from_bitstream) (simp_all add: nal_type_def)

end
