(* ===== verification/Rtsp_Server.thy ===== *)
theory Rtsp_Server
  imports H264_Encoder
begin

text \<open>
  \<open>RtspServer\<close> (\<open>src/rtsp_server.cpp\<close>) without its test hooks. GStreamer objects are identified by
  numbers: a media, an appsrc element, a media factory. What the library answers (the appsrc found in
  a media pipeline, whether a listener could be attached, whether a thread could be created, the flow
  return of a push) and the monotonic clock in microseconds are inputs of the operations.

  Every function of the source that locks \<open>source_mutex_\<close> once is one operation on \<open>rtsp\<close>; a function
  that releases the mutex in between is composed of the operations for its critical sections, and the
  step relation \<open>rtsp_step\<close> interleaves those sections with every callback, with the recovery worker
  and with the feeder. The references the server owns are counted explicitly: \<open>rs_source_refs\<close>,
  \<open>rs_media_refs\<close> and \<open>rs_factory_refs\<close> change exactly where the source calls \<open>g_object_ref\<close>, receives a
  reference or calls \<open>unref\<close>, and \<open>rs_connected\<close> is the set of media with connected signal handlers. The
  reference the feeder holds while it pushes one buffer is scoped to that iteration and not counted.
\<close>

section \<open>State\<close>

datatype recovery_state = RecIdle | RecRequested | RecRunning | RecCompleted

datatype media_status = Unprepared | Unpreparing | Preparing | Prepared | MediaError

record recovery_job =
  rj_done :: bool
  rj_token :: u64
  rj_source :: "nat option"
  rj_factory :: "nat option"

record recovery_worker =
  wk_pending :: "nat option"
  wk_stopping :: bool
  wk_current :: "nat option"

record session_cleanup =
  sc_max_sessions :: u32
  sc_stopping :: bool
  sc_current :: u64
  sc_cleaned :: u64

text \<open>The recovery fields of the server; \<open>rv_job\<close> points into the heap of jobs.\<close>

record recovery =
  rv_state :: recovery_state
  rv_generation :: u64
  rv_token :: u64
  rv_reason :: string
  rv_started_us :: int
  rv_failure_reported :: bool
  rv_media_unprepared :: bool
  rv_job :: "nat option"

record rtsp =
  rs_fps :: u32
  rs_max_sessions :: u32
  rs_running :: bool
  rs_stopping :: bool
  rs_latest :: "access_unit latest_queue"
  rs_server :: bool
  rs_factory :: "nat option"
  rs_next_factory :: nat
  rs_listener :: bool
  rs_watchdog :: bool
  rs_accepting_clients :: bool
  rs_threads :: bool
  rs_worker :: "recovery_worker option"
  rs_jobs :: "recovery_job list"
  rs_cleanup :: "session_cleanup option"
  rs_appsrc :: "nat option"
  rs_media :: "nat option"
  rs_callback_epoch :: nat
  rs_callbacks :: bool
  rs_generation :: u64
  rs_media_generation :: u64
  rs_push_failures :: u32
  rs_next_token :: u64
  rs_recovery :: recovery
  rs_status :: media_status
  rs_status_since_us :: int
  rs_source_refs :: "nat \<Rightarrow> int"
  rs_media_refs :: "nat \<Rightarrow> int"
  rs_factory_refs :: "nat \<Rightarrow> int"
  rs_connected :: "nat set"
  rs_metrics :: metrics

definition idle_recovery :: recovery where
  "idle_recovery = \<lparr>rv_state = RecIdle, rv_generation = 0, rv_token = 0, rv_reason = [], rv_started_us = 0,
     rv_failure_reported = False, rv_media_unprepared = False, rv_job = None\<rparr>"

text \<open>The four assignments that withdraw a request.\<close>

definition withdraw :: "recovery \<Rightarrow> recovery" where
  "withdraw v = v\<lparr>rv_state := RecIdle, rv_generation := 0, rv_token := 0, rv_reason := []\<rparr>"

definition rtsp_new :: "u32 \<Rightarrow> u32 \<Rightarrow> metrics \<Rightarrow> rtsp" where
  "rtsp_new fps max_sessions m =
     \<lparr>rs_fps = fps, rs_max_sessions = max_sessions, rs_running = False, rs_stopping = False, rs_latest = lq_init,
      rs_server = False, rs_factory = None, rs_next_factory = 0, rs_listener = False, rs_watchdog = False,
      rs_accepting_clients = False, rs_threads = False, rs_worker = None, rs_jobs = [], rs_cleanup = None,
      rs_appsrc = None, rs_media = None, rs_callback_epoch = 0, rs_callbacks = True, rs_generation = 0,
      rs_media_generation = 0, rs_push_failures = 0, rs_next_token = 0, rs_recovery = idle_recovery,
      rs_status = Unprepared, rs_status_since_us = 0, rs_source_refs = (\<lambda>_. 0), rs_media_refs = (\<lambda>_. 0),
      rs_factory_refs = (\<lambda>_. 0), rs_connected = {}, rs_metrics = m\<rparr>"

text \<open>Adding to the reference count of an object that may be null.\<close>

definition holds :: "nat option \<Rightarrow> nat \<Rightarrow> int" where
  "holds obj x = (if obj = Some x then 1 else 0)"

definition add_ref :: "int \<Rightarrow> nat option \<Rightarrow> (nat \<Rightarrow> int) \<Rightarrow> nat \<Rightarrow> int" where
  "add_ref d obj refs x = refs x + d * holds obj x"

definition rtsp_bump :: "rtsp_counter \<Rightarrow> rtsp \<Rightarrow> rtsp" where
  "rtsp_bump c s = s\<lparr>rs_metrics := bump (Rtsp c) (rs_metrics s)\<rparr>"

definition rtsp_failure :: "rtsp \<Rightarrow> rtsp" where
  "rtsp_failure s = rtsp_bump rtsp_recovery_failures (rtsp_bump rtsp_errors s)"

section \<open>Media callbacks\<close>

text \<open>\<open>found\<close> is the appsrc of the media pipeline, which \<open>gst_bin_get_by_name_recurse_up\<close> returns with a reference.\<close>

definition bindMediaSource :: "nat option \<Rightarrow> nat \<Rightarrow> rtsp \<Rightarrow> bool \<times> rtsp" where
  "bindMediaSource found media s =
     (case found of
        None \<Rightarrow> (False, rtsp_bump rtsp_errors s)
      | Some source \<Rightarrow>
          let held = s\<lparr>rs_source_refs := add_ref 1 (Some source) (rs_source_refs s)\<rparr>;
              release = \<lambda>t. t\<lparr>rs_source_refs := add_ref (- 1) (Some source) (rs_source_refs t)\<rparr>;
              v = rs_recovery s
          in if rs_media s \<noteq> Some media
                \<or> ((rv_state v = RecRequested \<or> rv_state v = RecRunning) \<and> rv_generation v = rs_media_generation s)
             then (False, release held)
             else if rs_appsrc s \<noteq> Some source
             then (True, held\<lparr>rs_appsrc := Some source, rs_generation := rs_generation s + 1,
                              rs_source_refs := add_ref (- 1) (rs_appsrc s) (rs_source_refs held),
                              rs_latest := lq_clear (rs_latest s)\<rparr>)
             else (True, release held))"

definition onMediaConfigure :: "int \<Rightarrow> nat option \<Rightarrow> nat \<Rightarrow> nat \<Rightarrow> rtsp \<Rightarrow> rtsp" where
  "onMediaConfigure now found factory media s =
     (let replacing = rs_media s \<noteq> None \<and> (rs_status s = Unpreparing \<or> rs_status s = MediaError)
      in if rs_running s \<and> rs_factory s = Some factory \<and> (rs_media s = None \<or> replacing)
         then
           let s1 = s\<lparr>rs_media := Some media, rs_appsrc := None, rs_generation := rs_generation s + 1,
                      rs_media_generation := rs_media_generation s + 1, rs_push_failures := 0,
                      rs_recovery := (withdraw (rs_recovery s))\<lparr>rv_started_us := 0, rv_failure_reported := False\<rparr>,
                      rs_status := Preparing, rs_status_since_us := now,
                      rs_media_refs := add_ref (- 1) (rs_media s) (add_ref 1 (Some media) (rs_media_refs s)),
                      rs_source_refs := add_ref (- 1) (rs_appsrc s) (rs_source_refs s),
                      rs_connected := insert media (rs_connected s - set_option (rs_media s)),
                      rs_latest := lq_clear (rs_latest s)\<rparr>;
               (bound, s2) = bindMediaSource found media s1
           in if bound \<or> rs_media s2 \<noteq> Some media then s2
              else s2\<lparr>rs_next_token := rs_next_token s2 + 1,
                      rs_recovery := (rs_recovery s2)\<lparr>rv_state := RecRequested,
                        rv_generation := rs_media_generation s2, rv_token := rs_next_token s2 + 1,
                        rv_reason := ''media setup failure''\<rparr>\<rparr>
         else s)"

definition onMediaPrepared :: "int \<Rightarrow> nat option \<Rightarrow> nat \<Rightarrow> rtsp \<Rightarrow> rtsp" where
  "onMediaPrepared now found media s =
     (let (bound, s1) = bindMediaSource found media s
      in if bound \<and> rs_media s1 = Some media
         then s1\<lparr>rs_push_failures := 0, rs_status := Prepared, rs_status_since_us := now\<rparr>
         else s1)"

definition onMediaUnprepared :: "int \<Rightarrow> nat \<Rightarrow> rtsp \<Rightarrow> rtsp" where
  "onMediaUnprepared now media s =
     (if rs_media s = Some media
      then
        let v = rs_recovery s;
            recovered = rv_state v = RecRunning \<and> rv_generation v = rs_media_generation s
        in s\<lparr>rs_media := None, rs_appsrc := None, rs_generation := rs_generation s + 1,
             rs_media_generation := rs_media_generation s + 1, rs_push_failures := 0,
             rs_recovery := (if recovered then v\<lparr>rv_media_unprepared := True\<rparr> else idle_recovery),
             rs_status := Unprepared, rs_status_since_us := now, rs_latest := lq_clear (rs_latest s),
             rs_connected := rs_connected s - {media},
             rs_source_refs := add_ref (- 1) (rs_appsrc s) (rs_source_refs s),
             rs_media_refs := add_ref (- 1) (Some media) (rs_media_refs s)\<rparr>
      else s)"

text \<open>\<open>to_null\<close>: the target state is \<open>GST_STATE_NULL\<close>.\<close>

definition onMediaTargetState :: "int \<Rightarrow> bool \<Rightarrow> nat \<Rightarrow> rtsp \<Rightarrow> rtsp" where
  "onMediaTargetState now to_null media s =
     (if rs_media s \<noteq> Some media \<or> \<not> to_null then s
      else s\<lparr>rs_status := Unpreparing, rs_status_since_us := now\<rparr>)"

text \<open>\<open>live\<close>: the new state is READY, PAUSED or PLAYING.\<close>

definition onMediaNewState :: "bool \<Rightarrow> nat option \<Rightarrow> nat \<Rightarrow> rtsp \<Rightarrow> rtsp" where
  "onMediaNewState live found media s = (if live then snd (bindMediaSource found media s) else s)"

definition onMediaHandleMessage :: "int \<Rightarrow> bool \<Rightarrow> nat \<Rightarrow> rtsp \<Rightarrow> rtsp" where
  "onMediaHandleMessage now is_error media s =
     (if \<not> is_error \<or> rs_media s \<noteq> Some media then s
      else
        let v = rs_recovery s;
            first_request = rv_state v = RecIdle \<or> rv_generation v \<noteq> rs_media_generation s;
            s1 = s\<lparr>rs_next_token := (if first_request then rs_next_token s + 1 else rs_next_token s),
                   rs_recovery := v\<lparr>rv_state := RecRequested, rv_generation := rs_media_generation s,
                     rv_token := (if first_request then rs_next_token s + 1 else rv_token v),
                     rv_reason := ''media bus reported an error''\<rparr>,
                   rs_status := MediaError, rs_status_since_us := now\<rparr>
        in if first_request then rtsp_bump rtsp_errors s1 else s1)"

section \<open>Recovery\<close>

datatype recover_outcome = RecoverStale | RecoverBusy | RecoverThrows | RecoverStarts

text \<open>Which way the critical section of \<open>recoverMedia\<close> goes; \<open>alloc_ok\<close>: the job could be allocated.\<close>

definition recover_check :: "bool \<Rightarrow> u64 \<Rightarrow> rtsp \<Rightarrow> recover_outcome" where
  "recover_check alloc_ok expected s =
     (if \<not> alloc_ok then RecoverThrows
      else if \<not> rs_running s \<or> rs_media s = None \<or> rs_media_generation s \<noteq> expected then RecoverStale
      else if rv_state (rs_recovery s) = RecRequested \<or> rv_state (rs_recovery s) = RecIdle
      then (case rs_worker s of
              None \<Rightarrow> RecoverThrows
            | Some w \<Rightarrow> if wk_stopping w \<or> wk_pending w \<noteq> None then RecoverThrows else RecoverStarts)
      else RecoverBusy)"

definition begin_recovery :: "int \<Rightarrow> u64 \<Rightarrow> string \<Rightarrow> rtsp \<Rightarrow> rtsp" where
  "begin_recovery now expected reason s =
     (let v = rs_recovery s;
          next = (if rv_token v = 0 then rs_next_token s + 1 else rs_next_token s);
          token = (if rv_token v = 0 then next else rv_token v);
          id = length (rs_jobs s)
      in s\<lparr>rs_appsrc := None, rs_generation := rs_generation s + 1, rs_push_failures := 0,
           rs_next_token := next,
           rs_recovery := \<lparr>rv_state = RecRunning, rv_generation = expected, rv_token = token,
             rv_reason = reason, rv_started_us = now, rv_failure_reported = False,
             rv_media_unprepared = False, rv_job = Some id\<rparr>,
           rs_jobs := rs_jobs s @ [\<lparr>rj_done = False, rj_token = token, rj_source = rs_appsrc s,
                                    rj_factory = rs_factory s\<rparr>],
           rs_factory_refs := add_ref 1 (rs_factory s) (rs_factory_refs s),
           rs_status_since_us := now, rs_listener := False, rs_accepting_clients := False,
           rs_worker := map_option (\<lambda>w. w\<lparr>wk_pending := Some id\<rparr>) (rs_worker s),
           rs_latest := lq_clear (rs_latest s)\<rparr>)"

text \<open>The catch block: dispatch failed before anything was published.\<close>

definition recovery_dispatch_failed :: "u64 \<Rightarrow> rtsp \<Rightarrow> rtsp" where
  "recovery_dispatch_failed expected s =
     (let v = rs_recovery s
      in if rv_state v = RecRequested \<and> rv_generation v = expected
         then rtsp_failure (s\<lparr>rs_recovery := withdraw v\<rparr>)
         else if rv_state v = RecRunning
         then (if rv_failure_reported v then s else rtsp_failure (s\<lparr>rs_recovery := v\<lparr>rv_failure_reported := True\<rparr>\<rparr>))
         else rtsp_failure s)"

definition recoverMedia :: "int \<Rightarrow> bool \<Rightarrow> u64 \<Rightarrow> string \<Rightarrow> rtsp \<Rightarrow> bool \<times> rtsp" where
  "recoverMedia now alloc_ok expected reason s =
     (case recover_check alloc_ok expected s of
        RecoverThrows \<Rightarrow> (False, recovery_dispatch_failed expected s)
      | RecoverStale \<Rightarrow>
          (False, if rv_state (rs_recovery s) = RecRequested \<and> rv_generation (rs_recovery s) = expected
                  then s\<lparr>rs_recovery := withdraw (rs_recovery s)\<rparr> else s)
      | RecoverBusy \<Rightarrow> (False, s)
      | RecoverStarts \<Rightarrow> (True, begin_recovery now expected reason s))"

text \<open>The job of the server is finished and the media it retired is gone.\<close>

definition job_finished :: "recovery_job list \<Rightarrow> recovery \<Rightarrow> bool" where
  "job_finished js v \<longleftrightarrow>
     (case rv_job v of
        None \<Rightarrow> False
      | Some j \<Rightarrow> rj_token (js ! j) = rv_token v \<and> rj_done (js ! j))"

definition teardown_done :: "rtsp \<Rightarrow> bool" where
  "teardown_done s \<longleftrightarrow>
     rs_running s \<and> rv_generation (rs_recovery s) \<noteq> 0 \<and> rv_media_unprepared (rs_recovery s)
     \<and> job_finished (rs_jobs s) (rs_recovery s)"

lemma job_finished_update [simp]:
  "job_finished js (v\<lparr>rv_failure_reported := b\<rparr>) = job_finished js v"
  "job_finished js (v\<lparr>rv_state := st\<rparr>) = job_finished js v"
  by (simp_all add: job_finished_def split: option.split)

text \<open>
  The first critical section of \<open>finishRecoveryIfReady\<close>: report a recovery that takes more than five
  seconds, once, and test whether it is complete.
\<close>

definition report_overdue :: "int \<Rightarrow> rtsp \<Rightarrow> rtsp" where
  "report_overdue now s =
     (let v = rs_recovery s
      in if rs_running s \<and> rv_state v = RecRunning \<and> rv_generation v \<noteq> 0 \<and> rv_started_us v \<noteq> 0
            \<and> \<not> rv_failure_reported v \<and> now - rv_started_us v \<ge> 5000000
         then rtsp_failure (s\<lparr>rs_recovery := v\<lparr>rv_failure_reported := True\<rparr>\<rparr>) else s)"

definition finish_check :: "int \<Rightarrow> rtsp \<Rightarrow> bool \<times> rtsp" where
  "finish_check now s =
     (let s1 = report_overdue now s
      in if rv_state (rs_recovery s1) = RecRunning \<and> teardown_done s1
         then (True, s1\<lparr>rs_recovery := (rs_recovery s1)\<lparr>rv_state := RecCompleted\<rparr>\<rparr>)
         else (False, s1))"

text \<open>The second one, after \<open>createListenerSource\<close> returned a source (\<open>listener_ok\<close>) or null.\<close>

definition finish_resume :: "bool \<Rightarrow> rtsp \<Rightarrow> rtsp" where
  "finish_resume listener_ok s =
     (if rv_state (rs_recovery s) = RecCompleted \<and> teardown_done s \<and> \<not> rs_accepting_clients s \<and> listener_ok
      then rtsp_bump rtsp_recoveries
             (s\<lparr>rs_listener := True, rs_accepting_clients := True, rs_recovery := idle_recovery\<rparr>)
      else if rs_running s \<and> \<not> listener_ok
      then (if rv_failure_reported (rs_recovery s) then s
            else rtsp_failure (s\<lparr>rs_recovery := (rs_recovery s)\<lparr>rv_failure_reported := True\<rparr>\<rparr>))
      else s)"

definition finishRecoveryIfReady :: "int \<Rightarrow> bool \<Rightarrow> rtsp \<Rightarrow> rtsp" where
  "finishRecoveryIfReady now listener_ok s =
     (let (ready, s1) = finish_check now s in if ready then finish_resume (listener_ok \<and> rs_server s1) s1 else s1)"

definition publish_sessions :: "rtsp \<Rightarrow> rtsp" where
  "publish_sessions s =
     (case rs_cleanup s of
        None \<Rightarrow> s
      | Some c \<Rightarrow> s\<lparr>rs_metrics := (rs_metrics s)(Rtsp rtsp_sessions_current := sc_current c,
                                                Rtsp rtsp_sessions_cleaned := sc_cleaned c)\<rparr>)"

text \<open>The recovery that the watchdog's snapshot of the media asks for: a generation and a reason.\<close>

definition watchdog_decision :: "int \<Rightarrow> rtsp \<Rightarrow> (u64 \<times> string) option" where
  "watchdog_decision now s =
     (if rs_media s = None then None
      else
        let v = rs_recovery s;
            requested = (if rv_state v = RecRequested then rv_generation v else 0);
            age = now - rs_status_since_us s
        in if requested \<noteq> 0
           then Some (requested, if rv_reason v = [] then ''media recovery requested'' else rv_reason v)
           else if rs_media_generation s = 0 then None
           else if rs_status s = MediaError then Some (rs_media_generation s, ''media entered error state'')
           else if rs_status s = Unpreparing \<and> age \<ge> 3000000
           then Some (rs_media_generation s, ''media remained unpreparing for 3 seconds'')
           else if rs_status s = Preparing \<and> age \<ge> 10000000
           then Some (rs_media_generation s, ''media remained preparing for 10 seconds'')
           else None)"

definition onWatchdog :: "int \<Rightarrow> bool \<Rightarrow> bool \<Rightarrow> rtsp \<Rightarrow> bool \<times> rtsp" where
  "onWatchdog now alloc_ok listener_ok s =
     (if \<not> rs_running s then (False, s)
      else
        let s1 = finishRecoveryIfReady now listener_ok (publish_sessions s)
        in case watchdog_decision now s1 of
             None \<Rightarrow> (True, s1)
           | Some (g, reason) \<Rightarrow> (True, snd (recoverMedia now alloc_ok g reason s1)))"

text \<open>
  The worker thread: it takes the pending job, then ends its appsrc, closes the clients, removes the
  sessions, drops the job's references and marks it done.
\<close>

definition worker_take_job :: "rtsp \<Rightarrow> rtsp" where
  "worker_take_job s =
     (case rs_worker s of
        None \<Rightarrow> s
      | Some w \<Rightarrow>
          if wk_current w = None \<and> wk_pending w \<noteq> None
          then s\<lparr>rs_worker := Some (w\<lparr>wk_current := wk_pending w, wk_pending := None\<rparr>)\<rparr> else s)"

definition worker_run_job :: "rtsp \<Rightarrow> rtsp" where
  "worker_run_job s =
     (case rs_worker s of
        None \<Rightarrow> s
      | Some w \<Rightarrow>
          (case wk_current w of
             None \<Rightarrow> s
           | Some j \<Rightarrow>
               let job = rs_jobs s ! j
               in s\<lparr>rs_source_refs := add_ref (- 1) (rj_source job) (rs_source_refs s),
                    rs_factory_refs := add_ref (- 1) (rj_factory job) (rs_factory_refs s),
                    rs_jobs := (rs_jobs s)[j := job\<lparr>rj_source := None, rj_factory := None, rj_done := True\<rparr>],
                    rs_worker := Some (w\<lparr>wk_current := None\<rparr>)\<rparr>))"

definition worker_idle :: "rtsp \<Rightarrow> bool" where
  "worker_idle s \<longleftrightarrow> (case rs_worker s of None \<Rightarrow> True | Some w \<Rightarrow> wk_pending w = None \<and> wk_current w = None)"

section \<open>Sessions\<close>

text \<open>\<open>removed\<close> and \<open>active\<close> are the answers of the session pool.\<close>

definition cleanupSessions :: "u32 \<Rightarrow> u32 \<Rightarrow> session_cleanup \<Rightarrow> bool \<times> session_cleanup" where
  "cleanupSessions removed active c =
     (if sc_stopping c then (False, c)
      else (True, c\<lparr>sc_current := ucast active, sc_cleaned := sc_cleaned c + ucast removed\<rparr>))"

definition onClientNewSession :: "u32 \<Rightarrow> rtsp \<Rightarrow> rtsp" where
  "onClientNewSession active s =
     (if \<not> rs_server s then s
      else
        let m = (rs_metrics s)(Rtsp rtsp_sessions_current := ucast active)
        in s\<lparr>rs_cleanup := map_option (\<lambda>c. c\<lparr>sc_current := ucast active\<rparr>) (rs_cleanup s),
             rs_metrics := (if ucast active > m (Rtsp rtsp_sessions_peak)
                            then m(Rtsp rtsp_sessions_peak := ucast active) else m)\<rparr>)"

section \<open>Lifecycle\<close>

definition installFactory :: "rtsp \<Rightarrow> bool \<times> rtsp" where
  "installFactory s =
     (if \<not> rs_running s \<or> \<not> rs_server s \<or> rs_factory s \<noteq> None then (False, s)
      else (True, s\<lparr>rs_factory := Some (rs_next_factory s), rs_next_factory := rs_next_factory s + 1,
                    rs_factory_refs := add_ref 1 (Some (rs_next_factory s)) (rs_factory_refs s)\<rparr>))"

definition startRecoveryWorker :: "bool \<Rightarrow> rtsp \<Rightarrow> bool \<times> rtsp" where
  "startRecoveryWorker thread_ok s =
     (if thread_ok then (True, s\<lparr>rs_worker := Some \<lparr>wk_pending = None, wk_stopping = False, wk_current = None\<rparr>\<rparr>)
      else (False, rtsp_failure s))"

text \<open>\<open>resources\<close>: pool, context, loop and watch source exist and are attached.\<close>

definition startSessionCleanup :: "bool \<Rightarrow> bool \<Rightarrow> rtsp \<Rightarrow> bool \<times> rtsp" where
  "startSessionCleanup resources thread_ok s =
     (if \<not> rs_server s \<or> rs_cleanup s \<noteq> None \<or> \<not> resources then (False, s)
      else if \<not> thread_ok then (False, rtsp_bump rtsp_errors s)
      else (True, s\<lparr>rs_cleanup := Some \<lparr>sc_max_sessions = rs_max_sessions s, sc_stopping = False, sc_current = 0,
                                        sc_cleaned = 0\<rparr>\<rparr>))"

definition requestSessionCleanupStop :: "rtsp \<Rightarrow> rtsp" where
  "requestSessionCleanupStop s = (publish_sessions s)\<lparr>rs_cleanup := None\<rparr>"

text \<open>
  \<open>stopLocked\<close> up to the point where it waits: the server stops accepting, the feeder has been
  joined, the sources are destroyed and the recovery worker is told to stop.
\<close>

definition stop_begin :: "rtsp \<Rightarrow> rtsp" where
  "stop_begin s =
     (if \<not> rs_running s then s
      else
        let s1 = s\<lparr>rs_running := False, rs_stopping := True, rs_latest := lq_close (rs_latest s),
                   rs_watchdog := False, rs_listener := False, rs_accepting_clients := False\<rparr>;
            s2 = requestSessionCleanupStop s1
        in s2\<lparr>rs_worker := map_option (\<lambda>w. w\<lparr>wk_stopping := True\<rparr>) (rs_worker s2)\<rparr>)"

text \<open>The report after fifteen seconds of waiting for a running teardown.\<close>

definition stop_delayed :: "rtsp \<Rightarrow> rtsp" where
  "stop_delayed s =
     (if rs_stopping s \<and> \<not> worker_idle s \<and> \<not> rv_failure_reported (rs_recovery s)
      then rtsp_failure (s\<lparr>rs_recovery := (rs_recovery s)\<lparr>rv_failure_reported := True\<rparr>\<rparr>) else s)"

text \<open>The rest, once the worker has been joined.\<close>

definition stop_finish :: "int \<Rightarrow> rtsp \<Rightarrow> rtsp" where
  "stop_finish now s =
     s\<lparr>rs_stopping := False, rs_worker := None, rs_callbacks := False,
       rs_appsrc := None, rs_media := None, rs_factory := None,
       rs_generation := rs_generation s + 1, rs_media_generation := rs_media_generation s + 1,
       rs_push_failures := 0, rs_recovery := idle_recovery, rs_status := Unprepared, rs_status_since_us := now,
       rs_connected := rs_connected s - set_option (rs_media s),
       rs_source_refs := add_ref (- 1) (rs_appsrc s) (rs_source_refs s),
       rs_media_refs := add_ref (- 1) (rs_media s) (rs_media_refs s),
       rs_factory_refs := add_ref (- 1) (rs_factory s) (rs_factory_refs s),
       rs_server := False, rs_threads := False,
       rs_metrics := (rs_metrics s)(Rtsp rtsp_sessions_current := 0)\<rparr>"

text \<open>
  The whole of \<open>stopLocked\<close> when nothing interleaves: the join lets the worker finish the job it
  works on and the one that is pending.
\<close>

definition drain_worker :: "rtsp \<Rightarrow> rtsp" where
  "drain_worker s = worker_run_job (worker_take_job (worker_run_job s))"

definition stopLocked :: "int \<Rightarrow> rtsp \<Rightarrow> rtsp" where
  "stopLocked now s = (if \<not> rs_running s then s else stop_finish now (drain_worker (stop_begin s)))"

text \<open>What can fail during \<open>start\<close>.\<close>

record start_env =
  se_now :: int
  se_callback_state :: bool
  se_loop_and_server :: bool
  se_recovery_thread :: bool
  se_listener :: bool
  se_cleanup_resources :: bool
  se_cleanup_thread :: bool
  se_watchdog :: bool
  se_threads :: bool

definition start_epoch :: "int \<Rightarrow> rtsp \<Rightarrow> rtsp" where
  "start_epoch now s =
     s\<lparr>rs_callback_epoch := rs_callback_epoch s + 1, rs_callbacks := True, rs_latest := lq_reopen (rs_latest s),
       rs_running := True, rs_listener := False, rs_watchdog := False, rs_accepting_clients := False,
       rs_appsrc := None, rs_media := None, rs_factory := None,
       rs_media_generation := rs_media_generation s + 1, rs_push_failures := 0, rs_recovery := idle_recovery,
       rs_next_token := 0, rs_status := Unprepared, rs_status_since_us := now\<rparr>"

text \<open>The part of \<open>start\<close> after the epoch is published; an inner \<open>False\<close> is followed by \<open>stopLocked\<close>.\<close>

definition start_components :: "start_env \<Rightarrow> rtsp \<Rightarrow> bool \<times> rtsp" where
  "start_components env s =
     (if \<not> se_loop_and_server env then (False, rtsp_bump rtsp_errors s)
      else case installFactory (s\<lparr>rs_server := True\<rparr>) of
        (False, s1) \<Rightarrow> (False, s1)
      | (True, s1) \<Rightarrow>
        (case startRecoveryWorker (se_recovery_thread env) s1 of
           (False, s2) \<Rightarrow> (False, s2)
         | (True, s2) \<Rightarrow>
             if \<not> se_listener env then (False, s2)
             else
               (case startSessionCleanup (se_cleanup_resources env) (se_cleanup_thread env)
                       (s2\<lparr>rs_listener := True, rs_accepting_clients := True\<rparr>) of
                  (False, s3) \<Rightarrow> (False, s3)
                | (True, s3) \<Rightarrow>
                    if \<not> se_watchdog env then (False, rtsp_bump rtsp_errors s3)
                    else if \<not> se_threads env then (False, rtsp_bump rtsp_errors (s3\<lparr>rs_watchdog := True\<rparr>))
                    else (True, s3\<lparr>rs_watchdog := True, rs_threads := True\<rparr>))))"

definition rtsp_start :: "start_env \<Rightarrow> rtsp \<Rightarrow> bool \<times> rtsp" where
  "rtsp_start env s =
     (if rs_running s then (False, s)
      else if \<not> se_callback_state env then (False, rtsp_bump rtsp_errors s)
      else case start_components env (start_epoch (se_now env) s) of
             (True, s1) \<Rightarrow> (True, s1)
           | (False, s1) \<Rightarrow> (False, stopLocked (se_now env) s1))"

text \<open>
  A callback carries the callback state of the epoch it was connected in; \<open>CallbackGuard\<close> lets it
  through only while that state still points to the server.
\<close>

definition callback_guard :: "nat \<Rightarrow> (rtsp \<Rightarrow> rtsp) \<Rightarrow> rtsp \<Rightarrow> rtsp" where
  "callback_guard epoch f s = (if epoch = rs_callback_epoch s \<and> rs_callbacks s then f s else s)"

section \<open>Access units\<close>

definition rtsp_submit :: "access_unit option \<Rightarrow> rtsp \<Rightarrow> rtsp" where
  "rtsp_submit unit s =
     (case unit of
        None \<Rightarrow> s
      | Some u \<Rightarrow>
          if \<not> rs_running s then s
          else if rs_appsrc s = None then rtsp_bump rtsp_dropped s
          else let (replaced, q) = lq_push u (rs_latest s); s1 = s\<lparr>rs_latest := q\<rparr>
               in if replaced then rtsp_bump rtsp_dropped s1 else s1)"

record rtsp_buffer =
  rb_payload :: "u8 list"
  rb_pts :: u64
  rb_dts :: u64
  rb_duration :: u64
  rb_offset :: u64
  rb_offset_end :: u64
  rb_delta_unit :: bool

text \<open>\<open>wrapped\<close>: GStreamer could wrap the payload.\<close>

definition makeBuffer :: "bool \<Rightarrow> u32 \<Rightarrow> access_unit \<Rightarrow> u64 \<Rightarrow> rtsp_buffer option" where
  "makeBuffer wrapped fps u index =
     (case payload u of
        None \<Rightarrow> None
      | Some bytes \<Rightarrow>
          if bytes = [] \<or> \<not> wrapped then None
          else let pts = index * GST_SECOND div ucast fps
               in Some \<lparr>rb_payload = bytes, rb_pts = pts, rb_dts = pts,
                        rb_duration = (if duration_ns u \<noteq> 0 then duration_ns u else GST_SECOND div ucast fps),
                        rb_offset = index, rb_offset_end = index + 1, rb_delta_unit = \<not> keyframe u\<rparr>)"

record feeder =
  fd_generation :: u64
  fd_frame_index :: u64
  fd_encoder_generation :: u64
  fd_awaiting_keyframe :: bool

definition feeder_new :: "rtsp \<Rightarrow> feeder" where
  "feeder_new s = \<lparr>fd_generation = rs_generation s, fd_frame_index = 0, fd_encoder_generation = 0,
     fd_awaiting_keyframe = True\<rparr>"

text \<open>
  One iteration of \<open>feederLoop\<close> after \<open>waitPop\<close> returned \<open>u\<close>, up to the push: the buffer to push, if any.
\<close>

definition feed_unit :: "bool \<Rightarrow> access_unit \<Rightarrow> feeder \<Rightarrow> rtsp \<Rightarrow> rtsp_buffer option \<times> feeder \<times> rtsp" where
  "feed_unit wrapped u f s =
     (if rs_appsrc s = None then (None, f, rtsp_bump rtsp_dropped s)
      else
        let f1 = (if rs_generation s \<noteq> fd_generation f \<or> fd_encoder_generation f \<noteq> generation u
                  then \<lparr>fd_generation = rs_generation s, fd_frame_index = 0,
                        fd_encoder_generation = generation u, fd_awaiting_keyframe = True\<rparr>
                  else f)
        in if fd_awaiting_keyframe f1 \<and> \<not> independentlyDecodable u then (None, f1, rtsp_bump rtsp_dropped s)
           else let f2 = f1\<lparr>fd_awaiting_keyframe := False, fd_frame_index := fd_frame_index f1 + 1\<rparr>
                in case makeBuffer wrapped (rs_fps s) u (fd_frame_index f1) of
                     None \<Rightarrow> (None, f2, rtsp_bump rtsp_errors s)
                   | Some b \<Rightarrow> (Some b, f2, s))"

datatype flow = FlowOk | FlowFlushing | FlowFailed

text \<open>The rest of the iteration, with the media generation read before the push.\<close>

definition feed_result :: "flow \<Rightarrow> u64 \<Rightarrow> rtsp \<Rightarrow> rtsp" where
  "feed_result flow media_gen s =
     (let same = rs_media s \<noteq> None \<and> rs_media_generation s = media_gen in
      case flow of
        FlowOk \<Rightarrow>
          let s1 = rtsp_bump rtsp_pushed s in if same then s1\<lparr>rs_push_failures := 0\<rparr> else s1
      | FlowFlushing \<Rightarrow> if same then s\<lparr>rs_push_failures := 0\<rparr> else s
      | FlowFailed \<Rightarrow>
          let s1 = rtsp_bump rtsp_errors s; failures = rs_push_failures s + 1; v = rs_recovery s;
              fresh = rv_state v = RecIdle \<or> rv_generation v \<noteq> media_gen
          in if \<not> same then s1
             else if failures \<ge> 3
             then s1\<lparr>rs_push_failures := failures,
                     rs_next_token := (if fresh then rs_next_token s + 1 else rs_next_token s),
                     rs_recovery := v\<lparr>rv_state := RecRequested, rv_generation := media_gen,
                       rv_token := (if fresh then rs_next_token s + 1 else rv_token v),
                       rv_reason := ''repeated appsrc push failure''\<rparr>\<rparr>
             else s1\<lparr>rs_push_failures := failures\<rparr>)"

definition rtsp_url :: "string \<Rightarrow> string \<Rightarrow> string \<Rightarrow> string" where
  "rtsp_url port mount host = ''rtsp://'' @ host @ '':'' @ port @ mount"

section \<open>Interleavings\<close>

text \<open>
  The program counters of the two threads whose functions span several critical sections: the
  watchdog callback, and the feeder between its push and its second critical section (with the media
  generation it read).
\<close>

datatype watchdog_phase = WdSleep | WdResume | WdLook | WdRecover u64 string

record rtsp_sys =
  sys :: rtsp
  sys_feeder :: feeder
  sys_push :: "u64 option"
  sys_watchdog :: watchdog_phase

inductive rtsp_step :: "rtsp_sys \<Rightarrow> rtsp_sys \<Rightarrow> bool" where
  start: "\<not> rs_running (sys p) \<Longrightarrow> \<not> rs_stopping (sys p) \<Longrightarrow> rtsp_start env (sys p) = (ok, s') \<Longrightarrow>
     rtsp_step p \<lparr>sys = s', sys_feeder = feeder_new s', sys_push = None, sys_watchdog = WdSleep\<rparr>"
| configure: "rtsp_step p (p\<lparr>sys := callback_guard epoch (onMediaConfigure now found factory media) (sys p)\<rparr>)"
| prepared: "rtsp_step p (p\<lparr>sys := callback_guard epoch (onMediaPrepared now found media) (sys p)\<rparr>)"
| unprepared: "rtsp_step p (p\<lparr>sys := callback_guard epoch (onMediaUnprepared now media) (sys p)\<rparr>)"
| target_state: "rtsp_step p (p\<lparr>sys := callback_guard epoch (onMediaTargetState now to_null media) (sys p)\<rparr>)"
| new_state: "rtsp_step p (p\<lparr>sys := callback_guard epoch (onMediaNewState live found media) (sys p)\<rparr>)"
| message: "rtsp_step p (p\<lparr>sys := callback_guard epoch (onMediaHandleMessage now is_error media) (sys p)\<rparr>)"
| new_session: "rtsp_step p (p\<lparr>sys := callback_guard epoch (onClientNewSession active) (sys p)\<rparr>)"
| cleanup: "rs_cleanup (sys p) = Some c \<Longrightarrow>
     rtsp_step p (p\<lparr>sys := (sys p)\<lparr>rs_cleanup := Some (snd (cleanupSessions removed active c))\<rparr>\<rparr>)"
| tick: "sys_watchdog p = WdSleep \<Longrightarrow> rs_running (sys p) \<Longrightarrow> rs_callbacks (sys p) \<Longrightarrow>
     finish_check now (publish_sessions (sys p)) = (torn_down, s') \<Longrightarrow>
     rtsp_step p (p\<lparr>sys := s', sys_watchdog := (if torn_down then WdResume else WdLook)\<rparr>)"
| resume: "sys_watchdog p = WdResume \<Longrightarrow>
     rtsp_step p (p\<lparr>sys := finish_resume (listener_ok \<and> rs_server (sys p)) (sys p), sys_watchdog := WdLook\<rparr>)"
| look: "sys_watchdog p = WdLook \<Longrightarrow>
     rtsp_step p (p\<lparr>sys_watchdog := (case watchdog_decision now (sys p) of None \<Rightarrow> WdSleep
                                       | Some (g, reason) \<Rightarrow> WdRecover g reason)\<rparr>)"
| recover: "sys_watchdog p = WdRecover g reason \<Longrightarrow>
     rtsp_step p (p\<lparr>sys := snd (recoverMedia now alloc_ok g reason (sys p)), sys_watchdog := WdSleep\<rparr>)"
| job_take: "rtsp_step p (p\<lparr>sys := worker_take_job (sys p)\<rparr>)"
| job_run: "rtsp_step p (p\<lparr>sys := worker_run_job (sys p)\<rparr>)"
| submit: "rtsp_step p (p\<lparr>sys := rtsp_submit unit (sys p)\<rparr>)"
| feed: "rs_running (sys p) \<Longrightarrow> sys_push p = None \<Longrightarrow> lq_waitPop (rs_latest (sys p)) = (Popped u, q) \<Longrightarrow>
     feed_unit wrapped u (sys_feeder p) ((sys p)\<lparr>rs_latest := q\<rparr>) = (buffer, f', s') \<Longrightarrow>
     rtsp_step p (p\<lparr>sys := s', sys_feeder := f',
                     sys_push := (if buffer = None then None else Some (rs_media_generation s'))\<rparr>)"
| pushed: "sys_push p = Some g \<Longrightarrow>
     rtsp_step p (p\<lparr>sys := feed_result flow g (sys p), sys_push := None\<rparr>)"
| stop: "rtsp_step p (p\<lparr>sys := stop_begin (sys p)\<rparr>)"
| stop_late: "rtsp_step p (p\<lparr>sys := stop_delayed (sys p)\<rparr>)"
| stopped: "rs_stopping (sys p) \<Longrightarrow> worker_idle (sys p) \<Longrightarrow> sys_push p = None \<Longrightarrow> sys_watchdog p = WdSleep \<Longrightarrow>
     rtsp_step p (p\<lparr>sys := stop_finish now (sys p)\<rparr>)"

definition rtsp_initial :: "u32 \<Rightarrow> u32 \<Rightarrow> metrics \<Rightarrow> rtsp_sys" where
  "rtsp_initial fps max_sessions m =
     (let s = rtsp_new fps max_sessions m
      in \<lparr>sys = s, sys_feeder = feeder_new s, sys_push = None, sys_watchdog = WdSleep\<rparr>)"

section \<open>Ownership\<close>

text \<open>What the worker's jobs hold: the pending job and the one being run.\<close>

definition slot_holds :: "(recovery_job \<Rightarrow> nat option) \<Rightarrow> recovery_job list \<Rightarrow> nat option \<Rightarrow> nat \<Rightarrow> int" where
  "slot_holds sel js j x = (case j of None \<Rightarrow> 0 | Some i \<Rightarrow> holds (sel (js ! i)) x)"

definition job_holds :: "(recovery_job \<Rightarrow> nat option) \<Rightarrow> recovery_worker option \<Rightarrow> recovery_job list \<Rightarrow> nat \<Rightarrow> int" where
  "job_holds sel worker js x =
     (case worker of
        None \<Rightarrow> 0
      | Some w \<Rightarrow> slot_holds sel js (wk_pending w) x + slot_holds sel js (wk_current w) x)"

definition worker_ok :: "recovery_worker option \<Rightarrow> recovery_job list \<Rightarrow> bool" where
  "worker_ok worker js \<longleftrightarrow>
     (case worker of
        None \<Rightarrow> True
      | Some w \<Rightarrow> pred_option (\<lambda>i. i < length js) (wk_pending w)
                  \<and> pred_option (\<lambda>i. i < length js) (wk_current w)
                  \<and> (wk_pending w = wk_current w \<longrightarrow> wk_pending w = None))"

text \<open>Every counted reference has exactly one owner.\<close>

definition owners_ok :: "rtsp \<Rightarrow> bool" where
  "owners_ok s \<longleftrightarrow>
     rs_source_refs s = (\<lambda>x. holds (rs_appsrc s) x + job_holds rj_source (rs_worker s) (rs_jobs s) x)
     \<and> rs_media_refs s = holds (rs_media s)
     \<and> rs_factory_refs s = (\<lambda>x. holds (rs_factory s) x + job_holds rj_factory (rs_worker s) (rs_jobs s) x)
     \<and> rs_connected s = set_option (rs_media s)"

definition service_ok :: "rtsp \<Rightarrow> bool" where
  "service_ok s \<longleftrightarrow>
     rs_accepting_clients s = rs_listener s \<and> (rs_listener s \<longrightarrow> rs_running s)
     \<and> (rs_appsrc s \<noteq> None \<longrightarrow> rs_media s \<noteq> None)
     \<and> \<not> (rs_running s \<and> rs_stopping s)
     \<and> (rs_running s \<or> rs_cleanup s = None)
     \<and> (rs_running s \<or> rs_stopping s \<or> rs_media s = None \<and> rs_factory s = None \<and> rs_worker s = None)
     \<and> (rv_state (rs_recovery s) = RecRunning \<or> rv_state (rs_recovery s) = RecCompleted \<longrightarrow> \<not> rs_listener s)
     \<and> (rv_state (rs_recovery s) = RecRunning \<and> rv_generation (rs_recovery s) = rs_media_generation s
        \<longrightarrow> rs_appsrc s = None)"

definition rtsp_inv :: "rtsp \<Rightarrow> bool" where
  "rtsp_inv s \<longleftrightarrow> worker_ok (rs_worker s) (rs_jobs s) \<and> owners_ok s \<and> service_ok s"

section \<open>Preservation\<close>

lemmas rtsp_inv_defs = rtsp_inv_def owners_ok_def service_ok_def

lemma holds_None [simp]: "holds None = (\<lambda>_. 0)"
  by (simp add: holds_def fun_eq_iff)

lemma slot_holds_simps [simp]:
  "slot_holds sel js None x = 0" "slot_holds sel js (Some i) x = holds (sel (js ! i)) x"
  by (simp_all add: slot_holds_def)

lemma rtsp_bump_simps [simp]:
  "rs_running (rtsp_bump c s) = rs_running s" "rs_stopping (rtsp_bump c s) = rs_stopping s"
  "rs_factory (rtsp_bump c s) = rs_factory s" "rs_listener (rtsp_bump c s) = rs_listener s"
  "rs_accepting_clients (rtsp_bump c s) = rs_accepting_clients s" "rs_worker (rtsp_bump c s) = rs_worker s"
  "rs_jobs (rtsp_bump c s) = rs_jobs s" "rs_cleanup (rtsp_bump c s) = rs_cleanup s"
  "rs_appsrc (rtsp_bump c s) = rs_appsrc s" "rs_media (rtsp_bump c s) = rs_media s"
  "rs_generation (rtsp_bump c s) = rs_generation s" "rs_latest (rtsp_bump c s) = rs_latest s"
  "rs_media_generation (rtsp_bump c s) = rs_media_generation s" "rs_recovery (rtsp_bump c s) = rs_recovery s"
  "rs_status (rtsp_bump c s) = rs_status s" "rs_status_since_us (rtsp_bump c s) = rs_status_since_us s"
  "rs_source_refs (rtsp_bump c s) = rs_source_refs s" "rs_media_refs (rtsp_bump c s) = rs_media_refs s"
  "rs_factory_refs (rtsp_bump c s) = rs_factory_refs s" "rs_connected (rtsp_bump c s) = rs_connected s"
  "rs_server (rtsp_bump c s) = rs_server s" "rs_callbacks (rtsp_bump c s) = rs_callbacks s"
  "rs_callback_epoch (rtsp_bump c s) = rs_callback_epoch s" "rs_next_token (rtsp_bump c s) = rs_next_token s"
  "rs_push_failures (rtsp_bump c s) = rs_push_failures s" "rs_fps (rtsp_bump c s) = rs_fps s"
  "rs_metrics (rtsp_bump c s) = bump (Rtsp c) (rs_metrics s)"
  by (simp_all add: rtsp_bump_def)

text \<open>The fields the invariant reads.\<close>

definition rtsp_view :: "rtsp \<Rightarrow> _" where
  "rtsp_view s = ((rs_running s, rs_stopping s, rs_listener s, rs_accepting_clients s, rs_worker s, rs_jobs s),
     (rs_cleanup s = None, rs_factory s, rs_appsrc s, rs_media s, rs_media_generation s),
     (rv_state (rs_recovery s), rv_generation (rs_recovery s)),
     (rs_source_refs s, rs_media_refs s, rs_factory_refs s, rs_connected s))"

lemma rtsp_inv_view: "rtsp_view t = rtsp_view s \<Longrightarrow> rtsp_inv s \<Longrightarrow> rtsp_inv t"
  by (simp add: rtsp_view_def rtsp_inv_defs)

lemma rtsp_view_bump [simp]: "rtsp_view (rtsp_bump c s) = rtsp_view s"
  by (simp add: rtsp_view_def)

lemma rtsp_view_failure [simp]: "rtsp_view (rtsp_failure s) = rtsp_view s"
  by (simp add: rtsp_failure_def)

lemma rtsp_inv_bump [simp]: "rtsp_inv (rtsp_bump c s) \<longleftrightarrow> rtsp_inv s"
  using rtsp_inv_view[of "rtsp_bump c s" s] rtsp_inv_view[of s "rtsp_bump c s"] by auto

lemma rtsp_inv_failure [simp]: "rtsp_inv (rtsp_failure s) \<longleftrightarrow> rtsp_inv s"
  by (simp add: rtsp_failure_def)

lemma add_ref_cancel [simp]: "add_ref (- 1) obj (add_ref 1 obj refs) = refs"
  by (simp add: add_ref_def fun_eq_iff)

lemma bindMediaSource_inv:
  assumes "rtsp_inv s" "bindMediaSource found media s = (ok, t)"
  shows "rtsp_inv t"
proof (cases found)
  case (Some source)
  show ?thesis
  proof (cases "ok \<and> rs_appsrc s \<noteq> Some source")
    case True
    then have t: "t = s\<lparr>rs_appsrc := Some source, rs_generation := rs_generation s + 1,
        rs_source_refs := add_ref (- 1) (rs_appsrc s) (add_ref 1 (Some source) (rs_source_refs s)),
        rs_latest := lq_clear (rs_latest s)\<rparr>"
      and m: "rs_media s = Some media"
      and v: "rv_state (rs_recovery s) \<noteq> RecRunning \<or> rv_generation (rs_recovery s) \<noteq> rs_media_generation s"
      using assms(2) Some by (auto simp: bindMediaSource_def Let_def split: if_splits)
    have "owners_ok t" using assms(1) unfolding t by (simp add: rtsp_inv_def owners_ok_def add_ref_def fun_eq_iff)
    moreover have "service_ok t" using assms(1) m v unfolding t by (simp add: rtsp_inv_def service_ok_def)
    ultimately show ?thesis using assms(1) by (simp add: rtsp_inv_def t)
  next
    case False
    then have "rtsp_view t = rtsp_view s"
      using assms(2) Some by (auto simp: bindMediaSource_def rtsp_view_def Let_def split: if_splits)
    then show ?thesis using assms(1) rtsp_inv_view by blast
  qed
qed (use assms in \<open>auto simp: bindMediaSource_def\<close>)

text \<open>The three parts of the invariant, to be shown one by one.\<close>

lemma rtsp_invI:
  "worker_ok (rs_worker s) (rs_jobs s) \<Longrightarrow> owners_ok s \<Longrightarrow> service_ok s \<Longrightarrow> rtsp_inv s"
  by (simp add: rtsp_inv_def)

lemma rtsp_invD:
  assumes "rtsp_inv s"
  shows "worker_ok (rs_worker s) (rs_jobs s)" "owners_ok s" "service_ok s"
  using assms by (simp_all add: rtsp_inv_def)

lemmas owners_simps = owners_ok_def add_ref_def fun_eq_iff

lemma request_inv:
  assumes "rtsp_inv s" "rv_state (rs_recovery t) = RecRequested \<or> rv_state (rs_recovery t) = RecIdle"
    and "rtsp_view t = rtsp_view (s\<lparr>rs_recovery := rs_recovery t\<rparr>)"
  shows "rtsp_inv t"
proof -
  have "rtsp_inv (s\<lparr>rs_recovery := rs_recovery t\<rparr>)"
    using rtsp_invD[OF assms(1)] assms(2)
    by (intro rtsp_invI) (auto simp: owners_ok_def service_ok_def)
  then show ?thesis by (rule rtsp_inv_view[OF assms(3)])
qed

lemma onMediaConfigure_inv:
  assumes "rtsp_inv s"
  shows "rtsp_inv (onMediaConfigure now found factory media s)"
proof (cases "rs_running s \<and> rs_factory s = Some factory \<and>
    (rs_media s = None \<or> rs_media s \<noteq> None \<and> (rs_status s = Unpreparing \<or> rs_status s = MediaError))")
  case True
  define s1 where "s1 = s\<lparr>rs_media := Some media, rs_appsrc := None, rs_generation := rs_generation s + 1,
     rs_media_generation := rs_media_generation s + 1, rs_push_failures := 0,
     rs_recovery := (withdraw (rs_recovery s))\<lparr>rv_started_us := 0, rv_failure_reported := False\<rparr>,
     rs_status := Preparing, rs_status_since_us := now,
     rs_media_refs := add_ref (- 1) (rs_media s) (add_ref 1 (Some media) (rs_media_refs s)),
     rs_source_refs := add_ref (- 1) (rs_appsrc s) (rs_source_refs s),
     rs_connected := insert media (rs_connected s - set_option (rs_media s)),
     rs_latest := lq_clear (rs_latest s)\<rparr>"
  have s1: "rtsp_inv s1"
    using rtsp_invD[OF assms] True
    by (intro rtsp_invI) (auto simp: s1_def owners_simps service_ok_def withdraw_def)
  obtain bound s2 where b: "bindMediaSource found media s1 = (bound, s2)" by force
  have s2: "rtsp_inv s2" by (rule bindMediaSource_inv[OF s1 b])
  have "rtsp_inv (s2\<lparr>rs_next_token := n, rs_recovery := (rs_recovery s2)\<lparr>rv_state := RecRequested,
      rv_generation := g, rv_token := n, rv_reason := r\<rparr>\<rparr>)" for n g r
    by (rule request_inv[OF s2]) (simp_all add: rtsp_view_def)
  then show ?thesis using True s2 b by (simp add: onMediaConfigure_def Let_def s1_def[symmetric])
next
  case False
  then show ?thesis using assms by (auto simp: onMediaConfigure_def Let_def)
qed

lemma onMediaPrepared_inv:
  assumes "rtsp_inv s"
  shows "rtsp_inv (onMediaPrepared now found media s)"
proof -
  obtain bound s1 where b: "bindMediaSource found media s = (bound, s1)" by force
  have "rtsp_inv (s1\<lparr>rs_push_failures := 0, rs_status := Prepared, rs_status_since_us := now\<rparr>)"
    by (rule rtsp_inv_view[OF _ bindMediaSource_inv[OF assms b]]) (simp add: rtsp_view_def)
  then show ?thesis using bindMediaSource_inv[OF assms b] b by (simp add: onMediaPrepared_def)
qed

lemma onMediaUnprepared_inv:
  assumes "rtsp_inv s"
  shows "rtsp_inv (onMediaUnprepared now media s)"
  using rtsp_invD[OF assms] assms
  by (intro rtsp_invI) (auto simp: onMediaUnprepared_def Let_def owners_simps service_ok_def idle_recovery_def)

lemma onMediaTargetState_inv:
  assumes "rtsp_inv s"
  shows "rtsp_inv (onMediaTargetState now to_null media s)"
  by (rule rtsp_inv_view[OF _ assms]) (simp add: onMediaTargetState_def rtsp_view_def)

lemma onMediaNewState_inv: "rtsp_inv s \<Longrightarrow> rtsp_inv (onMediaNewState live found media s)"
  using bindMediaSource_inv[of s found media]
  by (cases "bindMediaSource found media s") (auto simp: onMediaNewState_def)

lemma onMediaHandleMessage_inv:
  assumes "rtsp_inv s"
  shows "rtsp_inv (onMediaHandleMessage now is_error media s)"
proof -
  show ?thesis
  proof (cases "is_error \<and> rs_media s = Some media")
    case True
    show ?thesis
      by (rule request_inv[OF assms]) (simp_all add: True onMediaHandleMessage_def Let_def rtsp_view_def)
  qed (use assms in \<open>auto simp: onMediaHandleMessage_def\<close>)
qed

lemma begin_recovery_inv:
  assumes "rtsp_inv s" "recover_check alloc_ok expected s = RecoverStarts"
  shows "rtsp_inv (begin_recovery now expected reason s)"
proof -
  obtain w where w: "rs_worker s = Some w" "wk_pending w = None" "rs_running s"
    using assms(2) by (auto simp: recover_check_def split: if_splits option.splits)
  have c: "pred_option (\<lambda>i. i < length (rs_jobs s)) (wk_current w)"
    using rtsp_invD(1)[OF assms(1)] w by (simp add: worker_ok_def)
  then have js: "slot_holds sel (rs_jobs s @ [j]) (wk_current w) x = slot_holds sel (rs_jobs s) (wk_current w) x" for sel j x
    by (cases "wk_current w") (simp_all add: slot_holds_def nth_append)
  have "worker_ok (rs_worker (begin_recovery now expected reason s)) (rs_jobs (begin_recovery now expected reason s))"
    using c w by (cases "wk_current w") (simp_all add: worker_ok_def begin_recovery_def Let_def)
  moreover have "owners_ok (begin_recovery now expected reason s)"
    using rtsp_invD(2)[OF assms(1)] w
    by (simp add: owners_simps begin_recovery_def Let_def job_holds_def js)
  moreover have "service_ok (begin_recovery now expected reason s)"
    using rtsp_invD(3)[OF assms(1)] w by (simp add: service_ok_def begin_recovery_def Let_def)
  ultimately show ?thesis by (rule rtsp_invI)
qed

lemma recovery_dispatch_failed_inv:
  assumes "rtsp_inv s"
  shows "rtsp_inv (recovery_dispatch_failed expected s)"
proof -
  have "rtsp_inv (s\<lparr>rs_recovery := withdraw v\<rparr>)" for v
    by (rule request_inv[OF assms]) (simp_all add: withdraw_def)
  moreover have "rtsp_inv (s\<lparr>rs_recovery := (rs_recovery s)\<lparr>rv_failure_reported := True\<rparr>\<rparr>)"
    by (rule rtsp_inv_view[OF _ assms]) (simp add: rtsp_view_def)
  ultimately show ?thesis using assms by (simp add: recovery_dispatch_failed_def Let_def)
qed

lemma recoverMedia_inv:
  assumes "rtsp_inv s"
  shows "rtsp_inv (snd (recoverMedia now alloc_ok expected reason s))"
proof -
  have "rtsp_inv (s\<lparr>rs_recovery := withdraw v\<rparr>)" for v
    by (rule request_inv[OF assms]) (simp_all add: withdraw_def)
  then show ?thesis
    using assms begin_recovery_inv[OF assms] recovery_dispatch_failed_inv[OF assms]
    by (simp add: recoverMedia_def split: recover_outcome.split)
qed

lemma report_overdue_view [simp]: "rtsp_view (report_overdue now s) = rtsp_view s"
  by (simp add: report_overdue_def Let_def) (simp add: rtsp_view_def)

lemma finish_check_inv:
  assumes "rtsp_inv s" "finish_check now s = (r, t)"
  shows "rtsp_inv t"
proof -
  let ?s1 = "report_overdue now s"
  have s1: "rtsp_inv ?s1" by (rule rtsp_inv_view[OF report_overdue_view assms(1)])
  then have "rtsp_inv (?s1\<lparr>rs_recovery := (rs_recovery ?s1)\<lparr>rv_state := RecCompleted\<rparr>\<rparr>)"
    if "rv_state (rs_recovery ?s1) = RecRunning"
    using rtsp_invD[OF s1] that by (intro rtsp_invI) (simp_all add: owners_ok_def service_ok_def)
  then show ?thesis using s1 assms(2) by (auto simp: finish_check_def Let_def split: if_splits)
qed

lemma finish_resume_inv:
  assumes "rtsp_inv s"
  shows "rtsp_inv (finish_resume listener_ok s)"
proof -
  have "rtsp_inv (s\<lparr>rs_recovery := (rs_recovery s)\<lparr>rv_failure_reported := True\<rparr>\<rparr>)"
    by (rule rtsp_inv_view[OF _ assms]) (simp add: rtsp_view_def)
  moreover have "rtsp_inv (s\<lparr>rs_listener := True, rs_accepting_clients := True, rs_recovery := idle_recovery\<rparr>)"
    if "rs_running s"
    using rtsp_invD[OF assms] that
    by (intro rtsp_invI) (simp_all add: owners_ok_def service_ok_def idle_recovery_def)
  ultimately show ?thesis using assms by (simp add: finish_resume_def teardown_done_def)
qed

lemma publish_sessions_view [simp]: "rtsp_view (publish_sessions s) = rtsp_view s"
  by (simp add: publish_sessions_def rtsp_view_def split: option.split)

lemma worker_take_job_inv:
  assumes "rtsp_inv s"
  shows "rtsp_inv (worker_take_job s)"
proof (cases "rs_worker s")
  case (Some w)
  show ?thesis
  proof (cases "wk_current w = None \<and> wk_pending w \<noteq> None")
    case True
    define w' where "w' = w\<lparr>wk_current := wk_pending w, wk_pending := None\<rparr>"
    have t: "worker_take_job s = s\<lparr>rs_worker := Some w'\<rparr>"
      using True Some by (simp add: worker_take_job_def w'_def)
    have "job_holds sel (Some w') js = job_holds sel (Some w) js" for sel js
      using True by (simp add: job_holds_def fun_eq_iff w'_def)
    then have "owners_ok (worker_take_job s)" using rtsp_invD(2)[OF assms] Some by (simp add: owners_ok_def t)
    moreover have "worker_ok (Some w') (rs_jobs s)"
      using rtsp_invD(1)[OF assms] Some True by (simp add: worker_ok_def w'_def)
    moreover have "service_ok (worker_take_job s)"
      using rtsp_invD(3)[OF assms] Some by (simp add: service_ok_def t)
    ultimately show ?thesis by (intro rtsp_invI) (simp_all add: t)
  qed (use assms Some in \<open>auto simp: worker_take_job_def\<close>)
qed (use assms in \<open>simp add: worker_take_job_def\<close>)

lemma worker_run_job_inv:
  assumes "rtsp_inv s"
  shows "rtsp_inv (worker_run_job s)"
proof (cases "rs_worker s")
  case (Some w)
  show ?thesis
  proof (cases "wk_current w")
    case (Some j)
    note w = \<open>rs_worker s = Some w\<close>
    let ?j = "(rs_jobs s ! j)\<lparr>rj_source := None, rj_factory := None, rj_done := True\<rparr>"
    have ok: "j < length (rs_jobs s)" "wk_pending w \<noteq> Some j"
      using rtsp_invD(1)[OF assms] w Some by (auto simp: worker_ok_def)
    then have p: "slot_holds sel ((rs_jobs s)[j := ?j]) (wk_pending w) x = slot_holds sel (rs_jobs s) (wk_pending w) x" for sel x
      by (auto simp: slot_holds_def split: option.split)
    have "owners_ok (worker_run_job s)"
      using rtsp_invD(2)[OF assms] w Some
      by (simp add: owners_simps worker_run_job_def job_holds_def Let_def p)
    moreover have "worker_ok (rs_worker (worker_run_job s)) (rs_jobs (worker_run_job s))"
      using rtsp_invD(1)[OF assms] w Some by (simp add: worker_run_job_def worker_ok_def Let_def)
    moreover have "service_ok (worker_run_job s)"
      using rtsp_invD(3)[OF assms] w Some by (simp add: worker_run_job_def service_ok_def Let_def)
    ultimately show ?thesis by (intro rtsp_invI)
  qed (use assms Some in \<open>simp add: worker_run_job_def\<close>)
qed (use assms in \<open>simp add: worker_run_job_def\<close>)

lemma onClientNewSession_inv:
  assumes "rtsp_inv s"
  shows "rtsp_inv (onClientNewSession active s)"
  by (rule rtsp_inv_view[OF _ assms]) (simp add: onClientNewSession_def rtsp_view_def Let_def)

lemma rtsp_submit_inv:
  assumes "rtsp_inv s"
  shows "rtsp_inv (rtsp_submit unit s)"
  by (rule rtsp_inv_view[OF _ assms])
     (auto simp: rtsp_submit_def Let_def rtsp_view_def split: option.split prod.split)

lemma feed_unit_inv:
  assumes "rtsp_inv s" "feed_unit wrapped u f (s\<lparr>rs_latest := q\<rparr>) = (buffer, f', t)"
  shows "rtsp_inv t"
  by (rule rtsp_inv_view[OF _ assms(1)])
     (use assms(2) in \<open>auto simp: feed_unit_def Let_def rtsp_view_def split: option.splits if_splits\<close>)

lemma feed_result_inv:
  assumes "rtsp_inv s"
  shows "rtsp_inv (feed_result flow g s)"
proof (cases "flow = FlowFailed \<and> rs_media s \<noteq> None \<and> rs_media_generation s = g \<and> rs_push_failures s + 1 \<ge> 3")
  case True
  show ?thesis
    by (rule request_inv[OF assms]) (use True in \<open>simp_all add: feed_result_def Let_def rtsp_view_def\<close>)
next
  case False
  show ?thesis
    by (rule rtsp_inv_view[OF _ assms])
       (use False in \<open>cases flow; auto simp: feed_result_def Let_def rtsp_view_def\<close>)
qed

lemma stop_begin_inv:
  assumes "rtsp_inv s"
  shows "rtsp_inv (stop_begin s)"
proof (cases "rs_running s")
  case True
  have p: "rs_worker (publish_sessions t) = rs_worker t" "rs_jobs (publish_sessions t) = rs_jobs t" for t
    using publish_sessions_view[of t] by (simp_all add: rtsp_view_def)
  have j: "job_holds sel (map_option (\<lambda>w. w\<lparr>wk_stopping := True\<rparr>) o') js = job_holds sel o' js"
    "worker_ok (map_option (\<lambda>w. w\<lparr>wk_stopping := True\<rparr>) o') js = worker_ok o' js" for sel o' js
    by (auto simp: job_holds_def worker_ok_def fun_eq_iff split: option.split)
  let ?t = "s\<lparr>rs_running := False, rs_stopping := True, rs_latest := lq_close (rs_latest s),
                   rs_watchdog := False, rs_listener := False, rs_accepting_clients := False\<rparr>"
  have t: "stop_begin s = (publish_sessions ?t)\<lparr>rs_cleanup := None,
      rs_worker := map_option (\<lambda>w. w\<lparr>wk_stopping := True\<rparr>) (rs_worker s)\<rparr>"
    using True by (simp add: stop_begin_def requestSessionCleanupStop_def Let_def p)
  have v: "rtsp_view (publish_sessions ?t) = rtsp_view ?t" by (rule publish_sessions_view)
  show ?thesis
    using rtsp_invD[OF assms] v
    by (intro rtsp_invI) (simp_all add: t rtsp_view_def owners_ok_def service_ok_def p j)
qed (use assms in \<open>simp add: stop_begin_def\<close>)

lemma stop_delayed_inv:
  assumes "rtsp_inv s"
  shows "rtsp_inv (stop_delayed s)"
proof -
  have "rtsp_inv (s\<lparr>rs_recovery := (rs_recovery s)\<lparr>rv_failure_reported := True\<rparr>\<rparr>)"
    by (rule rtsp_inv_view[OF _ assms]) (simp add: rtsp_view_def)
  then show ?thesis using assms by (simp add: stop_delayed_def)
qed

text \<open>After a stop nothing is owned any more.\<close>

definition released :: "rtsp \<Rightarrow> bool" where
  "released s \<longleftrightarrow>
     \<not> rs_running s \<and> \<not> rs_stopping s \<and> \<not> rs_listener s \<and> \<not> rs_server s \<and> rs_media s = None \<and> rs_appsrc s = None
     \<and> rs_factory s = None \<and> rs_worker s = None \<and> rs_connected s = {}
     \<and> rs_source_refs s = (\<lambda>_. 0) \<and> rs_media_refs s = (\<lambda>_. 0) \<and> rs_factory_refs s = (\<lambda>_. 0)"

lemma stop_finish_released:
  assumes "rtsp_inv s" "worker_idle s" "\<not> rs_running s"
  shows "rtsp_inv (stop_finish now s)" "released (stop_finish now s)"
proof -
  have j: "job_holds sel (rs_worker s) js x = 0" for sel js x
    using assms(2) by (auto simp: worker_idle_def job_holds_def split: option.splits)
  show r: "released (stop_finish now s)"
    using rtsp_invD[OF assms(1)] assms(3)
    by (auto simp: released_def stop_finish_def owners_simps service_ok_def j)
  have "rs_accepting_clients s = rs_listener s" "rs_cleanup s = None"
    using rtsp_invD(3)[OF assms(1)] assms(3) by (auto simp: service_ok_def)
  with r show "rtsp_inv (stop_finish now s)"
    by (intro rtsp_invI)
       (auto simp: released_def owners_ok_def service_ok_def worker_ok_def job_holds_def stop_finish_def idle_recovery_def)
qed

lemma released_inv:
  assumes "released s" "rs_cleanup s = None" "\<not> rs_accepting_clients s" "rv_state (rs_recovery s) = RecIdle"
  shows "rtsp_inv s"
  using assms by (intro rtsp_invI) (simp_all add: released_def owners_ok_def service_ok_def worker_ok_def job_holds_def)

lemma drain_worker_idle: "worker_idle (drain_worker s)"
  by (auto simp: drain_worker_def worker_run_job_def worker_take_job_def worker_idle_def Let_def split: option.split)

lemma drain_worker_running: "rs_running (drain_worker s) = rs_running s"
  by (auto simp: drain_worker_def worker_run_job_def worker_take_job_def Let_def split: option.split)

lemma drain_worker_inv: "rtsp_inv s \<Longrightarrow> rtsp_inv (drain_worker s)"
  by (simp add: drain_worker_def worker_run_job_inv worker_take_job_inv)

lemma stop_begin_stops: "\<not> rs_running (stop_begin s)"
  using publish_sessions_view[of "s\<lparr>rs_running := False, rs_stopping := True, rs_latest := lq_close (rs_latest s),
      rs_watchdog := False, rs_listener := False, rs_accepting_clients := False\<rparr>"]
  by (simp add: stop_begin_def requestSessionCleanupStop_def Let_def rtsp_view_def)

lemma stopLocked_inv: "rtsp_inv s \<Longrightarrow> rtsp_inv (stopLocked now s)"
  by (simp add: stopLocked_def stop_finish_released(1) drain_worker_inv stop_begin_inv drain_worker_idle
      drain_worker_running stop_begin_stops)

lemma start_epoch_inv:
  assumes "rtsp_inv s" "\<not> rs_running s" "\<not> rs_stopping s"
  shows "rtsp_inv (start_epoch now s)"
  using rtsp_invD[OF assms(1)] assms(2,3)
  by (intro rtsp_invI) (auto simp: start_epoch_def owners_ok_def service_ok_def worker_ok_def idle_recovery_def)

lemma start_components_inv:
  assumes "rtsp_inv s" "rs_running s" "rs_worker s = None" "rv_state (rs_recovery s) = RecIdle"
  shows "rtsp_inv (snd (start_components env s))"
proof -
  note i = rtsp_invD[OF assms(1)]
  let ?f = "s\<lparr>rs_server := True\<rparr>"
  have f: "rtsp_inv ?f" by (rule rtsp_inv_view[OF _ assms(1)]) (simp add: rtsp_view_def)
  define s1 where "s1 = snd (installFactory ?f)"
  have s1: "rtsp_inv s1"
  proof (cases "rs_factory s = None")
    case True
    then have t: "s1 = ?f\<lparr>rs_factory := Some (rs_next_factory s), rs_next_factory := rs_next_factory s + 1,
        rs_factory_refs := add_ref 1 (Some (rs_next_factory s)) (rs_factory_refs s)\<rparr>"
      using assms(2) by (simp add: s1_def installFactory_def)
    have "owners_ok s1" using i(2) True by (simp add: t owners_simps)
    moreover have "service_ok s1" using i(3) assms(2) by (simp add: t service_ok_def)
    ultimately show ?thesis using i(1) by (intro rtsp_invI) (simp_all add: t)
  qed (use f in \<open>simp add: s1_def installFactory_def\<close>)
  have s1': "rs_running s1" "rs_worker s1 = None" "rv_state (rs_recovery s1) = RecIdle"
    using assms by (simp_all add: s1_def installFactory_def)
  define s2 where "s2 = s1\<lparr>rs_worker := Some \<lparr>wk_pending = None, wk_stopping = False, wk_current = None\<rparr>\<rparr>"
  have s2: "rtsp_inv s2"
    using rtsp_invD[OF s1] s1'
    by (intro rtsp_invI) (simp_all add: s2_def owners_ok_def service_ok_def worker_ok_def job_holds_def)
  define s3 where "s3 = s2\<lparr>rs_listener := True, rs_accepting_clients := True\<rparr>"
  have s3: "rtsp_inv s3"
    using rtsp_invD[OF s2] s1'
    by (intro rtsp_invI) (simp_all add: s3_def s2_def owners_ok_def service_ok_def)
  have c: "rtsp_inv (s3\<lparr>rs_cleanup := c\<rparr>)" for c
    using rtsp_invD[OF s3] s1'
    by (intro rtsp_invI) (simp_all add: s3_def s2_def owners_ok_def service_ok_def)
  have d: "rtsp_inv (s3\<lparr>rs_cleanup := c, rs_watchdog := b, rs_threads := b'\<rparr>)"
    "rtsp_inv (s3\<lparr>rs_cleanup := c, rs_watchdog := b\<rparr>)" for c b b'
    by (rule rtsp_inv_view[OF _ c[of c]], simp add: rtsp_view_def)+
  have e: "start_components env s =
     (if \<not> se_loop_and_server env then (False, rtsp_bump rtsp_errors s)
      else if \<not> fst (installFactory ?f) then (False, s1)
      else if \<not> se_recovery_thread env then (False, rtsp_failure s1)
      else if \<not> se_listener env then (False, s2)
      else (case startSessionCleanup (se_cleanup_resources env) (se_cleanup_thread env) s3 of
              (False, s4) \<Rightarrow> (False, s4)
            | (True, s4) \<Rightarrow>
                if \<not> se_watchdog env then (False, rtsp_bump rtsp_errors s4)
                else if \<not> se_threads env then (False, rtsp_bump rtsp_errors (s4\<lparr>rs_watchdog := True\<rparr>))
                else (True, s4\<lparr>rs_watchdog := True, rs_threads := True\<rparr>)))"
    by (simp add: start_components_def startRecoveryWorker_def s1_def s2_def s3_def split: prod.split bool.split)
  show ?thesis
    unfolding e startSessionCleanup_def using assms(1) s1 s2 s3 c d by simp
qed

lemma rtsp_start_inv:
  assumes "rtsp_inv s" "\<not> rs_stopping s"
  shows "rtsp_inv (snd (rtsp_start env s))"
proof (cases "rs_running s \<or> \<not> se_callback_state env")
  case False
  let ?e = "start_epoch (se_now env) s"
  have e: "rtsp_inv ?e" "rs_running ?e" "rs_worker ?e = None" "rv_state (rs_recovery ?e) = RecIdle"
    using start_epoch_inv[OF assms(1)] assms(2) False rtsp_invD(3)[OF assms(1)]
    by (simp_all add: start_epoch_def idle_recovery_def service_ok_def)
  note c = start_components_inv[OF e, of env]
  obtain b t where t: "start_components env ?e = (b, t)" by force
  show ?thesis using False c stopLocked_inv[OF c, of "se_now env"]
    by (cases b) (simp_all add: rtsp_start_def t)
qed (use assms in \<open>auto simp: rtsp_start_def\<close>)

lemma callback_guard_inv: "rtsp_inv s \<Longrightarrow> rtsp_inv (f s) \<Longrightarrow> rtsp_inv (callback_guard epoch f s)"
  by (simp add: callback_guard_def)

lemma rtsp_step_inv: "rtsp_step p q \<Longrightarrow> rtsp_inv (sys p) \<Longrightarrow> rtsp_inv (sys q)"
proof (induction rule: rtsp_step.induct)
  case (start p env ok s')
  then show ?case using rtsp_start_inv[of "sys p" env] by simp
next
  case (cleanup p c removed active)
  have "rtsp_inv ((sys p)\<lparr>rs_cleanup := Some d\<rparr>)" for d
    by (rule rtsp_inv_view[OF _ cleanup(2)]) (simp add: rtsp_view_def cleanup(1))
  then show ?case by simp
next
  case (tick p now torn_down s')
  have "rtsp_inv (publish_sessions (sys p))" by (rule rtsp_inv_view[OF publish_sessions_view tick(5)])
  then show ?case using finish_check_inv[OF _ tick(4)] by simp
next
  case (feed p u q wrapped buffer f' s')
  show ?case using feed_unit_inv[OF feed(5,4)] by simp
next
  case (stopped p now)
  have "\<not> rs_running (sys p)" using rtsp_invD(3)[OF stopped(5)] stopped(1) by (auto simp: service_ok_def)
  then show ?case using stop_finish_released(1)[OF stopped(5,2)] by simp
qed (simp_all add: callback_guard_inv onMediaConfigure_inv onMediaPrepared_inv onMediaUnprepared_inv
      onMediaTargetState_inv onMediaNewState_inv onMediaHandleMessage_inv onClientNewSession_inv
      finish_resume_inv recoverMedia_inv worker_take_job_inv worker_run_job_inv rtsp_submit_inv
      feed_result_inv stop_begin_inv stop_delayed_inv)

lemma rtsp_reach_inv:
  assumes "rtsp_step\<^sup>*\<^sup>* (rtsp_initial fps max_sessions m) p"
  shows "rtsp_inv (sys p)"
  using assms
proof (induction rule: rtranclp_induct)
  case base
  show ?case
    by (rule released_inv) (simp_all add: rtsp_initial_def rtsp_new_def released_def idle_recovery_def Let_def)
qed (rule rtsp_step_inv)

end
