(* ===== verification/Rtsp_Recovery.thy ===== *)
theory Rtsp_Recovery
  imports Rtsp_Server
begin

text \<open>
  Properties of the RTSP server over every interleaving of its callbacks, its watchdog, its recovery
  worker, its feeder and its lifecycle operations: ownership of GStreamer references, what a recovery
  does and does not touch, that it restores the service, two ways in which the listener is lost for
  good, and where a client's stream starts.
\<close>

section \<open>Ownership\<close>

text \<open>
  C29. In every reachable state each appsrc, media and factory reference the server has taken is held
  by exactly one owner (the current media, the current source, the current factory, or the job the
  recovery worker has pending or is running), signal handlers are connected to the current media
  only, and the server accepts clients exactly when it has a listener, which it has only while it
  runs. Once a stop has completed, nothing is held and nothing is connected.
\<close>

theorem rtsp_ownership:
  assumes "rtsp_step\<^sup>*\<^sup>* (rtsp_initial fps max_sessions m) p"
  defines "s \<equiv> sys p"
  shows "rs_source_refs s x = holds (rs_appsrc s) x + job_holds rj_source (rs_worker s) (rs_jobs s) x
     \<and> rs_media_refs s x = holds (rs_media s) x
     \<and> rs_factory_refs s x = holds (rs_factory s) x + job_holds rj_factory (rs_worker s) (rs_jobs s) x
     \<and> rs_connected s = set_option (rs_media s)
     \<and> rs_accepting_clients s = rs_listener s
     \<and> (if rs_running s then \<not> rs_stopping s else \<not> rs_listener s \<and> rs_cleanup s = None)
     \<and> (if rs_running s \<or> rs_stopping s then True
        else rs_source_refs s x = 0 \<and> rs_media_refs s x = 0 \<and> rs_factory_refs s x = 0 \<and> rs_connected s = {})"
proof -
  note i = rtsp_invD[OF rtsp_reach_inv[OF assms(1)], folded s_def]
  show ?thesis using i(2,3)
    by (auto simp: owners_ok_def service_ok_def job_holds_def fun_eq_iff)
qed

section \<open>Starting a recovery\<close>

text \<open>
  C30. What \<open>recoverMedia\<close> does, for every state: it takes the media down exactly when the server
  runs, the media generation is still the one the caller saw, no recovery is in progress and the
  worker can take a job. Then the job owns the source and one factory reference, the listener is
  closed and the media stays current until it is unprepared. In every other case, failed allocation
  and dispatch included, the source, the media, the listener, the worker and its jobs are untouched,
  so a stale request cannot retire a newer media.
\<close>

theorem recoverMedia_exact:
  "(case recoverMedia now alloc_ok expected reason s of (started, t) \<Rightarrow>
      started = (alloc_ok \<and> rs_running s \<and> rs_media s \<noteq> None \<and> rs_media_generation s = expected
                 \<and> (rv_state (rs_recovery s) = RecIdle \<or> rv_state (rs_recovery s) = RecRequested)
                 \<and> (\<exists>w. rs_worker s = Some w \<and> \<not> wk_stopping w \<and> wk_pending w = None))
      \<and> rs_media t = rs_media s \<and> rs_media_generation t = rs_media_generation s
      \<and> (if started
         then rs_jobs t = rs_jobs s @ [\<lparr>rj_done = False, rj_token = rv_token (rs_recovery t), rj_source = rs_appsrc s,
                                       rj_factory = rs_factory s\<rparr>]
              \<and> map_option wk_pending (rs_worker t) = Some (Some (length (rs_jobs s)))
              \<and> rv_job (rs_recovery t) = Some (length (rs_jobs s))
              \<and> rv_state (rs_recovery t) = RecRunning \<and> rv_generation (rs_recovery t) = expected
              \<and> rs_appsrc t = None \<and> \<not> rs_listener t \<and> \<not> rs_accepting_clients t
         else rs_appsrc t = rs_appsrc s \<and> rs_listener t = rs_listener s \<and> rs_accepting_clients t = rs_accepting_clients s
              \<and> rs_worker t = rs_worker s \<and> rs_jobs t = rs_jobs s \<and> rs_source_refs t = rs_source_refs s))"
proof (cases "recover_check alloc_ok expected s")
  case RecoverStarts
  then show ?thesis
    by (auto simp: recoverMedia_def recover_check_def begin_recovery_def Let_def split: if_splits option.splits)
next
  case RecoverThrows
  then show ?thesis
    by (auto simp: recoverMedia_def recover_check_def recovery_dispatch_failed_def rtsp_failure_def Let_def
        split: if_splits option.splits)
qed (auto simp: recoverMedia_def recover_check_def split: if_splits option.splits)

section \<open>Where a stream starts\<close>

text \<open>The feeder over a sequence of popped units, each with the server state it meets, and what it pushes.\<close>

fun feed_run :: "(access_unit \<times> rtsp) list \<Rightarrow> feeder \<Rightarrow> (u64 \<times> access_unit \<times> rtsp_buffer) list" where
  "feed_run [] f = []"
| "feed_run ((u, s) # us) f =
     (case feed_unit True u f s of
        (None, f', _) \<Rightarrow> feed_run us f'
      | (Some b, f', _) \<Rightarrow> (rs_generation s, u, b) # feed_run us f')"

text \<open>A push opens a stream with a decodable unit at index 0 or continues the previous push.\<close>

fun continues :: "u64 \<times> access_unit \<times> rtsp_buffer \<Rightarrow> u64 \<times> access_unit \<times> rtsp_buffer \<Rightarrow> bool" where
  "continues (g, u, b) (g', u', b') \<longleftrightarrow>
     g' = g \<and> generation u' = generation u \<and> rb_offset b' = rb_offset b + 1"

fun opens :: "u64 \<times> access_unit \<times> rtsp_buffer \<Rightarrow> bool" where
  "opens (g, u, b) \<longleftrightarrow> rb_offset b = 0 \<and> rb_pts b = 0 \<and> independentlyDecodable u"

fun linked :: "(u64 \<times> access_unit \<times> rtsp_buffer) option \<Rightarrow> (u64 \<times> access_unit \<times> rtsp_buffer) list \<Rightarrow> bool" where
  "linked prev [] = True"
| "linked prev (x # xs) = ((opens x \<or> (\<exists>p. prev = Some p \<and> continues p x)) \<and> linked (Some x) xs)"

definition feeder_link :: "(u64 \<times> access_unit \<times> rtsp_buffer) option \<Rightarrow> feeder \<Rightarrow> bool" where
  "feeder_link prev f \<longleftrightarrow>
     (if fd_awaiting_keyframe f then fd_frame_index f = 0
      else \<exists>u b. prev = Some (fd_generation f, u, b) \<and> generation u = fd_encoder_generation f
                 \<and> rb_offset b + 1 = fd_frame_index f)"

definition has_bytes :: "access_unit \<Rightarrow> bool" where
  "has_bytes u \<longleftrightarrow> (case payload u of None \<Rightarrow> False | Some bytes \<Rightarrow> bytes \<noteq> [])"

lemma feed_unit_link:
  assumes "feeder_link prev f" "has_bytes u" "feed_unit True u f s = (buffer, f', t)"
  shows "case buffer of
           None \<Rightarrow> feeder_link prev f'
         | Some b \<Rightarrow> feeder_link (Some (rs_generation s, u, b)) f'
                     \<and> (opens (rs_generation s, u, b) \<or> (\<exists>p. prev = Some p \<and> continues p (rs_generation s, u, b)))"
proof -
  obtain bytes where bytes: "payload u = Some bytes" "bytes \<noteq> []"
    using assms(2) by (auto simp: has_bytes_def split: option.splits)
  define f1 where "f1 = (if rs_generation s \<noteq> fd_generation f \<or> fd_encoder_generation f \<noteq> generation u
      then \<lparr>fd_generation = rs_generation s, fd_frame_index = 0, fd_encoder_generation = generation u,
            fd_awaiting_keyframe = True\<rparr> else f)"
  have f1: "feeder_link prev f1" "fd_generation f1 = rs_generation s" "fd_encoder_generation f1 = generation u"
    using assms(1) by (auto simp: f1_def feeder_link_def)
  show ?thesis
    using assms(1,3) f1 bytes
    by (auto simp: feed_unit_def Let_def f1_def[symmetric] makeBuffer_def feeder_link_def split: if_splits)
qed

lemma feed_run_linked:
  assumes "feeder_link prev f" "list_all (has_bytes \<circ> fst) us"
  shows "linked prev (feed_run us f)"
  using assms
proof (induction us f arbitrary: prev rule: feed_run.induct)
  case (2 u s us f)
  obtain buffer f' t where r: "feed_unit True u f s = (buffer, f', t)" by (metis prod_cases3)
  note l = feed_unit_link[OF 2(3) _ r]
  show ?case
    using 2(1)[OF r[symmetric]] 2(2)[OF r[symmetric]] 2(4) l r
    by (cases buffer) auto
qed simp


definition sample_access_unit :: "u64 \<Rightarrow> bool \<Rightarrow> access_unit" where
  "sample_access_unit g idr = \<lparr>sensor_timestamp_ns = 1, pts_ns = 0, dts_ns = 0, duration_ns = 0, generation = g,
     keyframe = idr, has_sps = idr, has_pps = idr, payload = Some [1]\<rparr>"

definition sample_env :: start_env where
  "sample_env = \<lparr>se_now = 1, se_callback_state = True, se_loop_and_server = True, se_recovery_thread = True,
     se_listener = True, se_cleanup_resources = True, se_cleanup_thread = True, se_watchdog = True, se_threads = True\<rparr>"

definition sample_started :: rtsp where
  "sample_started = snd (rtsp_start sample_env (rtsp_new 30 32 metrics_init))"

text \<open>A running server whose media 0 with appsrc 0 is prepared.\<close>

definition sample_live :: rtsp where
  "sample_live = onMediaPrepared 3 (Some 0) 0 (onMediaConfigure 2 (Some 0) 0 0 sample_started)"

lemmas sample_defs = sample_started_def sample_env_def rtsp_start_def start_epoch_def start_components_def
  installFactory_def startRecoveryWorker_def startSessionCleanup_def rtsp_new_def idle_recovery_def

lemma sample_started_simps:
  "rs_running sample_started" "\<not> rs_stopping sample_started" "rs_server sample_started"
  "rs_listener sample_started" "rs_factory sample_started = Some 0" "rs_media sample_started = None"
  "rs_worker sample_started = Some \<lparr>wk_pending = None, wk_stopping = False, wk_current = None\<rparr>"
  "rs_media_generation sample_started = 1" "rs_jobs sample_started = []" "rs_appsrc sample_started = None"
  "rs_recovery sample_started = idle_recovery" "rs_callback_epoch sample_started = 1" "rs_callbacks sample_started"
  "rs_next_token sample_started = 0" "rs_generation sample_started = 0" "rs_fps sample_started = 30"
  "fst (rtsp_start sample_env (rtsp_new 30 32 metrics_init))"
  by (simp_all add: sample_defs Let_def)

lemmas live_defs = sample_live_def onMediaPrepared_def onMediaConfigure_def bindMediaSource_def withdraw_def Let_def

lemma sample_live_simps:
  "rs_running sample_live" "\<not> rs_stopping sample_live" "rs_server sample_live" "rs_listener sample_live"
  "rs_factory sample_live = Some 0" "rs_media sample_live = Some 0" "rs_appsrc sample_live = Some 0"
  "rs_worker sample_live = Some \<lparr>wk_pending = None, wk_stopping = False, wk_current = None\<rparr>"
  "rs_media_generation sample_live = 2" "rs_jobs sample_live = []" "rs_recovery sample_live = idle_recovery"
  "rs_callback_epoch sample_live = 1" "rs_callbacks sample_live" "rs_next_token sample_live = 0"
  "rs_generation sample_live = 2" "rs_fps sample_live = 30" "rs_status sample_live = Prepared"
  by (simp_all add: live_defs sample_started_simps) (simp add: idle_recovery_def)


section \<open>Completing a recovery\<close>

lemma recovery_completes:
  assumes "recoverMedia n0 alloc_ok g reason s = (True, t)" "worker_idle s" "rs_media s = Some m" "rs_server s" "g \<noteq> 0"
    and u: "u = worker_run_job (onMediaUnprepared n1 m (worker_take_job t))
            \<or> u = onMediaUnprepared n1 m (worker_run_job (worker_take_job t))"
  shows "rs_running u \<and> rs_media u = None \<and> rs_appsrc u = None \<and> \<not> rs_accepting_clients u \<and> rs_server u
     \<and> rv_state (rs_recovery u) = RecRunning \<and> teardown_done u \<and> worker_idle u
     \<and> rs_metrics u = rs_metrics s"
proof -
  have check: "recover_check alloc_ok g s = RecoverStarts" and t: "t = begin_recovery n0 g reason s"
    using assms(1) by (auto simp: recoverMedia_def split: recover_outcome.splits)
  obtain w where w: "rs_worker s = Some w" "wk_pending w = None" "wk_current w = None" "rs_running s"
    "rs_media_generation s = g"
    using check assms(2) by (auto simp: recover_check_def worker_idle_def split: if_splits option.splits)
  show ?thesis using u w assms(3-5)
    by (auto simp: t begin_recovery_def worker_take_job_def worker_run_job_def onMediaUnprepared_def Let_def
        teardown_done_def job_finished_def worker_idle_def)
qed



section \<open>Losing the listener\<close>

text \<open>
  The server runs, has no listener, so no client can connect, and no media, and no recovery is under
  way that could open the listener again.
\<close>

definition listener_lost :: "rtsp_sys \<Rightarrow> bool" where
  "listener_lost p \<longleftrightarrow>
     rs_running (sys p) \<and> \<not> rs_listener (sys p) \<and> rs_media (sys p) = None
     \<and> rv_state (rs_recovery (sys p)) \<noteq> RecRunning \<and> sys_watchdog p \<noteq> WdResume"

text \<open>Steps that leave the server running and configure no new media.\<close>

definition quiet_step :: "rtsp_sys \<Rightarrow> rtsp_sys \<Rightarrow> bool" where
  "quiet_step p q \<longleftrightarrow> rtsp_step p q \<and> rs_running (sys q) \<and> rs_media (sys q) = None"

lemma bindMediaSource_without_media:
  "rs_media s = None \<Longrightarrow> rtsp_view (snd (bindMediaSource found media s)) = rtsp_view s"
  by (simp add: bindMediaSource_def Let_def rtsp_view_def split: option.split)

lemma worker_steps_keep:
  "rs_running (worker_take_job s) = rs_running s" "rs_listener (worker_take_job s) = rs_listener s"
  "rs_media (worker_take_job s) = rs_media s" "rs_recovery (worker_take_job s) = rs_recovery s"
  "rs_running (worker_run_job s) = rs_running s" "rs_listener (worker_run_job s) = rs_listener s"
  "rs_media (worker_run_job s) = rs_media s" "rs_recovery (worker_run_job s) = rs_recovery s"
  by (simp_all add: worker_take_job_def worker_run_job_def Let_def split: option.split)

lemma listener_lost_step:
  assumes "rtsp_step p q" "rs_running (sys q)" "rs_media (sys q) = None" "listener_lost p"
  shows "listener_lost q"
  using assms
proof (induction rule: rtsp_step.induct)
  case (configure p epoch now found factory media)
  have "onMediaConfigure now found factory media (sys p) = sys p
      \<or> rs_media (onMediaConfigure now found factory media (sys p)) \<noteq> None"
    using bindMediaSource_inv
    by (auto simp: onMediaConfigure_def bindMediaSource_def Let_def split: option.splits prod.splits if_splits)
  then show ?case using configure by (auto simp: callback_guard_def listener_lost_def split: if_splits)
next
  case (prepared p epoch now found media)
  then have "rtsp_view (snd (bindMediaSource found media (sys p))) = rtsp_view (sys p)"
    by (intro bindMediaSource_without_media) (simp add: listener_lost_def)
  then show ?case using prepared
    by (auto simp: callback_guard_def onMediaPrepared_def listener_lost_def rtsp_view_def split: prod.splits)
next
  case (new_state p epoch live found media)
  then have "rtsp_view (snd (bindMediaSource found media (sys p))) = rtsp_view (sys p)"
    by (intro bindMediaSource_without_media) (simp add: listener_lost_def)
  then show ?case using new_state
    by (auto simp: callback_guard_def onMediaNewState_def listener_lost_def rtsp_view_def)
next
  case (tick p now torn_down s')
  have "rtsp_view (report_overdue now (publish_sessions (sys p))) = rtsp_view (sys p)" by simp
  then show ?case using tick by (auto simp: listener_lost_def finish_check_def rtsp_view_def Let_def split: if_splits)
next
  case (recover p g reason now alloc_ok)
  then show ?case
    by (auto simp: listener_lost_def recoverMedia_def recover_check_def recovery_dispatch_failed_def rtsp_failure_def
        withdraw_def Let_def)
next
  case (feed p u q wrapped buffer f' s')
  then show ?case by (auto simp: listener_lost_def feed_unit_def Let_def split: if_splits option.splits)
next
  case (pushed p g flow)
  then show ?case by (cases flow) (auto simp: listener_lost_def feed_result_def Let_def)
next
  case (submit p unit)
  then show ?case by (auto simp: listener_lost_def rtsp_submit_def Let_def split: option.splits prod.splits if_splits)
next
  case (stop p)
  then show ?case using stop_begin_stops[of "sys p"] by simp
qed (auto simp: listener_lost_def callback_guard_def onMediaUnprepared_def onMediaTargetState_def onMediaHandleMessage_def
      onClientNewSession_def stop_delayed_def stop_finish_def idle_recovery_def rtsp_failure_def worker_steps_keep Let_def
      split: option.splits if_splits)

text \<open>
  A server that lost its listener does not get it back: as long as it is not stopped and no media is configured,
  which takes a client that no listener lets in, no watchdog tick, callback, worker or feeder step
  opens the listener again.
\<close>

lemma listener_lost_persists:
  assumes "quiet_step\<^sup>*\<^sup>* p q" "listener_lost p"
  shows "listener_lost q \<and> \<not> rs_listener (sys q)"
proof -
  have "listener_lost q" using assms
    by (induction rule: rtranclp_induct) (auto simp: quiet_step_def intro: listener_lost_step)
  then show ?thesis by (simp add: listener_lost_def)
qed

text \<open>The run both scenarios share: the media of \<open>sample_live\<close> reports an error and the watchdog starts a recovery.\<close>

definition sample_running :: rtsp where
  "sample_running = begin_recovery 6 2 ''media bus reported an error''
     (report_overdue 5 (publish_sessions (onMediaHandleMessage 4 True 0 sample_live)))"

lemma publish_sessions_keeps [simp]:
  "rs_running (publish_sessions s) = rs_running s" "rs_media (publish_sessions s) = rs_media s"
  "rs_recovery (publish_sessions s) = rs_recovery s" "rs_jobs (publish_sessions s) = rs_jobs s"
  "rs_worker (publish_sessions s) = rs_worker s" "rs_server (publish_sessions s) = rs_server s"
  "rs_media_generation (publish_sessions s) = rs_media_generation s" "rs_callbacks (publish_sessions s) = rs_callbacks s"
  "rs_callback_epoch (publish_sessions s) = rs_callback_epoch s" "rs_listener (publish_sessions s) = rs_listener s"
  "rs_accepting_clients (publish_sessions s) = rs_accepting_clients s"
  by (simp_all add: publish_sessions_def split: option.split)

lemma sample_running_simps:
  "rs_running sample_running" "\<not> rs_listener sample_running" "rs_media sample_running = Some 0"
  "rs_media_generation sample_running = 2" "rs_callbacks sample_running" "rs_callback_epoch sample_running = 1"
  "rs_server sample_running"
  "rs_worker sample_running = Some \<lparr>wk_pending = Some 0, wk_stopping = False, wk_current = None\<rparr>"
  "rs_jobs sample_running = [\<lparr>rj_done = False, rj_token = 1, rj_source = rs_appsrc
     (report_overdue 5 (publish_sessions (onMediaHandleMessage 4 True 0 sample_live))), rj_factory = rs_factory
     (report_overdue 5 (publish_sessions (onMediaHandleMessage 4 True 0 sample_live)))\<rparr>]"
  "rv_state (rs_recovery sample_running) = RecRunning" "rv_generation (rs_recovery sample_running) = 2"
  "rv_token (rs_recovery sample_running) = 1" "rv_job (rs_recovery sample_running) = Some 0"
  "rv_failure_reported (rs_recovery sample_running) = False" "rv_started_us (rs_recovery sample_running) = 6"
  by (simp_all add: sample_running_def begin_recovery_def report_overdue_def onMediaHandleMessage_def Let_def
      sample_live_simps idle_recovery_def)

lemma sample_running_reachable:
  "\<exists>f. rtsp_step\<^sup>*\<^sup>* (rtsp_initial 30 32 metrics_init) \<lparr>sys = sample_running, sys_feeder = f, sys_push = None,
     sys_watchdog = WdSleep\<rparr>"
proof -
  let ?f = "feeder_new sample_started"
  let ?p = "\<lambda>s w. \<lparr>sys = s, sys_feeder = ?f, sys_push = None, sys_watchdog = w\<rparr>"
  let ?e = "onMediaHandleMessage 4 True 0 sample_live"
  let ?l = "report_overdue 5 (publish_sessions ?e)"
  have 1: "rtsp_step (rtsp_initial 30 32 metrics_init) (?p sample_started WdSleep)"
    using rtsp_step.start[of "rtsp_initial 30 32 metrics_init" sample_env True sample_started] sample_started_simps(17)
    by (simp add: rtsp_initial_def Let_def sample_started_def[symmetric] prod_eq_iff) (simp add: rtsp_new_def)
  have 2: "rtsp_step (?p sample_started WdSleep) (?p (onMediaConfigure 2 (Some 0) 0 0 sample_started) WdSleep)"
    using rtsp_step.configure[of "?p sample_started WdSleep" 1 2 "Some 0" 0 0]
    by (simp add: callback_guard_def sample_started_simps)
  have c: "rs_callback_epoch (onMediaConfigure 2 (Some 0) 0 0 sample_started) = 1"
    "rs_callbacks (onMediaConfigure 2 (Some 0) 0 0 sample_started)"
    by (simp_all add: onMediaConfigure_def bindMediaSource_def sample_started_simps Let_def withdraw_def idle_recovery_def)
  have 3: "rtsp_step (?p (onMediaConfigure 2 (Some 0) 0 0 sample_started) WdSleep) (?p sample_live WdSleep)"
    using rtsp_step.prepared[of "?p (onMediaConfigure 2 (Some 0) 0 0 sample_started) WdSleep" 1 3 "Some 0" 0]
    by (simp add: callback_guard_def sample_live_def[symmetric] c)
  have 4: "rtsp_step (?p sample_live WdSleep) (?p ?e WdSleep)"
    using rtsp_step.message[of "?p sample_live WdSleep" 1 4 True 0]
    by (simp add: callback_guard_def sample_live_simps)
  have e: "rs_running ?e" "rs_callbacks ?e" "rs_media ?e = Some 0" "rs_media_generation ?e = 2"
    "rs_worker ?e = Some \<lparr>wk_pending = None, wk_stopping = False, wk_current = None\<rparr>"
    "rv_state (rs_recovery ?e) = RecRequested" "rv_generation (rs_recovery ?e) = 2"
    "rv_reason (rs_recovery ?e) = ''media bus reported an error''"
    by (simp_all add: onMediaHandleMessage_def Let_def sample_live_simps idle_recovery_def)
  have l: "?l = publish_sessions ?e" using e by (simp add: report_overdue_def Let_def)
  have 5: "rtsp_step (?p ?e WdSleep) (?p ?l WdLook)"
    using rtsp_step.tick[of "?p ?e WdSleep" 5 False ?l] e by (simp add: finish_check_def Let_def l)
  have d: "watchdog_decision 6 ?l = Some (2, ''media bus reported an error'')"
    using e by (simp add: watchdog_decision_def l)
  have 6: "rtsp_step (?p ?l WdLook) (?p ?l (WdRecover 2 ''media bus reported an error''))"
    using rtsp_step.look[of "?p ?l WdLook" 6] by (simp add: d)
  have r: "recoverMedia 6 True 2 ''media bus reported an error'' ?l = (True, sample_running)"
    using e by (simp add: recoverMedia_def recover_check_def l sample_running_def)
  have 7: "rtsp_step (?p ?l (WdRecover 2 ''media bus reported an error'')) (?p sample_running WdSleep)"
    using rtsp_step.recover[of "?p ?l (WdRecover 2 ''media bus reported an error'')" 2 "''media bus reported an error''" 6 True]
    by (simp add: r)
  from 1 2 3 4 5 6 7 show ?thesis by (intro exI[of _ ?f]) (meson rtranclp.rtrancl_into_rtrancl rtranclp.rtrancl_refl)
qed

lemma error_during_teardown:
  "\<exists>p. rtsp_step\<^sup>*\<^sup>* (rtsp_initial 30 32 metrics_init) p \<and> listener_lost p \<and> worker_idle (sys p)
      \<and> rs_recovery (sys p) = idle_recovery \<and> sys_watchdog p = WdSleep \<and> rs_callbacks (sys p)"
proof -
  obtain f where run: "rtsp_step\<^sup>*\<^sup>* (rtsp_initial 30 32 metrics_init)
      \<lparr>sys = sample_running, sys_feeder = f, sys_push = None, sys_watchdog = WdSleep\<rparr>"
    using sample_running_reachable by blast
  let ?p = "\<lambda>s. \<lparr>sys = s, sys_feeder = f, sys_push = None, sys_watchdog = WdSleep\<rparr>"
  let ?a = "onMediaHandleMessage 7 True 0 sample_running"
  let ?b = "onMediaUnprepared 8 0 ?a"
  have a: "rs_callbacks ?a" "rs_callback_epoch ?a = 1" "rs_running ?a" "\<not> rs_listener ?a" "rs_media ?a = Some 0"
    "rv_state (rs_recovery ?a) = RecRequested" "rs_worker ?a = rs_worker sample_running"
    by (simp_all add: onMediaHandleMessage_def Let_def sample_running_simps)
  have 1: "rtsp_step (?p sample_running) (?p ?a)"
    using rtsp_step.message[of "?p sample_running" 1 7 True 0] by (simp add: callback_guard_def sample_running_simps)
  have 2: "rtsp_step (?p ?a) (?p ?b)"
    using rtsp_step.unprepared[of "?p ?a" 1 8 0] by (simp add: callback_guard_def a)
  have b: "rs_running ?b" "\<not> rs_listener ?b" "rs_media ?b = None" "rs_recovery ?b = idle_recovery"
    "rs_worker ?b = rs_worker sample_running" "rs_callbacks ?b"
    using a by (simp_all add: onMediaUnprepared_def Let_def)
  have 3: "rtsp_step (?p ?b) (?p (worker_take_job ?b))" using rtsp_step.job_take[of "?p ?b"] by simp
  have 4: "rtsp_step (?p (worker_take_job ?b)) (?p (worker_run_job (worker_take_job ?b)))"
    using rtsp_step.job_run[of "?p (worker_take_job ?b)"] by simp
  let ?q = "?p (worker_run_job (worker_take_job ?b))"
  have "rtsp_step\<^sup>*\<^sup>* (rtsp_initial 30 32 metrics_init) ?q"
    using run 1 2 3 4 by (meson rtranclp.rtrancl_into_rtrancl)
  moreover have "listener_lost ?q" using b by (simp add: listener_lost_def worker_steps_keep idle_recovery_def)
  moreover have "worker_idle (sys ?q)"
    using b by (simp add: worker_idle_def worker_run_job_def worker_take_job_def sample_running_simps Let_def)
  moreover have "rs_callbacks (sys ?q)"
    using b by (simp add: worker_run_job_def worker_take_job_def sample_running_simps Let_def)
  moreover have "rs_recovery (sys ?q) = idle_recovery" using b by (simp add: worker_steps_keep)
  ultimately show ?thesis by (intro exI[of _ ?q]) simp
qed

text \<open>
  A listener that cannot be reopened at the end of a recovery is not retried: the recovery is already
  marked completed, and only a running recovery is looked at again.
\<close>

lemma failed_listener_is_not_retried:
  "\<exists>p. rtsp_step\<^sup>*\<^sup>* (rtsp_initial 30 32 metrics_init) p \<and> listener_lost p \<and> worker_idle (sys p)
      \<and> rv_state (rs_recovery (sys p)) = RecCompleted \<and> sys_watchdog p = WdSleep"
proof -
  obtain f where run: "rtsp_step\<^sup>*\<^sup>* (rtsp_initial 30 32 metrics_init)
      \<lparr>sys = sample_running, sys_feeder = f, sys_push = None, sys_watchdog = WdSleep\<rparr>"
    using sample_running_reachable by blast
  let ?p = "\<lambda>s w. \<lparr>sys = s, sys_feeder = f, sys_push = None, sys_watchdog = w\<rparr>"
  let ?a = "worker_take_job sample_running"
  let ?b = "worker_run_job ?a"
  let ?c = "onMediaUnprepared 7 0 ?b"
  let ?d = "snd (finish_check 8 (publish_sessions ?c))"
  let ?e = "finish_resume False ?d"
  have 1: "rtsp_step (?p sample_running WdSleep) (?p ?a WdSleep)" using rtsp_step.job_take[of "?p sample_running WdSleep"] by simp
  have 2: "rtsp_step (?p ?a WdSleep) (?p ?b WdSleep)" using rtsp_step.job_run[of "?p ?a WdSleep"] by simp
  have b: "rs_callbacks ?b" "rs_callback_epoch ?b = 1" "rs_running ?b" "\<not> rs_listener ?b" "rs_media ?b = Some 0"
    "rs_media_generation ?b = 2" "rs_recovery ?b = rs_recovery sample_running" "worker_idle ?b"
    "rj_token (rs_jobs ?b ! 0) = 1" "rj_done (rs_jobs ?b ! 0)"
    by (simp_all add: worker_run_job_def worker_take_job_def sample_running_simps Let_def worker_idle_def)
  have 3: "rtsp_step (?p ?b WdSleep) (?p ?c WdSleep)"
    using rtsp_step.unprepared[of "?p ?b WdSleep" 1 7 0] by (simp add: callback_guard_def b)
  have c: "rs_callbacks ?c" "rs_running ?c" "\<not> rs_listener ?c" "rs_media ?c = None"
    "rs_recovery ?c = (rs_recovery sample_running)\<lparr>rv_media_unprepared := True\<rparr>" "rs_jobs ?c = rs_jobs ?b"
    "rs_worker ?c = rs_worker ?b"
    using b by (simp_all add: onMediaUnprepared_def Let_def sample_running_simps)
  have t: "teardown_done (publish_sessions ?c)"
    using b c by (simp add: teardown_done_def job_finished_def sample_running_simps)
  have o: "report_overdue 8 (publish_sessions ?c) = publish_sessions ?c"
    using c by (simp add: report_overdue_def Let_def sample_running_simps)
  have d: "?d = (publish_sessions ?c)\<lparr>rs_recovery := (rs_recovery ?c)\<lparr>rv_state := RecCompleted\<rparr>\<rparr>"
    "fst (finish_check 8 (publish_sessions ?c))"
    using c t by (simp_all add: finish_check_def o Let_def sample_running_simps)
  have 4: "rtsp_step (?p ?c WdSleep) (?p ?d WdResume)"
    using rtsp_step.tick[of "?p ?c WdSleep" 8 True ?d] c d(2) by (simp add: prod_eq_iff)
  have 5: "rtsp_step (?p ?d WdResume) (?p ?e WdLook)" using rtsp_step.resume[of "?p ?d WdResume" False] by simp
  have e: "rs_running ?e" "\<not> rs_listener ?e" "rs_media ?e = None" "rv_state (rs_recovery ?e) = RecCompleted"
    "rs_worker ?e = rs_worker ?b"
    using c by (simp_all add: d(1) finish_resume_def rtsp_failure_def)
  have 6: "rtsp_step (?p ?e WdLook) (?p ?e WdSleep)"
    using rtsp_step.look[of "?p ?e WdLook" 9] e by (simp add: watchdog_decision_def)
  have "rtsp_step\<^sup>*\<^sup>* (rtsp_initial 30 32 metrics_init) (?p ?e WdSleep)"
    using run 1 2 3 4 5 6 by (meson rtranclp.rtrancl_into_rtrancl)
  moreover have "listener_lost (?p ?e WdSleep)" using e by (simp add: listener_lost_def)
  moreover have "worker_idle ?e" using b(8) e(5) by (simp add: worker_idle_def)
  ultimately show ?thesis using e by (intro exI[of _ "?p ?e WdSleep"]) simp
qed

text \<open>
  C33. The listener can be lost for good, in two ways that are both reachable from start-up and leave the
  worker idle with nothing left to do. A media error reported while its own recovery is tearing it down
  turns the running recovery back into a request, so when the media is unprepared the server takes it
  for an ordinary release and forgets the recovery that was to reopen the listener. And a listener that
  cannot be reopened at the end of a recovery is not retried, because the recovery is already marked
  completed. In both cases no run of watchdog ticks, callbacks, worker and feeder steps without a new
  media and without a stop opens the listener again.
\<close>

theorem listener_can_be_lost:
  "(\<exists>p. rtsp_step\<^sup>*\<^sup>* (rtsp_initial 30 32 metrics_init) p \<and> listener_lost p \<and> worker_idle (sys p)
      \<and> rs_recovery (sys p) = idle_recovery \<and> sys_watchdog p = WdSleep
      \<and> \<not> (\<exists>q. quiet_step\<^sup>*\<^sup>* p q \<and> rs_listener (sys q)))
   \<and> (\<exists>p. rtsp_step\<^sup>*\<^sup>* (rtsp_initial 30 32 metrics_init) p \<and> listener_lost p \<and> worker_idle (sys p)
      \<and> rv_state (rs_recovery (sys p)) = RecCompleted \<and> sys_watchdog p = WdSleep
      \<and> \<not> (\<exists>q. quiet_step\<^sup>*\<^sup>* p q \<and> rs_listener (sys q)))"
  using error_during_teardown failed_listener_is_not_retried listener_lost_persists by metis

section \<open>Witnesses\<close>

theorem rtsp_ownership_witness:
  "\<exists>p. rtsp_step\<^sup>*\<^sup>* (rtsp_initial 30 32 metrics_init) p \<and> rs_media (sys p) = Some 0
      \<and> rs_media_refs (sys p) 0 = 1 \<and> rs_connected (sys p) = {0} \<and> \<not> rs_accepting_clients (sys p)"
proof -
  obtain f where run: "rtsp_step\<^sup>*\<^sup>* (rtsp_initial 30 32 metrics_init)
      \<lparr>sys = sample_running, sys_feeder = f, sys_push = None, sys_watchdog = WdSleep\<rparr>"
    using sample_running_reachable by blast
  note own = rtsp_ownership[OF run, of 0]
  have "rs_media_refs sample_running 0 = 1" "rs_connected sample_running = {0}" "\<not> rs_accepting_clients sample_running"
    using own by (simp_all add: sample_running_simps holds_def)
  then show ?thesis using run sample_running_simps(3)
    by (intro exI[of _ "\<lparr>sys = sample_running, sys_feeder = f, sys_push = None, sys_watchdog = WdSleep\<rparr>"]) simp
qed

end
