(* ===== verification/Float_Rounding.thy ===== *)
theory Float_Rounding
  imports Cxx_Number
begin

text \<open>
  Facts about the rounding of \<open>Cxx_Number\<close> that the numeric code relies on: the binary exponent brackets
  its argument, rounding is exact on representable numbers, never passes a representable number, and
  its relative error is at most half a unit in the last place.
\<close>

section \<open>Binary exponent\<close>

lemma pow2_power_int: "pow2 k = 2 powi k"
  by (simp add: pow2_def power_int_def power_one_over)

lemma pow2_add: "pow2 (a + b) = pow2 a * pow2 b"
  by (simp add: pow2_power_int power_int_add)

lemma pow2_mono: "a < b \<Longrightarrow> pow2 a < pow2 b"
  unfolding pow2_power_int by (rule power_int_strict_increasing) simp_all

lemma pow2_less_iff [simp]: "pow2 a < pow2 b \<longleftrightarrow> a < b"
  using pow2_mono[of a b] pow2_mono[of b a] by (cases a b rule: linorder_cases) auto

lemma pow2_le_iff [simp]: "pow2 a \<le> pow2 b \<longleftrightarrow> a \<le> b"
  by (simp flip: not_less)

lemma pow2_nat: "pow2 (int n) = 2 ^ n"
  by (simp add: pow2_def)

lemma pow2_nonzero [simp]: "pow2 k \<noteq> 0"
  by (rule less_imp_neq[OF pow2_pos, symmetric])

lemma pow2_nonneg [simp]: "0 \<le> pow2 k"
  by (rule less_imp_le[OF pow2_pos])

lemma pow2_diff: "pow2 (a - b) = pow2 a / pow2 b"
  by (simp add: pow2_power_int power_int_diff)

lemma bit_len_bounds: "0 < n \<Longrightarrow> pow2 (bit_len n - 1) \<le> of_int n \<and> of_int n < pow2 (bit_len n) \<and> 0 < bit_len n"
proof (induction n rule: bit_len.induct)
  case (1 n)
  show ?case
  proof (cases "n = 1")
    case True
    then show ?thesis by (simp add: bit_len.simps[of 1] bit_len.simps[of 0] pow2_def)
  next
    case False
    then have pos: "0 < n div 2" using 1(2) by simp
    let ?b = "bit_len (n div 2)"
    have b: "bit_len n = 1 + ?b" using 1(2) by (simp add: bit_len.simps[of n])
    have IH: "pow2 (?b - 1) \<le> of_int (n div 2)" "of_int (n div 2) < pow2 ?b" "0 < ?b"
      using 1 pos by auto
    have double: "pow2 (1 + k) = 2 * pow2 k" for k by (simp add: pow2_add) (simp add: pow2_def)
    have whole: "pow2 ?b = of_int (2 ^ nat ?b)" using IH(3) by (simp add: pow2_def)
    have "n div 2 < 2 ^ nat ?b" using IH(2) unfolding whole of_int_less_iff .
    then have "n < 2 * 2 ^ nat ?b" by simp
    then have "(of_int n :: rat) < of_int (2 * 2 ^ nat ?b)" unfolding of_int_less_iff .
    then have upper: "of_int n < pow2 (1 + ?b)" unfolding double whole by simp
    have "2 * of_int (n div 2) \<le> (of_int n :: rat)"
      using of_int_le_iff[of "2 * (n div 2)" n, where 'a = rat] by simp
    then have lower: "pow2 ?b \<le> of_int n" using IH(1) double[of "?b - 1"] by simp
    show ?thesis using upper lower IH(3) by (simp add: b)
  qed
qed

lemma ilog2_bounds:
  assumes "0 < q"
  shows "pow2 (ilog2 q) \<le> q" "q < pow2 (ilog2 q + 1)"
proof -
  obtain n d where nd: "quotient_of q = (n, d)" by (cases "quotient_of q")
  have d: "0 < d" and q: "q = of_int n / of_int d"
    using quotient_of_denom_pos[OF nd] quotient_of_div[OF nd] by simp_all
  have n: "0 < n" using assms d unfolding q by (simp add: zero_less_divide_iff)
  let ?k = "bit_len n - bit_len d"
  note N = bit_len_bounds[OF n] and D = bit_len_bounds[OF d]
  have "pow2 (bit_len n - 1) / pow2 (bit_len d) \<le> q"
    unfolding q using N D d n by (intro frac_le) auto
  then have low: "pow2 (?k - 1) \<le> q" by (simp add: pow2_diff mult.commute)
  have "q < pow2 (bit_len n) / pow2 (bit_len d - 1)"
    unfolding q using N D n by (intro frac_less) auto
  then have high: "q < pow2 (?k + 1)" using pow2_diff[of "bit_len n" "bit_len d - 1"]
    by (simp add: algebra_simps)
  have e: "ilog2 q = (if pow2 ?k \<le> q then ?k else ?k - 1)" by (simp add: ilog2_def nd)
  show "pow2 (ilog2 q) \<le> q" "q < pow2 (ilog2 q + 1)" using low high by (auto simp: e)
qed

lemma ilog2_less: "0 < q \<Longrightarrow> q < pow2 k \<Longrightarrow> ilog2 q < k"
  using ilog2_bounds(1)[of q] order.strict_trans1 pow2_less_iff by blast

lemma ilog2_ge: "pow2 k \<le> q \<Longrightarrow> k \<le> ilog2 q"
proof -
  assume k: "pow2 k \<le> q"
  then have "0 < q" using pow2_pos[of k] by linarith
  from ilog2_bounds(2)[OF this] k have "pow2 k < pow2 (ilog2 q + 1)" by linarith
  then show ?thesis by simp
qed

section \<open>Rounding to an integer\<close>

lemma round_even_near: "\<bar>of_int (round_even x) - x\<bar> \<le> 1 / 2"
  using floor_correct[of x] by (auto simp: round_even_def Let_def)

lemma round_even_le: "x \<le> of_int n \<Longrightarrow> round_even x \<le> n"
proof -
  assume "x \<le> of_int n"
  then have "of_int (round_even x) \<le> (of_int n + 1 / 2 :: rat)" "of_int (round_even x) < x + 1"
    using round_even_near[of x] by linarith+
  then have "(of_int (round_even x) :: rat) < of_int (n + 1)" by simp
  then show ?thesis unfolding of_int_less_iff by simp
qed

lemma round_even_ge: "of_int n \<le> x \<Longrightarrow> n \<le> round_even x"
proof -
  assume "of_int n \<le> x"
  then have "(of_int n :: rat) < of_int (round_even x + 1)"
    using round_even_near[of x] unfolding of_int_add of_int_1 by linarith
  then show ?thesis unfolding of_int_less_iff by simp
qed

lemma round_even_tie: "even n \<Longrightarrow> x \<le> of_int n + 1 / 2 \<Longrightarrow> round_even x \<le> n"
proof (cases "x \<le> of_int n")
  case False
  assume n: "even n" "x \<le> of_int n + 1 / 2"
  then have "\<lfloor>x\<rfloor> = n" using False by (intro floor_unique) auto
  then show ?thesis using n by (auto simp: round_even_def Let_def)
qed (rule round_even_le)

section \<open>Rounding to a format\<close>

lemma multiple_of_ulp: "u \<le> e \<Longrightarrow> of_int c * pow2 e = of_int (c * 2 ^ nat (e - u)) * pow2 u"
  using pow2_add[of "int (nat (e - u))" u] by (simp only: pow2_nat) simp

lemma round_mag_le:
  assumes "q \<le> of_int c * pow2 e" "ulp_exp F q \<le> e"
  shows "round_mag F q \<le> of_int c * pow2 e"
proof -
  let ?u = "ulp_exp F q"
  note m = multiple_of_ulp[OF assms(2), of c]
  have "q / pow2 ?u \<le> of_int (c * 2 ^ nat (e - ?u))"
    using assms(1) unfolding m by (simp add: divide_le_eq)
  from round_even_le[OF this] show ?thesis
    unfolding m round_mag_def by (simp only: mult_le_cancel_right_pos[OF pow2_pos] of_int_le_iff)
qed

lemma round_mag_ge:
  assumes "of_int c * pow2 e \<le> q" "ulp_exp F q \<le> e"
  shows "of_int c * pow2 e \<le> round_mag F q"
proof -
  let ?u = "ulp_exp F q"
  note m = multiple_of_ulp[OF assms(2), of c]
  have "of_int (c * 2 ^ nat (e - ?u)) \<le> q / pow2 ?u"
    using assms(1) unfolding m by (simp add: le_divide_eq)
  from round_even_ge[OF this] show ?thesis
    unfolding m round_mag_def by (simp only: mult_le_cancel_right_pos[OF pow2_pos] of_int_le_iff)
qed

lemma round_mag_near: "\<bar>round_mag F q - q\<bar> \<le> pow2 (ulp_exp F q) / 2"
proof -
  let ?u = "pow2 (ulp_exp F q)"
  have "\<bar>of_int (round_even (q / ?u)) - q / ?u\<bar> * ?u \<le> 1 / 2 * ?u"
    by (rule mult_right_mono[OF round_even_near]) simp
  also have "\<bar>of_int (round_even (q / ?u)) - q / ?u\<bar> * ?u = \<bar>(of_int (round_even (q / ?u)) - q / ?u) * ?u\<bar>"
    by (simp add: abs_mult)
  also have "(of_int (round_even (q / ?u)) - q / ?u) * ?u = round_mag F q - q"
    by (simp add: round_mag_def left_diff_distrib)
  finally show ?thesis by simp
qed

lemma round_mag_nonneg: "0 \<le> q \<Longrightarrow> 0 \<le> round_mag F q"
  by (simp add: round_mag_def round_even_nonneg)

section \<open>Single precision\<close>

lemma ulp32_le:
  assumes "0 < q" "q \<le> of_int c * pow2 e" "c < 2 ^ 24" "- 149 \<le> e"
  shows "ulp_exp binary32 q \<le> e" "q < pow2 (24 + e)"
proof -
  have "c \<le> 2 ^ 24" using assms(3) by simp
  then have "(of_int c :: rat) < of_int (2 ^ 24)" using assms(3) unfolding of_int_less_iff by simp
  then have "of_int c * pow2 e < pow2 24 * pow2 e" by (simp add: pow2_def[of 24])
  from order.strict_trans1[OF assms(2) this] show upper: "q < pow2 (24 + e)" unfolding pow2_add .
  from ilog2_less[OF assms(1) this] show "ulp_exp binary32 q \<le> e"
    using assms(4) by (simp add: ulp_exp_def binary32_def)
qed

lemma round_mag_0 [simp]: "round_mag F 0 = 0"
  by (simp add: round_mag_def round_even_def)

lemma round_mag32_le:
  assumes "0 \<le> q" "q \<le> of_int c * pow2 e" "c < 2 ^ 24" "- 149 \<le> e"
  shows "round_mag binary32 q \<le> of_int c * pow2 e"
proof (cases "q = 0")
  case False
  then show ?thesis using assms ulp32_le(1)[of q c e] by (intro round_mag_le) auto
qed (use assms in simp)

lemma fround32:
  assumes "0 \<le> q" "q \<le> of_int c * pow2 e" "c < 2 ^ 24" "- 149 \<le> e" "e \<le> 100"
  shows "fround binary32 q = Fin (round_mag binary32 q)"
proof (cases "round_mag binary32 q = 0")
  case True
  moreover have "ilog2 0 \<le> 127" by code_simp
  ultimately show ?thesis using assms(1) by (simp add: fround_def binary32_def)
next
  case False
  then have "0 < round_mag binary32 q" using round_mag_nonneg[OF assms(1), of binary32] by simp
  from ulp32_le(2)[OF this round_mag32_le[OF assms(1-4)] assms(3,4)] this
  have "ilog2 (round_mag binary32 q) \<le> 127"
    using ilog2_less[of "round_mag binary32 q" "24 + e"] assms(5) by simp
  then show ?thesis using assms(1) by (auto simp: fround_def sgn_if binary32_def)
qed

lemma round_mag32_exact:
  assumes "0 \<le> c" "c < 2 ^ 24" "- 149 \<le> e"
  shows "round_mag binary32 (of_int c * pow2 e) = of_int c * pow2 e"
proof (cases "c = 0")
  case False
  let ?q = "of_int c * pow2 e"
  have "0 < ?q" using assms(1) False by simp
  from ulp32_le(1)[OF this order.refl assms(2,3)]
  show ?thesis by (intro antisym round_mag_le round_mag_ge) auto
qed simp

lemma fround32_int: "0 \<le> n \<Longrightarrow> n < 2 ^ 24 \<Longrightarrow> fround binary32 (of_int n) = Fin (of_int n)"
  using fround32[of "of_int n" n 0] round_mag32_exact[of n 0] by (simp add: pow2_def)

lemma fround32_numerals [simp]:
  "fround F 0 = Fin 0" "fround binary32 1 = Fin 1"
  "(numeral n :: int) < 2 ^ 24 \<Longrightarrow> fround binary32 (numeral n) = Fin (numeral n)"
  using fround32_int[of 1] fround32_int[of "numeral n"] by (simp_all add: fround_def[of F])

text \<open>In the normal range the relative error is at most \<open>2^-24\<close>.\<close>

lemma round_mag32_near:
  assumes "pow2 (- 126) \<le> q"
  shows "\<bar>round_mag binary32 q - q\<bar> \<le> q / 2 ^ 24"
proof -
  have q: "0 < q" using assms pow2_pos[of "- 126"] by linarith
  have "ulp_exp binary32 q = ilog2 q - 23"
    using ilog2_ge[OF assms] by (simp add: ulp_exp_def binary32_def)
  then have "pow2 (ulp_exp binary32 q) / 2 = pow2 (ilog2 q) / 2 ^ 24"
    by (simp add: pow2_diff) (simp add: pow2_def)
  also have "\<dots> \<le> q / 2 ^ 24" using ilog2_bounds(1)[OF q] by (simp add: divide_right_mono)
  finally show ?thesis using round_mag_near[of binary32 q] by (rule order.trans[rotated])
qed

end
