(* ===== verification/Detections.thy ===== *)
theory Detections
  imports Float_Rounding "HOL-Library.Multiset" "HOL-Library.Sublist"
begin

text \<open>
  The numeric part of inference (\<open>src/inference.cpp\<close>): letterbox geometry, the inverse mapping of a
  box, non-maximum suppression, tensor normalisation and the decoding of the output tensor. \<open>float\<close>
  is \<open>fval\<close> rounded to \<open>binary32\<close> after every operation, so NaN, infinities and rounding are those of
  the program.

  OpenCV's rectangle intersection and area are parameters of \<open>intersectionOverUnion\<close>, and \<open>std::sort\<close>,
  whose order of equivalent elements is unspecified, is a parameter of \<open>nonMaximumSuppression\<close>; the
  locale \<open>confidence_sort\<close> states what the standard guarantees of it and is interpreted on an
  insertion sort.
\<close>

section \<open>Single precision\<close>

abbreviation add32 :: "fval \<Rightarrow> fval \<Rightarrow> fval" where "add32 \<equiv> fadd binary32"
abbreviation sub32 :: "fval \<Rightarrow> fval \<Rightarrow> fval" where "sub32 \<equiv> fsub binary32"
abbreviation mul32 :: "fval \<Rightarrow> fval \<Rightarrow> fval" where "mul32 \<equiv> fmul binary32"
abbreviation div32 :: "fval \<Rightarrow> fval \<Rightarrow> fval" where "div32 \<equiv> fdiv binary32"

definition float_of_int :: "int \<Rightarrow> fval" where
  "float_of_int i = fround binary32 (of_int i)"

definition std_min :: "fval \<Rightarrow> fval \<Rightarrow> fval" where
  "std_min a b = (if fless b a then b else a)"

definition std_max :: "fval \<Rightarrow> fval \<Rightarrow> fval" where
  "std_max a b = (if fless a b then b else a)"

definition std_clamp :: "fval \<Rightarrow> fval \<Rightarrow> fval \<Rightarrow> fval" where
  "std_clamp v lo hi = (if fless v lo then lo else if fless hi v then hi else v)"

text \<open>
  \<open>static_cast<int>(std::round(x))\<close>: to nearest, halves away from zero; \<open>None\<close> where the conversion is
  undefined.
\<close>

definition round_away :: "rat \<Rightarrow> int" where
  "round_away q = (if 0 \<le> q then \<lfloor>q + 1 / 2\<rfloor> else - \<lfloor>- q + 1 / 2\<rfloor>)"

definition round_to_int :: "fval \<Rightarrow> int option" where
  "round_to_int x =
     (case x of
        Fin q \<Rightarrow> (let i = round_away q in if - (2 ^ 31) \<le> i \<and> i < 2 ^ 31 then Some i else None)
      | _ \<Rightarrow> None)"

text \<open>Integer division by two, truncating towards zero.\<close>

definition half :: "int \<Rightarrow> int" where
  "half i = (if 0 \<le> i then i div 2 else - ((- i) div 2))"

section \<open>Letterbox\<close>

record letterbox =
  lb_scale :: fval
  lb_pad_x :: int
  lb_pad_y :: int
  lb_resized_width :: int
  lb_resized_height :: int

definition calculateLetterbox :: "int \<Rightarrow> int \<Rightarrow> int \<Rightarrow> int \<Rightarrow> letterbox option" where
  "calculateLetterbox source_width source_height target_width target_height =
     (let scale = std_min (div32 (float_of_int target_width) (float_of_int source_width))
                          (div32 (float_of_int target_height) (float_of_int source_height))
      in case (round_to_int (mul32 (float_of_int source_width) scale),
               round_to_int (mul32 (float_of_int source_height) scale)) of
           (Some width, Some height) \<Rightarrow>
             Some \<lparr>lb_scale = scale, lb_pad_x = half (target_width - width), lb_pad_y = half (target_height - height),
                   lb_resized_width = width, lb_resized_height = height\<rparr>
         | _ \<Rightarrow> None)"

record rect =
  rx :: fval
  ry :: fval
  rwidth :: fval
  rheight :: fval

definition restoreLetterboxBox :: "rect \<Rightarrow> letterbox \<Rightarrow> int \<Rightarrow> int \<Rightarrow> rect" where
  "restoreLetterboxBox box t source_width source_height =
     (let back_x = (\<lambda>v. std_clamp (div32 (sub32 v (float_of_int (lb_pad_x t))) (lb_scale t)) (Fin 0)
                          (float_of_int source_width));
          back_y = (\<lambda>v. std_clamp (div32 (sub32 v (float_of_int (lb_pad_y t))) (lb_scale t)) (Fin 0)
                          (float_of_int source_height));
          left = back_x (rx box);
          top = back_y (ry box);
          right = back_x (add32 (rx box) (rwidth box));
          bottom = back_y (add32 (ry box) (rheight box))
      in \<lparr>rx = left, ry = top, rwidth = std_max (Fin 0) (sub32 right left),
          rheight = std_max (Fin 0) (sub32 bottom top)\<rparr>)"

section \<open>Non-maximum suppression\<close>

record detection =
  class_id :: int
  confidence :: fval
  box :: rect

definition intersectionOverUnion :: "(rect \<Rightarrow> rect \<Rightarrow> rect) \<Rightarrow> (rect \<Rightarrow> fval) \<Rightarrow> rect \<Rightarrow> rect \<Rightarrow> fval" where
  "intersectionOverUnion meet area a b =
     (let intersection = area (meet a b);
          union_area = sub32 (add32 (area a) (area b)) intersection
      in if fless (Fin 0) union_area then div32 intersection union_area else Fin 0)"

text \<open>The two nested loops, over the sorted detections paired with their \<open>suppressed\<close> flags.\<close>

definition overlaps :: "(rect \<Rightarrow> rect \<Rightarrow> fval) \<Rightarrow> fval \<Rightarrow> detection \<Rightarrow> detection \<Rightarrow> bool" where
  "overlaps iou threshold d e \<longleftrightarrow> class_id d = class_id e \<and> fless threshold (iou (box d) (box e))"

function nms_loop :: "(rect \<Rightarrow> rect \<Rightarrow> fval) \<Rightarrow> fval \<Rightarrow> (detection \<times> bool) list \<Rightarrow> detection list" where
  "nms_loop iou threshold [] = []"
| "nms_loop iou threshold ((d, suppressed) # rest) =
     (if suppressed then nms_loop iou threshold rest
      else d # nms_loop iou threshold (map (\<lambda>(e, s). (e, s \<or> overlaps iou threshold d e)) rest))"
  by pat_completeness auto

termination nms_loop
  by (relation "measure (\<lambda>(iou, threshold, ds). length ds)") auto

definition nonMaximumSuppression :: "(detection list \<Rightarrow> detection list) \<Rightarrow> (rect \<Rightarrow> rect \<Rightarrow> rect)
     \<Rightarrow> (rect \<Rightarrow> fval) \<Rightarrow> fval \<Rightarrow> detection list \<Rightarrow> detection list" where
  "nonMaximumSuppression std_sort meet area threshold detections =
     nms_loop (intersectionOverUnion meet area) threshold (map (\<lambda>d. (d, False)) (std_sort detections))"

section \<open>Tensor normalisation\<close>

text \<open>An 8-bit BGR image, row by row; a pixel is blue, green, red.\<close>

type_synonym pixel = "u8 \<times> u8 \<times> u8"

definition kInv255 :: fval where
  "kInv255 = div32 (Fin 1) (Fin 255)"

definition normalized :: "u8 \<Rightarrow> fval" where
  "normalized v = mul32 (Fin (of_int (uint v))) kInv255"

fun write_pixel :: "nat \<Rightarrow> nat \<Rightarrow> pixel \<Rightarrow> fval list \<Rightarrow> fval list" where
  "write_pixel plane_size index (b, g, r) destination =
     destination[index := normalized r, plane_size + index := normalized g, 2 * plane_size + index := normalized b]"

fun write_row :: "nat \<Rightarrow> nat \<Rightarrow> pixel list \<Rightarrow> fval list \<Rightarrow> fval list" where
  "write_row plane_size index [] destination = destination"
| "write_row plane_size index (p # ps) destination =
     write_row plane_size (index + 1) ps (write_pixel plane_size index p destination)"

fun write_rows :: "nat \<Rightarrow> nat \<Rightarrow> nat \<Rightarrow> pixel list list \<Rightarrow> fval list \<Rightarrow> fval list" where
  "write_rows plane_size cols y [] destination = destination"
| "write_rows plane_size cols y (row # rows) destination =
     write_rows plane_size cols (y + 1) rows (write_row plane_size (y * cols) row destination)"

definition bgrToNormalizedRgbChw :: "nat \<Rightarrow> pixel list list \<Rightarrow> fval list \<Rightarrow> fval list" where
  "bgrToNormalizedRgbChw cols rows destination = write_rows (cols * length rows) cols 0 rows destination"

section \<open>Decoding the output tensor\<close>

text \<open>One row of the output; a row has at least six fields.\<close>

definition decode_row :: "fval \<Rightarrow> letterbox \<Rightarrow> int \<Rightarrow> int \<Rightarrow> fval list \<Rightarrow> detection option" where
  "decode_row threshold t cols rows row =
     (let conf = mul32 (row ! 4) (row ! 5)
      in if fless conf threshold then None
         else
           let restored = restoreLetterboxBox
                 \<lparr>rx = sub32 (row ! 0) (div32 (row ! 2) (Fin 2)), ry = sub32 (row ! 1) (div32 (row ! 3) (Fin 2)),
                  rwidth = row ! 2, rheight = row ! 3\<rparr> t cols rows
           in if fless (Fin 0) (rwidth restored) \<and> fless (Fin 0) (rheight restored)
              then Some \<lparr>class_id = 0, confidence = conf, box = restored\<rparr> else None)"

definition decode_output :: "(detection list \<Rightarrow> detection list) \<Rightarrow> (rect \<Rightarrow> rect \<Rightarrow> rect) \<Rightarrow> (rect \<Rightarrow> fval)
     \<Rightarrow> fval \<Rightarrow> fval \<Rightarrow> letterbox \<Rightarrow> int \<Rightarrow> int \<Rightarrow> fval list list \<Rightarrow> detection list" where
  "decode_output std_sort meet area confidence_threshold nms_threshold t cols rows tensor =
     nonMaximumSuppression std_sort meet area nms_threshold
       (List.map_filter (decode_row confidence_threshold t cols rows) tensor)"

section \<open>Suppression\<close>

text \<open>What \<open>std::sort\<close> guarantees for the comparison by falling confidence, when no confidence is NaN.\<close>

definition by_confidence :: "detection list \<Rightarrow> bool" where
  "by_confidence ds \<longleftrightarrow> sorted_wrt (\<lambda>d e. \<not> fless (confidence d) (confidence e)) ds"

definition ordered :: "detection \<Rightarrow> bool" where
  "ordered d \<longleftrightarrow> confidence d \<noteq> FNaN"

locale confidence_sort =
  fixes std_sort :: "detection list \<Rightarrow> detection list"
  assumes same: "mset (std_sort ds) = mset ds"
    and falling: "list_all ordered ds \<Longrightarrow> by_confidence (std_sort ds)"
begin

lemma sort_set: "set (std_sort ds) = set ds"
  using mset_eq_setD[OF same] .

end

text \<open>No later element of the list is overlapped by an earlier one.\<close>

definition mutually_clear :: "(rect \<Rightarrow> rect \<Rightarrow> fval) \<Rightarrow> fval \<Rightarrow> detection list \<Rightarrow> bool" where
  "mutually_clear iou threshold ds \<longleftrightarrow> sorted_wrt (\<lambda>d e. \<not> overlaps iou threshold d e) ds"

text \<open>The reference: walk down the sorted list and keep what no kept detection overlaps.\<close>

fun greedy :: "(rect \<Rightarrow> rect \<Rightarrow> fval) \<Rightarrow> fval \<Rightarrow> detection list \<Rightarrow> detection list \<Rightarrow> detection list" where
  "greedy iou threshold kept [] = kept"
| "greedy iou threshold kept (d # ds) =
     greedy iou threshold (if list_ex (\<lambda>k. overlaps iou threshold k d) kept then kept else kept @ [d]) ds"

lemma nms_loop_greedy:
  "kept @ nms_loop iou t (map (\<lambda>e. (e, list_ex (\<lambda>k. overlaps iou t k e) kept)) ds) = greedy iou t kept ds"
proof (induction ds arbitrary: kept)
  case (Cons d ds)
  show ?case
  proof (cases "list_ex (\<lambda>k. overlaps iou t k d) kept")
    case False
    then show ?thesis using Cons.IH[of "kept @ [d]"] by (simp add: comp_def)
  qed (simp add: Cons.IH)
qed simp

lemma nonMaximumSuppression_greedy: "nonMaximumSuppression std_sort meet area t ds = greedy (intersectionOverUnion meet area) t [] (std_sort ds)"
  using nms_loop_greedy[of "[]" "intersectionOverUnion meet area" t "std_sort ds"] by (simp add: nonMaximumSuppression_def comp_def)

lemma greedy_grows: "\<exists>r. greedy iou t kept ds = kept @ r \<and> subseq r ds"
proof (induction ds arbitrary: kept)
  case (Cons d ds)
  show ?case using Cons.IH[of kept] Cons.IH[of "kept @ [d]"] by (auto simp: subseq_Cons2)
qed simp

lemma greedy_subset: "set kept \<subseteq> set (greedy iou t kept ds)"
  using greedy_grows[of iou t kept ds] by auto

lemma greedy_independent: "mutually_clear iou t kept \<Longrightarrow> mutually_clear iou t (greedy iou t kept ds)"
  by (induction ds arbitrary: kept) (auto simp: mutually_clear_def sorted_wrt_append list_ex_iff)

lemma greedy_covers:
  assumes "by_confidence (kept @ ds)" "d \<in> set ds"
  shows "d \<in> set (greedy iou t kept ds)
    \<or> list_ex (\<lambda>k. overlaps iou t k d \<and> \<not> fless (confidence k) (confidence d)) (greedy iou t kept ds)"
  using assms
proof (induction ds arbitrary: kept)
  case (Cons e ds)
  let ?kept = "if list_ex (\<lambda>k. overlaps iou t k e) kept then kept else kept @ [e]"
  have sorted: "by_confidence (?kept @ ds)" and first: "\<forall>k \<in> set kept. \<not> fless (confidence k) (confidence e)"
    using Cons.prems(1) by (auto simp: by_confidence_def sorted_wrt_append)
  show ?case
  proof (cases "d \<in> set ds")
    case True
    then show ?thesis using Cons.IH[OF sorted] by simp
  next
    case False
    then have "d = e" using Cons.prems(2) by simp
    moreover have "set ?kept \<subseteq> set (greedy iou t kept (e # ds))" using greedy_subset[of ?kept iou t ds] by simp
    ultimately show ?thesis using first by (auto simp: list_ex_iff split: if_splits)
  qed
qed simp

lemma subseq_mset: "subseq xs ys \<Longrightarrow> mset xs \<subseteq># mset ys"
  by (induction xs ys rule: list_emb.induct) (auto simp: subset_mset.le_add_same_cancel2 intro: subset_mset.trans)

lemma subseq_sorted_wrt: "subseq xs ys \<Longrightarrow> sorted_wrt P ys \<Longrightarrow> sorted_wrt P xs"
  by (induction xs ys rule: list_emb.induct) (auto dest: list_emb_set)

context confidence_sort
begin

lemma kept_subset: "mset (nonMaximumSuppression std_sort meet area t ds) \<subseteq># mset ds"
  using greedy_grows[of "intersectionOverUnion meet area" t "[]" "std_sort ds"] same[of ds]
  by (auto simp: nonMaximumSuppression_greedy dest: subseq_mset)

lemma kept_independent: "mutually_clear (intersectionOverUnion meet area) t (nonMaximumSuppression std_sort meet area t ds)"
  unfolding nonMaximumSuppression_greedy by (rule greedy_independent) (simp add: mutually_clear_def)

lemma kept_falling: "list_all ordered ds \<Longrightarrow> by_confidence (nonMaximumSuppression std_sort meet area t ds)"
  using greedy_grows[of "intersectionOverUnion meet area" t "[]" "std_sort ds"] falling[of ds]
  by (auto simp: nonMaximumSuppression_greedy by_confidence_def intro: subseq_sorted_wrt)

lemma kept_covers:
  "list_all ordered ds \<Longrightarrow> d \<in> set ds \<Longrightarrow>
     d \<in> set (nonMaximumSuppression std_sort meet area t ds)
     \<or> list_ex (\<lambda>k. overlaps (intersectionOverUnion meet area) t k d \<and> \<not> fless (confidence k) (confidence d)) (nonMaximumSuppression std_sort meet area t ds)"
  unfolding nonMaximumSuppression_greedy by (rule greedy_covers) (auto simp: falling sort_set)

end

text \<open>An insertion sort meets the contract of \<open>std::sort\<close>.\<close>

fun insert_detection :: "detection \<Rightarrow> detection list \<Rightarrow> detection list" where
  "insert_detection d [] = [d]"
| "insert_detection d (e # es) =
     (if fless (confidence d) (confidence e) then e # insert_detection d es else d # e # es)"

definition sort_detections :: "detection list \<Rightarrow> detection list" where
  "sort_detections ds = foldr insert_detection ds []"

lemma mset_insert_detection [simp]: "mset (insert_detection d es) = add_mset d (mset es)"
  by (induction es) auto

lemma set_insert_detection [simp]: "set (insert_detection d es) = insert d (set es)"
  by (induction es) auto

lemma not_fless_trans: "\<not> fless a b \<Longrightarrow> \<not> fless b c \<Longrightarrow> b \<noteq> FNaN \<Longrightarrow> \<not> fless a c"
  by (cases a; cases b; cases c) auto

lemma by_confidence_insert:
  "ordered d \<Longrightarrow> list_all ordered es \<Longrightarrow> by_confidence es \<Longrightarrow> by_confidence (insert_detection d es)"
proof (induction es)
  case (Cons e es)
  have "fless (confidence d) (confidence e) \<Longrightarrow> \<not> fless (confidence e) (confidence d)"
    using fless_trans fless_irrefl by blast
  moreover have "\<not> fless (confidence d) (confidence e) \<Longrightarrow> x \<in> set es \<Longrightarrow> \<not> fless (confidence d) (confidence x)" for x
    using Cons.prems not_fless_trans[of "confidence d" "confidence e" "confidence x"]
    by (auto simp: by_confidence_def ordered_def)
  ultimately show ?case using Cons by (auto simp: by_confidence_def)
qed (simp add: by_confidence_def)

interpretation insertion: confidence_sort sort_detections
proof
  fix ds show "mset (sort_detections ds) = mset ds"
    by (induction ds) (simp_all add: sort_detections_def)
next
  fix ds
  show "list_all ordered ds \<Longrightarrow> by_confidence (sort_detections ds)"
  proof (induction ds)
    case (Cons d ds)
    have "set (sort_detections ds) = set ds" by (induction ds) (simp_all add: sort_detections_def)
    then show ?case using Cons by_confidence_insert[of d "sort_detections ds"]
      by (simp add: sort_detections_def list_all_iff)
  qed (simp add: sort_detections_def by_confidence_def)
qed


definition sample_detections :: "detection list" where
  "sample_detections =
     [\<lparr>class_id = 0, confidence = Fin (1 / 2), box = \<lparr>rx = Fin 0, ry = Fin 0, rwidth = Fin 4, rheight = Fin 4\<rparr>\<rparr>,
      \<lparr>class_id = 0, confidence = Fin (3 / 4), box = \<lparr>rx = Fin 0, ry = Fin 0, rwidth = Fin 4, rheight = Fin 4\<rparr>\<rparr>]"

text \<open>Intersection and area of rectangles with a common vertical extent, for the witnesses.\<close>

definition sample_meet :: "rect \<Rightarrow> rect \<Rightarrow> rect" where
  "sample_meet a b =
     (let left = std_max (rx a) (rx b); right = std_min (add32 (rx a) (rwidth a)) (add32 (rx b) (rwidth b))
      in a\<lparr>rx := left, rwidth := std_max (Fin 0) (sub32 right left)\<rparr>)"

definition sample_area :: "rect \<Rightarrow> fval" where
  "sample_area a = mul32 (rwidth a) (rheight a)"


section \<open>Letterbox geometry\<close>

lemma half_bounds: "0 \<le> i \<Longrightarrow> 0 \<le> half i \<and> half i \<le> i"
  by (simp add: half_def)

lemma scaled_dimension:
  assumes n: "1 \<le> n" "n \<le> 2 ^ 20" and t: "1 \<le> t" "t \<le> 2 ^ 20"
    and s: "0 \<le> s" "s \<le> round_mag binary32 (of_int t / of_int n)"
  shows "\<exists>w. round_to_int (mul32 (Fin (of_int n)) (Fin s)) = Some w \<and> 0 \<le> w \<and> w \<le> t
    \<and> (s = round_mag binary32 (of_int t / of_int n) \<longrightarrow> w = t) \<and> (3 / 4 \<le> of_int n * s \<longrightarrow> 1 \<le> w)"
proof -
  let ?q = "of_int t / of_int n :: rat"
  let ?T = "of_int t :: rat" and ?N = "of_int n :: rat"
  have N: "1 \<le> ?N" "?N \<le> 2 ^ 20" and T: "1 \<le> ?T" "?T \<le> 2 ^ 20"
    using n t of_int_le_iff[of n "2 ^ 20", where 'a = rat] of_int_le_iff[of t "2 ^ 20", where 'a = rat]
    by simp_all
  have "1 / 2 ^ 20 \<le> ?q" using N T by (intro frac_le) auto
  then have "pow2 (- 126) \<le> ?q" by (rule order.trans[rotated]) (simp add: pow2_def)
  note near = round_mag32_near[OF this]
  have scaled: "?N * (?q / 2 ^ 24) = ?T / 2 ^ 24" "?N * ?q = ?T" using N(1) by simp_all
  have err: "?T / 2 ^ 24 \<le> 1 / 4" using T(2) by simp
  have dev: "\<bar>?N * round_mag binary32 ?q - ?T\<bar> \<le> 1 / 4"
  proof -
    have "?N * \<bar>round_mag binary32 ?q - ?q\<bar> \<le> ?N * (?q / 2 ^ 24)" using near N(1) by (intro mult_left_mono) auto
    moreover have "?N * \<bar>round_mag binary32 ?q - ?q\<bar> = \<bar>?N * (round_mag binary32 ?q - ?q)\<bar>" using N(1) by (simp add: abs_mult)
    ultimately show ?thesis using err scaled by (simp add: right_diff_distrib)
  qed
  have "?N * s \<le> ?N * round_mag binary32 ?q" using s(2) N(1) by (intro mult_left_mono) auto
  then have up: "?N * s \<le> of_int (4 * t + 1) * pow2 (- 2)" using dev unfolding abs_le_iff by (simp add: pow2_def)
  have pos: "0 \<le> ?N * s" using N(1) s(1) by simp
  have small: "4 * t + 1 < 2 ^ 24" using t(2) by simp
  let ?r = "round_mag binary32 (?N * s)"
  have r: "mul32 (Fin ?N) (Fin s) = Fin ?r" using fround32[OF pos up small] by simp
  have r0: "0 \<le> ?r" using pos by (rule round_mag_nonneg)
  have rt: "?r \<le> ?T + 1 / 4" using round_mag32_le[OF pos up small] by (simp add: pow2_def)
  have exact: "?T - 1 / 4 \<le> ?r" if "s = round_mag binary32 ?q"
  proof -
    have low: "of_int (4 * t - 1) * pow2 (- 2) \<le> ?N * s" using dev unfolding that abs_le_iff by (simp add: pow2_def)
    moreover have "0 < of_int (4 * t - 1) * pow2 (- 2)" using t(1) by simp
    ultimately have "0 < ?N * s" by linarith
    from round_mag_ge[OF low ulp32_le(1)[OF this up small]] show ?thesis by (simp add: pow2_def)
  qed
  have visible: "3 / 4 \<le> ?r" if "3 / 4 \<le> ?N * s"
  proof -
    have low: "of_int 3 * pow2 (- 2) \<le> ?N * s" using that by (simp add: pow2_def)
    have "0 < ?N * s" using that by linarith
    from round_mag_ge[OF low ulp32_le(1)[OF this up small]] show ?thesis by (simp add: pow2_def)
  qed
  have w: "round_away ?r = \<lfloor>?r + 1 / 2\<rfloor>" using r0 by (simp add: round_away_def)
  have bounds: "0 \<le> \<lfloor>?r + 1 / 2\<rfloor>" "\<lfloor>?r + 1 / 2\<rfloor> \<le> t"
    using r0 rt by (simp_all add: le_floor_iff floor_le_iff)
  moreover have "round_to_int (mul32 (Fin ?N) (Fin s)) = Some \<lfloor>?r + 1 / 2\<rfloor>"
    unfolding r using bounds t(2) by (simp add: round_to_int_def w Let_def del: floor_less_iff zero_le_floor) (use rt T in simp)
  moreover have "\<lfloor>?r + 1 / 2\<rfloor> = t" if "s = round_mag binary32 ?q"
    using exact[OF that] rt by (intro floor_unique) auto
  moreover have "1 \<le> \<lfloor>?r + 1 / 2\<rfloor>" if "3 / 4 \<le> ?N * s"
    using visible[OF that] by (simp add: le_floor_iff)
  ultimately show ?thesis by blast
qed

text \<open>The resized image lies inside the target and fills it in one direction.\<close>

definition letterbox_ok :: "int \<Rightarrow> int \<Rightarrow> letterbox \<Rightarrow> bool" where
  "letterbox_ok target_width target_height t \<longleftrightarrow>
     0 \<le> lb_pad_x t \<and> 0 \<le> lb_resized_width t \<and> lb_pad_x t + lb_resized_width t \<le> target_width
     \<and> 0 \<le> lb_pad_y t \<and> 0 \<le> lb_resized_height t \<and> lb_pad_y t + lb_resized_height t \<le> target_height
     \<and> (lb_resized_width t = target_width \<or> lb_resized_height t = target_height)"

lemma quotient_scaled:
  assumes "1 \<le> n" "n \<le> 2 ^ 20" "1 \<le> t" "1 \<le> k" "n \<le> k * t"
  shows "3 / 4 \<le> of_int k * round_mag binary32 (of_int t / of_int n)"
proof -
  define q :: rat where "q = of_int t / of_int n"
  have N: "(0 :: rat) < of_int n" "(of_int n :: rat) \<le> 2 ^ 20"
    using assms(1,2) of_int_le_iff[of n "2 ^ 20", where 'a = rat] by simp_all
  have "1 / 2 ^ 20 \<le> q" unfolding q_def using N assms(3) by (intro frac_le) auto
  then have "pow2 (- 126) \<le> q" by (rule order.trans[rotated]) (simp add: pow2_def)
  from round_mag32_near[OF this] have "q - q / 2 ^ 24 \<le> round_mag binary32 q"
    unfolding abs_le_iff by simp
  then have "3 / 4 * q \<le> round_mag binary32 q"
    using \<open>1 / 2 ^ 20 \<le> q\<close> by simp
  then have "of_int k * (3 / 4 * q) \<le> of_int k * round_mag binary32 q"
    using assms(4) by (intro mult_left_mono) auto
  moreover have "(of_int n :: rat) \<le> of_int (k * t)" unfolding of_int_le_iff using assms(5) .
  then have "1 \<le> of_int k * q" unfolding q_def using N(1) by (simp add: le_divide_eq)
  ultimately show ?thesis unfolding q_def[symmetric] by linarith
qed

lemma letterbox_fits:
  assumes sw: "1 \<le> sw" "sw \<le> 2 ^ 20" and sh: "1 \<le> sh" "sh \<le> 2 ^ 20"
    and tw: "1 \<le> tw" "tw \<le> 2 ^ 20" and th: "1 \<le> th" "th \<le> 2 ^ 20"
  shows "\<exists>t. calculateLetterbox sw sh tw th = Some t \<and> letterbox_ok tw th t
    \<and> (sw \<le> sh * tw \<and> sh \<le> sw * th \<longrightarrow> 1 \<le> lb_resized_width t \<and> 1 \<le> lb_resized_height t)"
proof -
  let ?sx = "round_mag binary32 (of_int tw / of_int sw)" and ?sy = "round_mag binary32 (of_int th / of_int sh)"
  have dim: "float_of_int n = Fin (of_int n)" if "1 \<le> n" "n \<le> 2 ^ 20" for n
    using fround32_int[of n] that by (simp add: float_of_int_def)
  have quot: "div32 (Fin (of_int t)) (Fin (of_int n)) = Fin (round_mag binary32 (of_int t / of_int n))
      \<and> 0 \<le> round_mag binary32 (of_int t / of_int n)"
    if "1 \<le> n" "1 \<le> t" "t \<le> 2 ^ 20" for n t
  proof -
    have "(of_int t :: rat) \<le> of_int (2 ^ 20)" unfolding of_int_le_iff using that(3) .
    then have "of_int t / of_int n \<le> (2 ^ 20 :: rat) / 1" using that by (intro frac_le) auto
    then have "of_int t / of_int n \<le> of_int (2 ^ 20) * pow2 0" by (simp add: pow2_def)
    from fround32[OF _ this] show ?thesis using that by (simp add: round_mag_nonneg)
  qed
  have scale: "std_min (div32 (Fin (of_int tw)) (Fin (of_int sw))) (div32 (Fin (of_int th)) (Fin (of_int sh)))
      = Fin (min ?sx ?sy)"
    unfolding quot[OF sw(1) tw, THEN conjunct1] quot[OF sh(1) th, THEN conjunct1]
    by (simp add: std_min_def min_def)
  have nonneg: "0 \<le> min ?sx ?sy" using quot sw tw sh th by simp
  obtain w where w: "round_to_int (mul32 (Fin (of_int sw)) (Fin (min ?sx ?sy))) = Some w" "0 \<le> w" "w \<le> tw"
      "min ?sx ?sy = ?sx \<longrightarrow> w = tw" "3 / 4 \<le> of_int sw * min ?sx ?sy \<longrightarrow> 1 \<le> w"
    using scaled_dimension[OF sw tw nonneg] by auto
  obtain h where h: "round_to_int (mul32 (Fin (of_int sh)) (Fin (min ?sx ?sy))) = Some h" "0 \<le> h" "h \<le> th"
      "min ?sx ?sy = ?sy \<longrightarrow> h = th" "3 / 4 \<le> of_int sh * min ?sx ?sy \<longrightarrow> 1 \<le> h"
    using scaled_dimension[OF sh th nonneg] by auto
  have seen: "1 \<le> w" "1 \<le> h" if "sw \<le> sh * tw" "sh \<le> sw * th"
    using quotient_scaled[OF sw tw(1) sh(1) that(1)] quotient_scaled[OF sh th(1) sw(1) that(2)] w(4,5) h(4,5) tw th
    by (auto simp: min_def split: if_splits)
  have touch: "w = tw \<or> h = th" using w(4) h(4) by (cases "?sx \<le> ?sy") auto
  have fits: "0 \<le> half (tw - w)" "half (tw - w) + w \<le> tw" "0 \<le> half (th - h)" "half (th - h) + h \<le> th"
    using half_bounds[of "tw - w"] half_bounds[of "th - h"] w h by auto
  show ?thesis unfolding calculateLetterbox_def Let_def dim[OF sw] dim[OF sh] dim[OF tw] dim[OF th]
    unfolding scale using w(1,2) h(1,2) fits touch seen by (simp add: letterbox_ok_def)
qed

section \<open>Boxes inside the frame\<close>

lemma fsub_Fin [simp]: "sub32 (Fin p) (Fin q) = fround binary32 (p - q)"
  by (simp add: fsub_def)

lemma fadd_NaN [simp]: "fadd F FNaN y = FNaN" "fadd F x FNaN = FNaN"
  by (cases y; simp) (cases x; simp)

lemma fsub_NaN [simp]: "fsub F FNaN y = FNaN" "fsub F x FNaN = FNaN"
  by (simp_all add: fsub_def)

lemma fdiv_NaN [simp]: "fdiv F FNaN y = FNaN"
  by (cases y) simp_all

lemma std_clamp_range:
  assumes "0 \<le> hi" "std_clamp v (Fin 0) (Fin hi) \<noteq> FNaN"
  shows "\<exists>r. std_clamp v (Fin 0) (Fin hi) = Fin r \<and> 0 \<le> r \<and> r \<le> hi"
  using assms by (cases v) (auto simp: std_clamp_def split: if_splits)

lemma std_clamp_NaN [simp]: "std_clamp FNaN lo hi = FNaN"
  by (simp add: std_clamp_def)

lemma fround_not_pos: "q \<le> 0 \<Longrightarrow> \<not> fless (Fin 0) (fround F q)"
  using round_mag_nonneg[of "- q" F]
  by (auto simp: fround_def Let_def sgn_if not_less)

text \<open>Recomputing the far edge of a clamped box in \<open>float\<close> does not leave the frame.\<close>

lemma far_edge:
  assumes W: "1 \<le> W" "W \<le> 2 ^ 20" and ab: "0 \<le> a" "a < b" "b \<le> of_int W"
  shows "round_mag binary32 (a + round_mag binary32 (b - a)) \<le> of_int W"
proof -
  define k where "k = ilog2 (of_int W)"
  define s where "s = a + round_mag binary32 (b - a)"
  have Wpos: "(0 :: rat) < of_int W" using W by simp
  have Wk: "pow2 k \<le> of_int W" "of_int W < pow2 (k + 1)" unfolding k_def using ilog2_bounds[OF Wpos] by simp_all
  have "(of_int W :: rat) < 2 ^ 21" using W(2) of_int_le_iff[of W "2 ^ 20", where 'a = rat] by simp
  then have k21: "k < 21" unfolding k_def using ilog2_less[OF Wpos, of 21] by (simp add: pow2_def)
  have k0: "0 \<le> k" unfolding k_def using W by (intro ilog2_ge) (simp add: pow2_def)
  have "b - a < pow2 (k + 1)" using ab Wk by linarith
  then have "ilog2 (b - a) < k + 1" using ab by (intro ilog2_less) auto
  then have "ulp_exp binary32 (b - a) \<le> k - 23" using k0 by (simp add: ulp_exp_def binary32_def)
  then have "pow2 (ulp_exp binary32 (b - a)) / 2 \<le> pow2 (k - 23) / 2" by simp
  then have s_le: "s \<le> of_int W + pow2 (k - 23) / 2"
    unfolding s_def using round_mag_near[of binary32 "b - a"] ab(3) by (simp only: abs_le_iff) linarith
  have s0: "0 \<le> s" unfolding s_def using ab round_mag_nonneg[of "b - a" binary32] by simp
  show ?thesis unfolding s_def[symmetric]
  proof (cases "s \<le> of_int W")
    case True
    then show "round_mag binary32 s \<le> of_int W" using round_mag32_le[OF s0, of W 0] W by (simp add: pow2_def)
  next
    case False
    have "W < 2 ^ nat (k + 1)" using Wk(2) k0 of_int_less_iff[of W "2 ^ nat (k + 1)", where 'a = rat]
      by (simp add: pow2_def)
    then have "(of_int (W + 1) :: rat) \<le> of_int (2 ^ nat (k + 1))" unfolding of_int_le_iff by simp
    then have "of_int W + 1 \<le> pow2 (k + 1)" using k0 by (simp add: pow2_def)
    moreover have "pow2 (k - 23) \<le> pow2 0" using k21 by simp
    then have "pow2 (k - 23) \<le> 1" by (simp add: pow2_def)
    ultimately have "s < pow2 (k + 1)" using s_le by linarith
    moreover have "0 < s" "pow2 k \<le> s" using False Wk(1) Wpos by linarith+
    ultimately have "ilog2 s = k" using ilog2_less[of s "k + 1"] ilog2_ge[of k s] by linarith
    then have u: "ulp_exp binary32 s = k - 23" using k0 by (simp add: ulp_exp_def binary32_def)
    let ?n = "W * 2 ^ nat (0 - (k - 23))"
    have n: "of_int W = of_int ?n * pow2 (k - 23)" using multiple_of_ulp[of "k - 23" 0 W] k21 by (simp add: pow2_def[of 0])
    have "even ?n" using k21 by simp
    moreover have "s / pow2 (k - 23) \<le> of_int ?n + 1 / 2"
      using s_le unfolding n by (simp add: divide_le_eq distrib_right)
    ultimately have "round_even (s / pow2 (k - 23)) \<le> ?n" by (rule round_even_tie)
    then show "round_mag binary32 s \<le> of_int W"
      unfolding round_mag_def u n by (simp only: mult_le_cancel_right_pos[OF pow2_pos] of_int_le_iff)
  qed
qed

definition span_in_frame :: "fval \<Rightarrow> fval \<Rightarrow> fval \<Rightarrow> bool" where
  "span_in_frame start extent limit \<longleftrightarrow>
     fle (Fin 0) start \<and> fless (Fin 0) extent \<and> fle extent limit \<and> fle (add32 start extent) limit"

lemma clamped_span:
  assumes W: "1 \<le> W" "W \<le> 2 ^ 20"
    and l: "l = std_clamp u (Fin 0) (float_of_int W)" and r: "r = std_clamp v (Fin 0) (float_of_int W)"
    and w: "w = std_max (Fin 0) (sub32 r l)" "fless (Fin 0) w"
  shows "span_in_frame l w (float_of_int W)"
proof -
  have F: "float_of_int W = Fin (of_int W)" using W fround32_int[of W] by (simp add: float_of_int_def)
  have pos: "fless (Fin 0) (sub32 r l)" and w': "w = sub32 r l" using w by (auto simp: std_max_def split: if_splits)
  have "l \<noteq> FNaN" "r \<noteq> FNaN" using pos by auto
  then obtain a b where a: "l = Fin a" "0 \<le> a" "a \<le> of_int W" and b: "r = Fin b" "0 \<le> b" "b \<le> of_int W"
    using std_clamp_range[of "of_int W" u] std_clamp_range[of "of_int W" v] W unfolding l r F by auto
  have ab: "a < b" using pos fround_not_pos[of "b - a" binary32] by (auto simp: a b not_less[symmetric])
  have d: "0 \<le> b - a" "b - a \<le> of_int W * pow2 0" using a b ab by (simp_all add: pow2_def)
  have small: "W < 2 ^ 24" using W by simp
  have wf: "w = Fin (round_mag binary32 (b - a))" using fround32[OF d small] unfolding w' a b by simp
  have wW: "0 \<le> round_mag binary32 (b - a)" "round_mag binary32 (b - a) \<le> of_int W"
    using round_mag_nonneg[OF d(1)] round_mag32_le[OF d small] by (simp_all add: pow2_def)
  have "0 \<le> a + round_mag binary32 (b - a)" "a + round_mag binary32 (b - a) \<le> of_int (2 * W) * pow2 0"
    using a b wW by (simp_all add: pow2_def)
  from fround32[OF this] have "add32 l w = Fin (round_mag binary32 (a + round_mag binary32 (b - a)))"
    using W by (simp add: a wf)
  then show ?thesis using far_edge[OF W a(2) ab b(3)] w(2) a wW
    by (simp add: span_in_frame_def F wf)
qed

definition detection_ok :: "fval \<Rightarrow> int \<Rightarrow> int \<Rightarrow> detection \<Rightarrow> bool" where
  "detection_ok threshold cols rows d \<longleftrightarrow>
     class_id d = 0 \<and> \<not> fless (confidence d) threshold
     \<and> span_in_frame (rx (box d)) (rwidth (box d)) (float_of_int cols)
     \<and> span_in_frame (ry (box d)) (rheight (box d)) (float_of_int rows)"

lemma restored_spans:
  assumes "1 \<le> cols" "cols \<le> 2 ^ 20" "1 \<le> rows" "rows \<le> 2 ^ 20"
    and "b = restoreLetterboxBox m t cols rows" "fless (Fin 0) (rwidth b)" "fless (Fin 0) (rheight b)"
  shows "span_in_frame (rx b) (rwidth b) (float_of_int cols) \<and> span_in_frame (ry b) (rheight b) (float_of_int rows)"
proof
  show "span_in_frame (rx b) (rwidth b) (float_of_int cols)"
    by (rule clamped_span[OF assms(1,2) _ _ _ assms(6)]) (simp_all add: assms(5) restoreLetterboxBox_def Let_def)
  show "span_in_frame (ry b) (rheight b) (float_of_int rows)"
    by (rule clamped_span[OF assms(3,4) _ _ _ assms(7)]) (simp_all add: assms(5) restoreLetterboxBox_def Let_def)
qed

lemma decode_row_ok:
  assumes "1 \<le> cols" "cols \<le> 2 ^ 20" "1 \<le> rows" "rows \<le> 2 ^ 20"
    and "decode_row threshold t cols rows row = Some d"
  shows "detection_ok threshold cols rows d"
  using assms(5) restored_spans[OF assms(1-4) refl]
  by (auto simp: decode_row_def detection_ok_def Let_def split: if_splits)

lemma NaN_coordinate_dropped:
  assumes "row ! 0 = FNaN \<or> row ! 1 = FNaN \<or> row ! 2 = FNaN \<or> row ! 3 = FNaN"
  shows "decode_row threshold t cols rows row = None"
proof -
  let ?b = "restoreLetterboxBox \<lparr>rx = sub32 (row ! 0) (div32 (row ! 2) (Fin 2)), ry = sub32 (row ! 1) (div32 (row ! 3) (Fin 2)),
                  rwidth = row ! 2, rheight = row ! 3\<rparr> t cols rows"
  have "rwidth ?b = Fin 0 \<or> rheight ?b = Fin 0"
    using assms by (elim disjE) (simp_all add: restoreLetterboxBox_def Let_def std_max_def)
  then have "\<not> (fless (Fin 0) (rwidth ?b) \<and> fless (Fin 0) (rheight ?b))" by auto
  then show ?thesis unfolding decode_row_def Let_def by (simp only: if_False if_cancel)
qed

lemma map_filter_in: "y \<in> set (List.map_filter f xs) \<Longrightarrow> \<exists>x \<in> set xs. f x = Some y"
  by (induction xs) (auto simp: List.map_filter_simps split: option.splits)

lemma decode_output_in:
  assumes "\<And>ds. mset (std_sort ds) = mset ds"
    and "d \<in> set (decode_output std_sort meet area threshold nms t cols rows tensor)"
  shows "\<exists>row \<in> set tensor. decode_row threshold t cols rows row = Some d"
proof -
  let ?ds = "List.map_filter (decode_row threshold t cols rows) tensor"
  have "subseq (decode_output std_sort meet area threshold nms t cols rows tensor) (std_sort ?ds)"
    using greedy_grows[of "intersectionOverUnion meet area" nms "[]" "std_sort ?ds"]
    by (simp only: decode_output_def nonMaximumSuppression_greedy append_Nil) blast
  from list_emb_set[OF this assms(2)] have "d \<in> set (std_sort ?ds)" by auto
  then have "d \<in> set ?ds" unfolding mset_eq_setD[OF assms(1)] .
  then show ?thesis by (rule map_filter_in)
qed

lemma decode_output_ok:
  assumes "\<And>ds. mset (std_sort ds) = mset ds" "1 \<le> cols" "cols \<le> 2 ^ 20" "1 \<le> rows" "rows \<le> 2 ^ 20"
    and "d \<in> set (decode_output std_sort meet area threshold nms t cols rows tensor)"
  shows "detection_ok threshold cols rows d"
  using decode_output_in[OF assms(1,6)] decode_row_ok[OF assms(2-5)] by blast


definition sample_transform :: letterbox where
  "sample_transform = \<lparr>lb_scale = Fin 1, lb_pad_x = 0, lb_pad_y = 2, lb_resized_width = 8, lb_resized_height = 4\<rparr>"

definition sample_tensor :: "fval list list" where
  "sample_tensor = [[Fin 7, Fin 4, Fin 4, Fin 2, Fin 1, Fin 1, Fin 0], [FNaN, Fin 4, Fin 2, Fin 2, Fin 1, Fin 1, Fin 0]]"

lemmas sample_restore = restoreLetterboxBox_def sample_transform_def std_clamp_def std_max_def float_of_int_def Let_def

lemma sample_decoded:
  "List.map_filter (decode_row (Fin (1 / 2)) sample_transform 8 4) sample_tensor =
     [\<lparr>class_id = 0, confidence = Fin 1, box = \<lparr>rx = Fin 5, ry = Fin 1, rwidth = Fin 3, rheight = Fin 2\<rparr>\<rparr>]"
  by (simp add: sample_tensor_def List.map_filter_simps decode_row_def sample_restore)


text \<open>
  The comparison \<open>confidence < threshold\<close> does not reject a NaN confidence, so such a detection reaches
  \<open>std::sort\<close>, whose comparison is then no strict weak ordering.
\<close>

lemma NaN_confidence_reported:
  "map_option confidence (decode_row (Fin (1 / 2)) sample_transform 8 4 [Fin 4, Fin 4, Fin 2, Fin 2, FNaN, Fin 1])
     = Some FNaN"
  by (simp add: decode_row_def sample_restore)

section \<open>Planar layout\<close>

definition overwrite :: "nat \<Rightarrow> 'a list \<Rightarrow> 'a list \<Rightarrow> 'a list" where
  "overwrite i ys xs = take i xs @ ys @ drop (i + length ys) xs"

lemma length_overwrite [simp]: "i + length ys \<le> length xs \<Longrightarrow> length (overwrite i ys xs) = length xs"
  by (simp add: overwrite_def)

lemma overwrite_Nil [simp]: "overwrite i [] xs = xs"
  by (simp add: overwrite_def)

lemma overwrite_update:
  "i + length ys < length xs \<Longrightarrow> overwrite (Suc i) ys (xs[i := y]) = overwrite i (y # ys) xs"
  by (simp add: overwrite_def take_Suc_conv_app_nth)

lemma overwrite_append:
  "i + length ys + length zs \<le> length xs \<Longrightarrow>
     overwrite (i + length ys) zs (overwrite i ys xs) = overwrite i (ys @ zs) xs"
  by (simp add: overwrite_def ac_simps)

lemma write_pixel_planes:
  assumes "length R = p" "length G = p" "i < p"
  shows "write_pixel p i (b, g, r) (R @ G @ B) = R[i := normalized r] @ G[i := normalized g] @ B[i := normalized b]"
proof -
  have "p + i - length R < length G" "2 * p + i - length R - length G = i" using assms by simp_all
  then show ?thesis using assms by (simp add: list_update_append)
qed

abbreviation reds :: "pixel list \<Rightarrow> fval list" where "reds ps \<equiv> map (\<lambda>p. normalized (snd (snd p))) ps"
abbreviation greens :: "pixel list \<Rightarrow> fval list" where "greens ps \<equiv> map (\<lambda>p. normalized (fst (snd p))) ps"
abbreviation blues :: "pixel list \<Rightarrow> fval list" where "blues ps \<equiv> map (\<lambda>p. normalized (fst p)) ps"

lemma write_row_planes:
  "length R = p \<Longrightarrow> length G = p \<Longrightarrow> length B = p \<Longrightarrow> i + length ps \<le> p \<Longrightarrow>
     write_row p i ps (R @ G @ B) = overwrite i (reds ps) R @ overwrite i (greens ps) G @ overwrite i (blues ps) B"
proof (induction ps arbitrary: i R G B)
  case (Cons c ps)
  obtain b g r where c: "c = (b, g, r)" by (cases c)
  show ?case using Cons.prems
    by (simp add: c write_pixel_planes Cons.IH overwrite_update del: write_pixel.simps)
qed simp

lemma write_rows_planes:
  "length R = p \<Longrightarrow> length G = p \<Longrightarrow> length B = p \<Longrightarrow> list_all (\<lambda>row. length row = cols) rows \<Longrightarrow>
     y * cols + length rows * cols \<le> p \<Longrightarrow>
     write_rows p cols y rows (R @ G @ B) =
       overwrite (y * cols) (reds (concat rows)) R @ overwrite (y * cols) (greens (concat rows)) G
       @ overwrite (y * cols) (blues (concat rows)) B"
proof (induction rows arbitrary: y R G B)
  case (Cons row rows)
  have total: "length (concat rows) = length rows * cols"
    using Cons.prems(4) by (induction rows) auto
  show ?case using Cons.prems total Cons.IH[of _ _ _ "y + 1"]
    overwrite_append[of "y * cols" "reds row" "reds (concat rows)" R]
    overwrite_append[of "y * cols" "greens row" "greens (concat rows)" G]
    overwrite_append[of "y * cols" "blues row" "blues (concat rows)" B]
    by (simp add: write_row_planes add.commute)
qed simp

lemma planar_rgb:
  assumes "list_all (\<lambda>row. length row = cols) rows" "length destination = 3 * (cols * length rows)"
  shows "bgrToNormalizedRgbChw cols rows destination =
    reds (concat rows) @ greens (concat rows) @ blues (concat rows)"
proof -
  let ?p = "cols * length rows"
  let ?R = "take ?p destination" and ?G = "take ?p (drop ?p destination)" and ?B = "drop (2 * ?p) destination"
  have len: "length (concat rows) = ?p" using assms(1) by (induction rows) auto
  have "destination = ?R @ ?G @ ?B"
    by (metis append_take_drop_id drop_drop mult_2)
  then have "bgrToNormalizedRgbChw cols rows destination = write_rows ?p cols 0 rows (?R @ ?G @ ?B)"
    by (simp add: bgrToNormalizedRgbChw_def)
  also have "\<dots> = overwrite 0 (reds (concat rows)) ?R @ overwrite 0 (greens (concat rows)) ?G
      @ overwrite 0 (blues (concat rows)) ?B"
    using write_rows_planes[of ?R ?p ?G ?B cols rows 0] assms by (simp add: mult.commute)
  finally show ?thesis using assms(2) len by (simp add: overwrite_def)
qed

text \<open>
  \<open>bgrToNormalizedRgbChw\<close> turns the interleaved BGR image into the three planes the network expects:
  all red values row by row, then all green ones, then all blue ones, each scaled by \<open>1/255\<close>; every
  element of the input tensor is written, so nothing of its earlier contents survives.
\<close>

theorem bgr_to_planar_rgb:
  assumes "list_all (\<lambda>row. length row = cols) rows" "length destination = 3 * (cols * length rows)"
  shows "bgrToNormalizedRgbChw cols rows destination =
    reds (concat rows) @ greens (concat rows) @ blues (concat rows)"
  using assms by (rule planar_rgb)

theorem bgr_to_planar_rgb_witness:
  "bgrToNormalizedRgbChw 2 [[(0, 1, 255), (2, 3, 4)]] (replicate 6 FNaN) =
     [normalized 255, normalized 4, normalized 1, normalized 3, normalized 0, normalized 2]"
  by (subst bgr_to_planar_rgb) simp_all

end
