(* ===== verification/Inference_Backend.thy ===== *)
theory Inference_Backend
  imports App_Config
begin

text \<open>
  The two implementations of \<open>InferenceBackend\<close> (\<open>src/mnn_backend.cpp\<close>, \<open>src/openvino_backend.cpp\<close>) and
  the factory (\<open>src/inference_backend.cpp\<close>): how a model file is loaded, checked and accepted. MNN and
  OpenVINO are parameters: records of the calls the code makes, whose results, exceptions included,
  are arbitrary.
\<close>

section \<open>Interface\<close>

record backend_config =
  bc_model_path :: string
  bc_input_width :: u32
  bc_input_height :: u32
  bc_output_rows :: u64
  bc_output_fields :: u64
  bc_threads :: u32

definition default_backend_config :: backend_config where
  "default_backend_config =
     \<lparr>bc_model_path = [], bc_input_width = 320, bc_input_height = 320, bc_output_rows = 6300, bc_output_fields = 85,
      bc_threads = 2\<rparr>"

text \<open>What an initialised backend keeps for its tensors.\<close>

record backend =
  bk_name :: string
  bk_input_size :: u64
  bk_output_rows :: u64
  bk_output_fields :: u64

text \<open>\<open>static_cast<int>\<close> of an \<open>unsigned\<close> and of a \<open>size_t\<close>.\<close>

abbreviation int_of_u32 :: "u32 \<Rightarrow> int" where "int_of_u32 w \<equiv> sint w"
definition int_of_u64 :: "u64 \<Rightarrow> int" where "int_of_u64 w = sint (ucast w :: u32)"

fun comma_separated :: "int list \<Rightarrow> string" where
  "comma_separated [] = []"
| "comma_separated [i] = show_int i"
| "comma_separated (i # j # is) = show_int i @ '','' @ comma_separated (j # is)"

definition shapeString :: "int list \<Rightarrow> string" where
  "shapeString shape = ''['' @ comma_separated shape @ '']''"

definition shape_error :: "('s \<Rightarrow> string) \<Rightarrow> 's \<Rightarrow> 's \<Rightarrow> 's \<Rightarrow> 's \<Rightarrow> string" where
  "shape_error show_shape input_shape output_shape expected_input expected_output =
     ''unexpected model shapes input='' @ show_shape input_shape @ '' output='' @ show_shape output_shape
     @ '' expected_input='' @ show_shape expected_input @ '' expected_output='' @ show_shape expected_output"

section \<open>MNN\<close>

record mnn_tensor =
  mt_shape :: "int list"
  mt_float :: bool
  mt_bits :: int
  mt_lanes :: int
  mt_caffe :: bool
  mt_host :: bool
  mt_elementSize :: int

record mnn_session =
  ms_inputs :: "mnn_tensor option list"
  ms_outputs :: "mnn_tensor option list"

text \<open>A call that throws is \<open>Inl\<close> with the message; a null pointer is \<open>None\<close>.\<close>

record 'i mnn =
  mnn_createFromFile :: "string \<Rightarrow> string + 'i option"
  mnn_createSession :: "'i \<Rightarrow> int \<Rightarrow> string + mnn_session option"

definition isFp32 :: "mnn_tensor \<Rightarrow> bool" where
  "isFp32 t \<longleftrightarrow> mt_float t \<and> mt_bits t = 32 \<and> mt_lanes t = 1"

definition mnn_check_tensors :: "backend_config \<Rightarrow> mnn_tensor \<Rightarrow> mnn_tensor \<Rightarrow> string + backend" where
  "mnn_check_tensors config input output =
     (let expected_input = [1, 3, int_of_u32 (bc_input_height config), int_of_u32 (bc_input_width config)];
          expected_output = [1, int_of_u64 (bc_output_rows config), int_of_u64 (bc_output_fields config)]
      in if \<not> isFp32 input \<or> \<not> isFp32 output then Inl ''model input and output must both be FP32''
         else if \<not> mt_caffe input \<or> \<not> mt_caffe output
         then Inl ''model input and output must both use CAFFE/NCHW layout''
         else if mt_shape input \<noteq> expected_input \<or> mt_shape output \<noteq> expected_output
         then Inl (shape_error shapeString (mt_shape input) (mt_shape output) expected_input expected_output)
         else if \<not> mt_host input \<or> \<not> mt_host output
         then Inl ''MNN CPU tensors are not directly host-accessible''
         else Inr \<lparr>bk_name = ''mnn'', bk_input_size = word_of_int (mt_elementSize input),
                   bk_output_rows = bc_output_rows config, bk_output_fields = bc_output_fields config\<rparr>)"

definition mnn_check_session :: "backend_config \<Rightarrow> mnn_session \<Rightarrow> string + backend" where
  "mnn_check_session config session =
     (case (ms_inputs session, ms_outputs session) of
        ([input], [output]) \<Rightarrow>
          (case (input, output) of
             (Some i, Some out) \<Rightarrow> mnn_check_tensors config i out
           | _ \<Rightarrow> Inl ''MNN returned a null input or output tensor'')
      | _ \<Rightarrow> Inl ''model must have exactly one input and one output'')"

definition mnn_initialize :: "'i mnn \<Rightarrow> backend_config \<Rightarrow> string + backend" where
  "mnn_initialize lib config =
     (case mnn_createFromFile lib (bc_model_path config) of
        Inl e \<Rightarrow> Inl e
      | Inr None \<Rightarrow> Inl ''failed to load MNN model''
      | Inr (Some interpreter) \<Rightarrow>
          (case mnn_createSession lib interpreter (int_of_u32 (bc_threads config)) of
             Inl e \<Rightarrow> Inl e
           | Inr None \<Rightarrow> Inl ''failed to create MNN CPU session''
           | Inr (Some session) \<Rightarrow> mnn_check_session config session))"

section \<open>OpenVINO\<close>

record ov_port =
  ov_shape :: "u64 list"
  ov_f32 :: bool

record 'm openvino =
  ov_read_model :: "string \<Rightarrow> string + 'm"
  ov_inputs :: "'m \<Rightarrow> ov_port list"
  ov_outputs :: "'m \<Rightarrow> ov_port list"
  ov_show_shape :: "u64 list \<Rightarrow> string"
  ov_compile :: "'m \<Rightarrow> int \<Rightarrow> string + u64"

definition ov_check_ports :: "'m openvino \<Rightarrow> backend_config \<Rightarrow> 'm \<Rightarrow> ov_port \<Rightarrow> ov_port \<Rightarrow> string + backend" where
  "ov_check_ports lib config model input output =
     (let expected_input = [1, 3, ucast (bc_input_height config), ucast (bc_input_width config)];
          expected_output = [1, bc_output_rows config, bc_output_fields config]
      in if \<not> ov_f32 input \<or> \<not> ov_f32 output then Inl ''model input and output must both be FP32''
         else if ov_shape input \<noteq> expected_input \<or> ov_shape output \<noteq> expected_output
         then Inl (shape_error (ov_show_shape lib) (ov_shape input) (ov_shape output) expected_input expected_output)
         else
           (case ov_compile lib model (int_of_u32 (bc_threads config)) of
              Inl e \<Rightarrow> Inl e
            | Inr input_size \<Rightarrow>
                Inr \<lparr>bk_name = ''openvino'', bk_input_size = input_size,
                     bk_output_rows = bc_output_rows config, bk_output_fields = bc_output_fields config\<rparr>))"

definition openvino_initialize :: "'m openvino \<Rightarrow> backend_config \<Rightarrow> string + backend" where
  "openvino_initialize lib config =
     (case ov_read_model lib (bc_model_path config) of
        Inl e \<Rightarrow> Inl e
      | Inr model \<Rightarrow>
          (case (ov_inputs lib model, ov_outputs lib model) of
             ([input], [output]) \<Rightarrow> ov_check_ports lib config model input output
           | _ \<Rightarrow> Inl ''model must have exactly one input and one output''))"

section \<open>The factory\<close>

datatype backend_kind = OpenVinoBackend | MnnBackend

definition createInferenceBackend :: "string \<Rightarrow> string + backend_kind" where
  "createInferenceBackend name =
     (if name = ''openvino'' then Inr OpenVinoBackend
      else if name = ''mnn'' then Inr MnnBackend
      else Inl (''unsupported inference backend: '' @ name))"

section \<open>Model fingerprint\<close>

text \<open>GLib's checksum is a parameter; a file is its readable bytes and whether reading them ends at the end of file.\<close>

record 'k checksum_lib =
  ck_new :: "'k option"
  ck_update :: "'k \<Rightarrow> u8 list \<Rightarrow> 'k"
  ck_string :: "'k \<Rightarrow> string"

datatype model_file = CannotOpen | Readable "u8 list" bool

definition block_size :: nat where
  "block_size = 65536"

function read_blocks :: "('k \<Rightarrow> u8 list \<Rightarrow> 'k) \<Rightarrow> 'k \<Rightarrow> u8 list \<Rightarrow> 'k" where
  "read_blocks update k bytes =
     (if bytes = [] then k else read_blocks update (update k (take block_size bytes)) (drop block_size bytes))"
  by pat_completeness auto

termination read_blocks
  by (relation "measure (\<lambda>(update, k, bytes). length bytes)") (simp_all add: block_size_def)

declare read_blocks.simps [simp del]

definition sha256File :: "'k checksum_lib \<Rightarrow> (string \<Rightarrow> model_file) \<Rightarrow> string \<Rightarrow> string + string" where
  "sha256File lib files path =
     (case ck_new lib of
        None \<Rightarrow> Inl ''cannot create SHA-256 checksum''
      | Some k \<Rightarrow>
          (case files path of
             CannotOpen \<Rightarrow> Inl (''cannot open model for SHA-256: '' @ path)
           | Readable bytes eof \<Rightarrow>
               if eof then Inr (ck_string lib (read_blocks (ck_update lib) k bytes))
               else Inl (''cannot read model for SHA-256: '' @ path)))"

text \<open>\<open>std::filesystem::path::replace_extension\<close>.\<close>

definition file_name :: "string \<Rightarrow> string" where
  "file_name path = rev (takeWhile (\<lambda>c. c \<noteq> CHR ''/'') (rev path))"

definition extension_length :: "string \<Rightarrow> nat" where
  "extension_length name =
     (let tail = takeWhile (\<lambda>c. c \<noteq> CHR ''.'') (rev name)
      in if name = ''.'' \<or> name = ''..'' \<or> length name \<le> length tail + 1 then 0 else length tail + 1)"

definition replace_extension :: "string \<Rightarrow> string \<Rightarrow> string" where
  "replace_extension path replacement =
     take (length path - extension_length (file_name path)) path @ replacement"

definition inferenceModelFingerprint :: "'k checksum_lib \<Rightarrow> (string \<Rightarrow> model_file) \<Rightarrow> string \<Rightarrow> string \<Rightarrow> string + string" where
  "inferenceModelFingerprint lib files backend model_path =
     (case sha256File lib files model_path of
        Inl e \<Rightarrow> Inl e
      | Inr model_hash \<Rightarrow>
          if backend = ''mnn'' then Inr model_hash
          else if backend = ''openvino''
          then (case sha256File lib files (replace_extension model_path ''.bin'') of
                  Inl e \<Rightarrow> Inl e
                | Inr bin_hash \<Rightarrow> Inr (''xml:'' @ model_hash @ '',bin:'' @ bin_hash))
          else Inl (''unsupported inference backend: '' @ backend))"

text \<open>Reading in blocks does not show in the digest when updates compose.\<close>

lemma read_blocks_whole:
  assumes "\<And>k a b. update k (a @ b) = update (update k a) b" "\<And>k. update k [] = k"
  shows "read_blocks update k bytes = update k bytes"
  using assms
proof (induction update k bytes rule: read_blocks.induct)
  case (1 update k bytes)
  show ?case
  proof (cases "bytes = []")
    case True
    then show ?thesis by (subst read_blocks.simps) (simp add: 1(3))
  next
    case False
    then have "read_blocks update k bytes = update (update k (take block_size bytes)) (drop block_size bytes)"
      using 1 by (subst read_blocks.simps) simp
    also have "\<dots> = update k (take block_size bytes @ drop block_size bytes)" by (simp only: 1(2))
    finally show ?thesis by simp
  qed
qed

section \<open>An accepted backend\<close>

text \<open>Elements of the NCHW input tensor, in \<open>size_t\<close> arithmetic.\<close>

definition input_elements :: "u32 \<Rightarrow> u32 \<Rightarrow> u64" where
  "input_elements width height = 3 * ucast width * ucast height"

definition backend_fits :: "backend_config \<Rightarrow> backend \<Rightarrow> bool" where
  "backend_fits config b \<longleftrightarrow>
     bk_input_size b = input_elements (bc_input_width config) (bc_input_height config)
     \<and> bk_output_rows b = bc_output_rows config \<and> bk_output_fields b = bc_output_fields config"

text \<open>MNN documents \<open>elementSize\<close> as the number of elements of the tensor's shape; OpenVINO likewise.\<close>

definition mnn_sizes_ok :: "'i mnn \<Rightarrow> bool" where
  "mnn_sizes_ok lib \<longleftrightarrow>
     (\<forall>i threads session t. mnn_createSession lib i threads = Inr (Some session) \<longrightarrow>
        Some t \<in> set (ms_inputs session) \<longrightarrow> mt_elementSize t = prod_list (mt_shape t))"

definition openvino_sizes_ok :: "'m openvino \<Rightarrow> bool" where
  "openvino_sizes_ok lib \<longleftrightarrow>
     (\<forall>model threads input n. ov_compile lib model threads = Inr n \<longrightarrow>
        ov_inputs lib model = [input] \<longrightarrow> n = prod_list (ov_shape input))"

text \<open>Dimensions that survive the conversion to \<open>int\<close>.\<close>

definition int_dimensions :: "backend_config \<Rightarrow> bool" where
  "int_dimensions config \<longleftrightarrow> 0 \<le> int_of_u32 (bc_input_width config) \<and> 0 \<le> int_of_u32 (bc_input_height config)"

lemma sint_uint_u32: "0 \<le> sint (w :: u32) \<Longrightarrow> sint w = uint w"
proof -
  assume "0 \<le> sint w"
  moreover have "sint w < 2 ^ LENGTH(32)" using sint_less[of w] by simp
  ultimately have "take_bit LENGTH(32) (sint w) = sint w" by (rule take_bit_int_eq_self)
  then show "sint w = uint w" by (simp only: uint_sint)
qed

lemma u32_of_nonneg_int:
  assumes "0 \<le> sint (w :: u32)"
  shows "(scast w :: u64) = ucast w"
  unfolding scast_eq ucast_eq sint_uint_u32[OF assms] by (rule refl)

text \<open>
  What the worker relies on, whichever backend it loaded: an accepted model has tensors of the configured
  sizes. The size of the input tensor is then the plain product, without wrap-around.
\<close>

locale model_backend =
  fixes load :: "'lib \<Rightarrow> backend_config \<Rightarrow> string + backend"
    and sizes_ok :: "'lib \<Rightarrow> bool"
  assumes load_fits: "load lib config = Inr b \<Longrightarrow> sizes_ok lib \<Longrightarrow> int_dimensions config \<Longrightarrow> backend_fits config b"
begin

lemma input_size_exact:
  assumes "load lib config = Inr b" "sizes_ok lib" "int_dimensions config"
  shows "unat (bk_input_size b) = 3 * unat (bc_input_width config) * unat (bc_input_height config)"
proof -
  have bound: "unat w < 2 ^ 31" if "0 \<le> sint w" for w :: u32
  proof -
    have "sint w < 2 ^ 31" using sint_less[of w] by simp
    then have "uint w < 2 ^ 31" by (simp only: sint_uint_u32[OF that])
    then have "int (unat w) < int (2 ^ 31)" by simp
    then show ?thesis by (rule of_nat_less_imp_less)
  qed
  let ?w = "unat (bc_input_width config)" and ?h = "unat (bc_input_height config)"
  have "?w * ?h \<le> 2 ^ 31 * 2 ^ 31"
    using assms(3) bound[of "bc_input_width config"] bound[of "bc_input_height config"]
    by (intro mult_mono) (simp_all add: int_dimensions_def)
  then have "3 * ?w * ?h < 2 ^ 64" by simp
  moreover have "bk_input_size b = of_nat (3 * ?w * ?h)"
    using load_fits[OF assms] by (simp add: backend_fits_def input_elements_def)
  ultimately show ?thesis by (simp only: unsigned_of_nat take_bit_nat_eq_self) (simp add: take_bit_nat_eq_self)
qed

end

lemma mnn_backend_fits:
  assumes "mnn_initialize lib config = Inr b" "mnn_sizes_ok lib" "int_dimensions config"
  shows "backend_fits config b"
proof -
  from assms(1) obtain i session where s: "mnn_createSession lib i (int_of_u32 (bc_threads config)) = Inr (Some session)"
      "mnn_check_session config session = Inr b"
    by (auto simp: mnn_initialize_def split: sum.splits option.splits)
  then obtain input out where t: "ms_inputs session = [Some input]" "mnn_check_tensors config input out = Inr b"
    by (auto simp: mnn_check_session_def split: list.splits option.splits)
  then have shape: "mt_shape input = [1, 3, int_of_u32 (bc_input_height config), int_of_u32 (bc_input_width config)]"
    and b: "b = \<lparr>bk_name = ''mnn'', bk_input_size = word_of_int (mt_elementSize input),
                   bk_output_rows = bc_output_rows config, bk_output_fields = bc_output_fields config\<rparr>"
    by (auto simp: mnn_check_tensors_def Let_def split: if_splits)
  have "mt_elementSize input = prod_list (mt_shape input)"
    using assms(2) s(1) t(1) by (auto simp: mnn_sizes_ok_def)
  then have "bk_input_size b = 3 * (word_of_int (sint (bc_input_height config)) * word_of_int (sint (bc_input_width config)))"
    by (simp only: b shape backend.select_convs) (simp add: wi_hom_syms)
  then show ?thesis using assms(3)
    by (simp add: int_dimensions_def backend_fits_def input_elements_def b u32_of_nonneg_int ac_simps)
qed

lemma openvino_backend_fits:
  assumes "openvino_initialize lib config = Inr b" "openvino_sizes_ok lib"
  shows "backend_fits config b"
proof -
  from assms(1) obtain model input out where m: "ov_inputs lib model = [input]"
      "ov_check_ports lib config model input out = Inr b"
    by (auto simp: openvino_initialize_def split: sum.splits list.splits)
  then obtain n where n: "ov_compile lib model (int_of_u32 (bc_threads config)) = Inr n"
    and shape: "ov_shape input = [1, 3, ucast (bc_input_height config), ucast (bc_input_width config)]"
    and b: "b = \<lparr>bk_name = ''openvino'', bk_input_size = n,
                   bk_output_rows = bc_output_rows config, bk_output_fields = bc_output_fields config\<rparr>"
    by (auto simp: ov_check_ports_def Let_def split: if_splits sum.splits)
  have "n = prod_list (ov_shape input)" using assms(2) n m(1) by (auto simp: openvino_sizes_ok_def)
  then show ?thesis by (simp add: backend_fits_def input_elements_def b shape ac_simps)
qed

interpretation mnn: model_backend mnn_initialize mnn_sizes_ok
  by unfold_locales (rule mnn_backend_fits)

interpretation openvino: model_backend openvino_initialize openvino_sizes_ok
  by unfold_locales (rule openvino_backend_fits)

end
