(* ===== verification/Inference.thy ===== *)
theory Inference
  imports Detections Inference_Backend Dma_Sync Latest_Queue
begin

text \<open>
  \<open>InferenceWorker\<close> (\<open>src/inference.cpp\<close>): loading the model, the hand-over of frames, and the worker
  thread that turns a low-resolution frame into detections. The environment collects what the code
  calls and does not define: OpenCV's image operations, the network's run, the clock, the kernel's
  DMA-BUF call. Lines written to \<open>std::cerr\<close> and calls of the detection consumer are recorded.
\<close>

section \<open>Environment\<close>

record image =
  im_cols :: int
  im_rows :: "pixel list list"

datatype run_result = RunOk "fval list option" | RunFails string | RunThrows string

record 'c inference_env =
  ie_sync :: "'c sync_operation"
  ie_strerror :: "int \<Rightarrow> string"
  ie_mem :: memory
  ie_cvtColor :: "int \<Rightarrow> int \<Rightarrow> u8 list \<Rightarrow> string + image"
  ie_resize :: "image \<Rightarrow> int \<Rightarrow> int \<Rightarrow> string + image"
  ie_filled :: "int \<Rightarrow> int \<Rightarrow> pixel \<Rightarrow> image"
  ie_copyTo :: "image \<Rightarrow> int \<Rightarrow> int \<Rightarrow> int \<Rightarrow> int \<Rightarrow> image \<Rightarrow> string + image"
  ie_inputTensor :: "fval list option"
  ie_run :: "fval list \<Rightarrow> run_result"
  ie_meet :: "rect \<Rightarrow> rect \<Rightarrow> rect"
  ie_area :: "rect \<Rightarrow> fval"
  ie_sort :: "detection list \<Rightarrow> detection list"
  ie_input_us :: "frame_lease \<Rightarrow> u64"
  ie_total_us :: "frame_lease \<Rightarrow> u64"
  ie_consumer :: bool

section \<open>One inference\<close>

datatype infer_result = Undefined | InferThrows string | Inferred "detection list"

fun tensor_rows :: "nat \<Rightarrow> nat \<Rightarrow> fval list \<Rightarrow> fval list list" where
  "tensor_rows 0 n_fields data = []"
| "tensor_rows (Suc n_rows) n_fields data = take n_fields data # tensor_rows n_rows n_fields (drop n_fields data)"

text \<open>From the output tensor to the detections.\<close>

definition infer_output :: "'c inference_env \<Rightarrow> app_config \<Rightarrow> backend \<Rightarrow> letterbox \<Rightarrow> image \<Rightarrow> fval list option \<Rightarrow> infer_result" where
  "infer_output env config backend transform bgr out =
     (case out of
        None \<Rightarrow> InferThrows ''inference backend returned an invalid output tensor''
      | Some data \<Rightarrow>
          if bk_output_rows backend = 0 \<or> bk_output_fields backend = 0 \<or> bk_output_fields backend < 6
          then InferThrows ''inference backend returned an invalid output tensor''
          else Inferred (decode_output (ie_sort env) (ie_meet env) (ie_area env) (cfg_confidence_threshold config)
                 (cfg_nms_threshold config) transform (im_cols bgr) (int (length (im_rows bgr)))
                 (tensor_rows (unat (bk_output_rows backend)) (unat (bk_output_fields backend)) data)))"

text \<open>From the letterboxed image to the detections; a failing run is counted.\<close>

definition infer_network :: "'c inference_env \<Rightarrow> app_config \<Rightarrow> backend \<Rightarrow> letterbox \<Rightarrow> image \<Rightarrow> image \<Rightarrow> metrics
     \<Rightarrow> infer_result \<times> metrics" where
  "infer_network env config backend transform bgr letterboxed m =
     (case ie_inputTensor env of
        None \<Rightarrow> (InferThrows ''inference backend returned an invalid input tensor'', m)
      | Some data \<Rightarrow>
          if bk_input_size backend = 0
             \<or> bk_input_size backend \<noteq> input_elements (cfg_inference_width config) (cfg_inference_height config)
          then (InferThrows ''inference backend returned an invalid input tensor'', m)
          else
            (case ie_run env (bgrToNormalizedRgbChw (nat (im_cols letterboxed)) (im_rows letterboxed) data) of
               RunFails e \<Rightarrow> (InferThrows (''inference backend failed: '' @ e), bump (Inf inference_backend_errors) m)
             | RunThrows e \<Rightarrow> (InferThrows e, m)
             | RunOk out \<Rightarrow> (infer_output env config backend transform bgr out, m)))"

definition infer :: "'c inference_env \<Rightarrow> app_config \<Rightarrow> backend \<Rightarrow> image \<Rightarrow> metrics \<Rightarrow> infer_result \<times> metrics" where
  "infer env config backend bgr m =
     (let width = int_of_u32 (cfg_inference_width config);
          height = int_of_u32 (cfg_inference_height config)
      in case calculateLetterbox (im_cols bgr) (int (length (im_rows bgr))) width height of
           None \<Rightarrow> (Undefined, m)
         | Some t \<Rightarrow>
             (case ie_resize env bgr (lb_resized_width t) (lb_resized_height t) of
                Inl e \<Rightarrow> (InferThrows e, m)
              | Inr resized \<Rightarrow>
                  (case ie_copyTo env (ie_filled env height width (114, 114, 114)) (lb_pad_x t) (lb_pad_y t)
                          (lb_resized_width t) (lb_resized_height t) resized of
                     Inl e \<Rightarrow> (InferThrows e, m)
                   | Inr letterboxed \<Rightarrow> infer_network env config backend t bgr letterboxed m)))"

section \<open>One frame\<close>

fun rejection_counter :: "compact_i420_status \<Rightarrow> i420_counter option" where
  "rejection_counter Compatible = None"
| "rejection_counter InvalidDimensions = Some inference_i420_invalid_dimensions"
| "rejection_counter UnexpectedPlaneCount = Some inference_i420_unexpected_plane_count"
| "rejection_counter UnexpectedStride = Some inference_i420_unexpected_stride"
| "rejection_counter InvalidFileDescriptor = Some inference_i420_invalid_fd"
| "rejection_counter DifferentFileDescriptors = Some inference_i420_separate_fds"
| "rejection_counter MissingMapping = Some inference_i420_missing_mapping"
| "rejection_counter InconsistentMapping = Some inference_i420_inconsistent_mapping"
| "rejection_counter NonCompactOffsets = Some inference_i420_non_compact_offsets"
| "rejection_counter PlaneTooShort = Some inference_i420_plane_too_short"
| "rejection_counter PayloadTooShort = Some inference_i420_payload_too_short"
| "rejection_counter MappingTooShort = Some inference_i420_mapping_too_short"

definition recordI420Rejection :: "compact_i420_status \<Rightarrow> metrics \<Rightarrow> metrics" where
  "recordI420Rejection status m = (case rejection_counter status of None \<Rightarrow> m | Some c \<Rightarrow> bump (I420 c) m)"

text \<open>
  The worker's local \<open>reported_rejection\<close>, the counters, the lines it wrote to \<open>std::cerr\<close> and the calls
  of the detection consumer, oldest first.
\<close>

record inference_run =
  ir_reported :: "compact_i420_status option"
  ir_metrics :: metrics
  ir_errors :: "string list"
  ir_consumed :: "(frame_lease \<times> detection list) list"

definition tally :: "inference_counter \<Rightarrow> inference_run \<Rightarrow> inference_run" where
  "tally c r = r\<lparr>ir_metrics := bump (Inf c) (ir_metrics r)\<rparr>"

definition complain :: "string \<Rightarrow> inference_run \<Rightarrow> inference_run" where
  "complain line r = r\<lparr>ir_errors := ir_errors r @ [line]\<rparr>"

definition frame_failed :: "string \<Rightarrow> inference_run \<Rightarrow> inference_run" where
  "frame_failed what r = complain (''[inference] frame failed: '' @ what) r"

definition sync_failed :: "string \<Rightarrow> inference_run \<Rightarrow> inference_run" where
  "sync_failed sync_error r =
     complain (''[inference] DMA-BUF read sync failed: '' @ sync_error)
       (tally inference_dma_sync_errors (tally inference_preprocess_errors r))"

definition report_fallback :: "compact_i420_status \<Rightarrow> inference_run \<Rightarrow> inference_run" where
  "report_fallback status r =
     (let r1 = tally inference_copy_fallback r;
          r2 = r1\<lparr>ir_metrics := recordI420Rejection status (ir_metrics r1)\<rparr>
      in if ir_reported r2 = Some status then r2
         else (complain (''[inference] I420 copy fallback reason='' @ compactI420StatusName status) r2)
                \<lparr>ir_reported := Some status\<rparr>)"

text \<open>\<open>view.height * 3 / 2\<close> in \<open>unsigned\<close> arithmetic.\<close>

definition yuv_rows :: "stream_view \<Rightarrow> int" where
  "yuv_rows view = int_of_u32 (sv_height view * 3 div 2)"

definition yuv_cols :: "stream_view \<Rightarrow> int" where
  "yuv_cols view = int_of_u32 (sv_width view)"

definition finish_frame :: "'c inference_env \<Rightarrow> frame_lease \<Rightarrow> detection list \<Rightarrow> inference_run \<Rightarrow> inference_run" where
  "finish_frame env frame detections r =
     (let m1 = bump (Inf inference_processed) (ir_metrics r);
          m2 = bump_by (Inf detected_persons) (of_nat (length detections)) m1;
          m3 = bump_by (Inf inference_input_total_us) (ie_input_us env frame) m2;
          m4 = bump_by (Inf inference_total_us) (ie_total_us env frame) m3
      in r\<lparr>ir_metrics := m4,
           ir_consumed := (if detections \<noteq> [] \<and> ie_consumer env then ir_consumed r @ [(frame, detections)]
                           else ir_consumed r)\<rparr>)"

definition infer_frame :: "'c inference_env \<Rightarrow> app_config \<Rightarrow> backend \<Rightarrow> frame_lease \<Rightarrow> image \<Rightarrow> inference_run
     \<Rightarrow> inference_run option" where
  "infer_frame env config backend frame bgr r =
     (case infer env config backend bgr (ir_metrics r) of
        (Undefined, m) \<Rightarrow> None
      | (InferThrows e, m) \<Rightarrow> Some (frame_failed e (r\<lparr>ir_metrics := m\<rparr>))
      | (Inferred detections, m) \<Rightarrow> Some (finish_frame env frame detections (r\<lparr>ir_metrics := m\<rparr>)))"

text \<open>The body of the \<open>try\<close> block once reading is synchronised; the state of \<open>read_sync\<close> is returned.\<close>

definition zero_copy_frame :: "'c inference_env \<Rightarrow> app_config \<Rightarrow> backend \<Rightarrow> frame_lease \<Rightarrow> ptr \<Rightarrow> read_sync \<Rightarrow> 'c
     \<Rightarrow> inference_run \<Rightarrow> (read_sync \<times> 'c \<times> inference_run) option" where
  "zero_copy_frame env config backend frame data s c r =
     (let view = fl_lores frame;
          r1 = tally inference_zero_copy_ingress r
      in case ie_cvtColor env (yuv_rows view) (yuv_cols view)
                (read_n (ie_mem env) data (nat (yuv_rows view * yuv_cols view))) of
           Inl e \<Rightarrow> Some (s, c, frame_failed e r1)
         | Inr bgr \<Rightarrow>
             do {
               (ended, sync_error, s1, c1) \<leftarrow> sync_finish (ie_sync env) (ie_strerror env) s c;
               r2 \<leftarrow> (if ended then infer_frame env config backend frame bgr r1 else Some (sync_failed sync_error r1));
               Some (s1, c1, r2)
             })"

definition copied_frame :: "'c inference_env \<Rightarrow> app_config \<Rightarrow> backend \<Rightarrow> frame_lease \<Rightarrow> compact_i420_status \<Rightarrow> read_sync \<Rightarrow> 'c
     \<Rightarrow> inference_run \<Rightarrow> (read_sync \<times> 'c \<times> inference_run) option" where
  "copied_frame env config backend frame status s c r =
     (let view = fl_lores frame;
          r1 = report_fallback status r;
          copy = copyMappedI420 (ie_mem env) view
      in if \<not> copy_ok copy
         then Some (s, c, complain (''[inference] I420 copy fallback failed: '' @ copy_error copy)
                            (tally inference_preprocess_errors r1))
         else
           do {
             (ended, sync_error, s1, c1) \<leftarrow> sync_finish (ie_sync env) (ie_strerror env) s c;
             r2 \<leftarrow> (if \<not> ended then Some (sync_failed sync_error r1)
                   else case ie_cvtColor env (yuv_rows view) (yuv_cols view) (destination copy) of
                          Inl e \<Rightarrow> Some (frame_failed e r1)
                        | Inr bgr \<Rightarrow> infer_frame env config backend frame bgr r1);
             Some (s1, c1, r2)
           })"

text \<open>
  The whole iteration; the destructor of \<open>read_sync\<close> runs \<open>finish\<close> once more on every way out. \<open>None\<close>: the
  sync call never stops asking for a retry, or a float is converted out of range.
\<close>

definition process_frame :: "'c inference_env \<Rightarrow> app_config \<Rightarrow> backend \<Rightarrow> frame_lease \<Rightarrow> 'c \<Rightarrow> inference_run
     \<Rightarrow> ('c \<times> inference_run) option" where
  "process_frame env config backend frame c r =
     (let compact = inspectCompactI420 (fl_lores frame)
      in do {
           (sync_error, s, c1) \<leftarrow> dma_buf_read_sync (Some (ie_sync env)) (ie_strerror env) (fl_lores frame) c;
           (s1, c2, r1) \<leftarrow>
             (if \<not> ready s then Some (s, c1, sync_failed sync_error r)
              else if ci_status compact = Compatible
              then zero_copy_frame env config backend frame (ci_data compact) s c1 r
              else copied_frame env config backend frame (ci_status compact) s c1 r);
           (ignored, ignored_error, s2, c3) \<leftarrow> sync_finish (ie_sync env) (ie_strerror env) s1 c2;
           Some (c3, r1)
         })"

section \<open>What OpenCV and the network promise\<close>

definition image_ok :: "image \<Rightarrow> int \<Rightarrow> int \<Rightarrow> bool" where
  "image_ok img cols rows \<longleftrightarrow>
     im_cols img = cols \<and> int (length (im_rows img)) = rows \<and> list_all (\<lambda>row. int (length row) = cols) (im_rows img)"

text \<open>
  Conversion yields an image of two thirds of the rows; resizing to a non-empty size yields that size;
  a filled matrix has the given size; copying into a region that lies in the matrix succeeds and keeps
  its size.
\<close>

definition opencv_ok :: "'c inference_env \<Rightarrow> bool" where
  "opencv_ok env \<longleftrightarrow>
     (\<forall>rows cols data img. ie_cvtColor env rows cols data = Inr img \<longrightarrow> image_ok img cols (2 * rows div 3))
     \<and> (\<forall>img w h. 1 \<le> w \<longrightarrow> 1 \<le> h \<longrightarrow> (\<exists>out. ie_resize env img w h = Inr out \<and> image_ok out w h))
     \<and> (\<forall>h w p. 0 \<le> h \<longrightarrow> 0 \<le> w \<longrightarrow> image_ok (ie_filled env h w p) w h)
     \<and> (\<forall>canvas cols rows x y w h img. image_ok canvas cols rows \<longrightarrow> image_ok img w h \<longrightarrow>
          0 \<le> x \<longrightarrow> x + w \<le> cols \<longrightarrow> 0 \<le> y \<longrightarrow> y + h \<le> rows \<longrightarrow>
          (\<exists>out. ie_copyTo env canvas x y w h img = Inr out \<and> image_ok out cols rows))"

text \<open>Dimensions within the range the letterbox arithmetic supports.\<close>

abbreviation dimension :: "int \<Rightarrow> bool" where "dimension n \<equiv> 1 \<le> n \<and> n \<le> 2 ^ 20"

definition inference_size_ok :: "app_config \<Rightarrow> bool" where
  "inference_size_ok config \<longleftrightarrow>
     dimension (int_of_u32 (cfg_inference_width config)) \<and> dimension (int_of_u32 (cfg_inference_height config))"

text \<open>The configuration \<open>initialize\<close> hands to the backend.\<close>

definition backend_config_of :: "app_config \<Rightarrow> backend_config" where
  "backend_config_of config =
     default_backend_config\<lparr>bc_model_path := cfg_model_path config, bc_input_width := cfg_inference_width config,
                            bc_input_height := cfg_inference_height config, bc_threads := cfg_inference_threads config\<rparr>"

text \<open>The network as initialised: the input buffer has the announced size, the output its shape.\<close>

definition network_ok :: "'c inference_env \<Rightarrow> app_config \<Rightarrow> backend \<Rightarrow> bool" where
  "network_ok env config b \<longleftrightarrow>
     backend_fits (backend_config_of config) b
     \<and> (case ie_inputTensor env of None \<Rightarrow> False | Some data \<Rightarrow> length data = unat (bk_input_size b))"

lemma uint_nonnegative: "0 \<le> uint (x :: u32)"
  by simp

lemma sint_small: "uint (x :: u32) < 2 ^ 31 \<Longrightarrow> sint x = uint x"
proof -
  assume "uint x < 2 ^ 31"
  moreover have "- (2 ^ 31) \<le> uint x" by (rule order.trans[OF _ uint_nonnegative]) simp
  ultimately have "signed_take_bit 31 (uint x) = uint x" by (intro signed_take_bit_int_eq_self)
  then show "sint x = uint x" using sint_uint[of x] by simp
qed

lemma input_elements_unat:
  assumes "dimension (sint w) \<and> dimension (sint h)"
  shows "unat (input_elements w h) = 3 * (nat (sint w) * nat (sint h))"
proof -
  have u: "nat (sint w) = unat w" "nat (sint h) = unat h"
    unfolding unat_eq_nat_uint using assms by (intro arg_cong[where f = nat] sint_uint_u32; linarith)+
  have "unat w \<le> 2 ^ 20" "unat h \<le> 2 ^ 20" unfolding u[symmetric] using assms by (simp_all add: nat_le_iff)
  then have "unat w * unat h \<le> 2 ^ 20 * 2 ^ 20" by (rule mult_le_mono)
  then have small: "unat (ucast w :: u64) * unat (ucast h :: u64) \<le> 2 ^ 40" by simp
  then have p: "unat (ucast w * ucast h :: u64) = unat w * unat h" by (subst unat_mult_no_wrap) simp_all
  then have "unat (3 * (ucast w * ucast h) :: u64) = 3 * (unat w * unat h)"
    using small by (subst unat_mult_no_wrap) simp_all
  then show ?thesis by (simp add: input_elements_def u mult.assoc)
qed

lemma infer_letterboxed:
  assumes "opencv_ok env" "inference_size_ok config" "image_ok bgr cols rows" "dimension cols" "dimension rows"
    and "cols \<le> rows * int_of_u32 (cfg_inference_width config)" "rows \<le> cols * int_of_u32 (cfg_inference_height config)"
  shows "\<exists>t img. infer env config b bgr m = infer_network env config b t bgr img m
    \<and> calculateLetterbox cols rows (int_of_u32 (cfg_inference_width config)) (int_of_u32 (cfg_inference_height config)) = Some t
    \<and> image_ok img (int_of_u32 (cfg_inference_width config)) (int_of_u32 (cfg_inference_height config))"
proof -
  let ?w = "int_of_u32 (cfg_inference_width config)" and ?h = "int_of_u32 (cfg_inference_height config)"
  have size: "dimension ?w" "dimension ?h" using assms(2) by (simp_all add: inference_size_ok_def)
  obtain t where t: "calculateLetterbox cols rows ?w ?h = Some t" "letterbox_ok ?w ?h t"
      "1 \<le> lb_resized_width t" "1 \<le> lb_resized_height t"
    using letterbox_fits[of cols rows ?w ?h] assms(4-7) size by auto
  obtain resized where r: "ie_resize env bgr (lb_resized_width t) (lb_resized_height t) = Inr resized"
      "image_ok resized (lb_resized_width t) (lb_resized_height t)"
    using assms(1) t(3,4) unfolding opencv_ok_def by blast
  have filled: "image_ok (ie_filled env ?h ?w (114, 114, 114)) ?w ?h"
    using assms(1) size unfolding opencv_ok_def by force
  obtain img where img: "ie_copyTo env (ie_filled env ?h ?w (114, 114, 114)) (lb_pad_x t) (lb_pad_y t)
      (lb_resized_width t) (lb_resized_height t) resized = Inr img" "image_ok img ?w ?h"
    using assms(1) filled r(2) t(2) unfolding opencv_ok_def letterbox_ok_def by blast
  have dims: "im_cols bgr = cols" "int (length (im_rows bgr)) = rows" using assms(3) by (simp_all add: image_ok_def)
  show ?thesis using t(1) r(1) img by (auto simp: infer_def dims Let_def)
qed


definition blank :: "int \<Rightarrow> int \<Rightarrow> image" where
  "blank cols rows = \<lparr>im_cols = cols, im_rows = replicate (nat rows) (replicate (nat cols) (114, 114, 114))\<rparr>"

lemma blank_ok: "0 \<le> cols \<Longrightarrow> 0 \<le> rows \<Longrightarrow> image_ok (blank cols rows) cols rows"
  by (simp add: image_ok_def blank_def list_all_iff)

definition sample_env :: "'c sync_operation \<Rightarrow> run_result \<Rightarrow> 'c inference_env" where
  "sample_env sync result =
     \<lparr>ie_sync = sync, ie_strerror = (\<lambda>e. []), ie_mem = (\<lambda>a. ucast a),
      ie_cvtColor = (\<lambda>rows cols data. if 0 \<le> rows \<and> 0 \<le> cols then Inr (blank cols (2 * rows div 3)) else Inl ''bad size''),
      ie_resize = (\<lambda>img w h. if 1 \<le> w \<and> 1 \<le> h then Inr (blank w h) else Inl ''empty size''),
      ie_filled = (\<lambda>h w p. blank w h), ie_copyTo = (\<lambda>canvas x y w h img. Inr canvas),
      ie_inputTensor = Some (replicate 307200 (Fin 0)), ie_run = (\<lambda>tensor. result), ie_meet = sample_meet,
      ie_area = sample_area, ie_sort = sort_detections, ie_input_us = (\<lambda>f. 1000), ie_total_us = (\<lambda>f. 2000),
      ie_consumer = True\<rparr>"

lemma sample_env_ok: "opencv_ok (sample_env sync result)"
  by (auto simp: opencv_ok_def sample_env_def blank_ok split: if_splits)

definition sample_backend :: backend where
  "sample_backend = \<lparr>bk_name = ''mnn'', bk_input_size = 307200, bk_output_rows = 6300, bk_output_fields = 85\<rparr>"

lemma sample_network_ok: "network_ok (sample_env sync result) default_config sample_backend"
  by (simp add: network_ok_def sample_env_def sample_backend_def backend_fits_def backend_config_of_def
      default_backend_config_def default_config_def input_elements_def)

lemma default_inference_size [simp]:
  "inference_size_ok default_config" "int_of_u32 (cfg_inference_width default_config) = 320"
  "int_of_u32 (cfg_inference_height default_config) = 320"
  by (simp_all add: inference_size_ok_def default_config_def)


section \<open>Accounting of frames\<close>

definition failures :: "inference_run \<Rightarrow> nat" where
  "failures r = length (filter (prefix ''[inference] frame failed: '') (ir_errors r))"

text \<open>Frames with a result, frames that could not be read, frames that failed.\<close>

definition accounted :: "inference_run \<Rightarrow> u64" where
  "accounted r = ir_metrics r (Inf inference_processed) + ir_metrics r (Inf inference_preprocess_errors) + of_nat (failures r)"

definition all_i420 :: "i420_counter list" where
  "all_i420 = [inference_i420_invalid_dimensions, inference_i420_unexpected_plane_count,
     inference_i420_unexpected_stride, inference_i420_invalid_fd, inference_i420_separate_fds,
     inference_i420_missing_mapping, inference_i420_inconsistent_mapping, inference_i420_non_compact_offsets,
     inference_i420_plane_too_short, inference_i420_payload_too_short, inference_i420_mapping_too_short]"

definition rejections :: "metrics \<Rightarrow> u64" where
  "rejections m = sum_list (map (\<lambda>c. m (I420 c)) all_i420)"

text \<open>Fallbacks that no rejection counter explains.\<close>

definition unexplained :: "inference_run \<Rightarrow> u64" where
  "unexplained r = ir_metrics r (Inf inference_copy_fallback) - rejections (ir_metrics r)"

lemma rejections_other [simp]: "\<forall>c. k \<noteq> I420 c \<Longrightarrow> rejections (bump_by k n m) = rejections m"
  by (simp add: rejections_def)

lemma rejections_bump [simp]: "rejections (bump (I420 c) m) = rejections m + 1"
  by (cases c) (simp_all add: rejections_def all_i420_def)

lemma recordI420Rejection_metrics [simp]:
  "recordI420Rejection status m (Inf c) = m (Inf c)"
  "status \<noteq> Compatible \<Longrightarrow> rejections (recordI420Rejection status m) = rejections m + 1"
  by (cases status; simp add: recordI420Rejection_def)+

lemma failures_complain [simp]:
  "failures (complain line r) = failures r + (if prefix ''[inference] frame failed: '' line then 1 else 0)"
  by (simp add: failures_def complain_def)

lemma complain_fields [simp]:
  "ir_metrics (complain line r) = ir_metrics r" "ir_consumed (complain line r) = ir_consumed r"
  "ir_reported (complain line r) = ir_reported r" "length (ir_errors (complain line r)) = Suc (length (ir_errors r))"
  by (simp_all add: complain_def)

lemma tally_fields [simp]:
  "ir_metrics (tally c r) = bump (Inf c) (ir_metrics r)" "ir_consumed (tally c r) = ir_consumed r"
  "ir_errors (tally c r) = ir_errors r" "ir_reported (tally c r) = ir_reported r" "failures (tally c r) = failures r"
  by (simp_all add: tally_def failures_def)

lemma failures_other [simp]:
  "failures (r\<lparr>ir_metrics := m\<rparr>) = failures r" "failures (r\<lparr>ir_consumed := cs\<rparr>) = failures r"
  "failures (r\<lparr>ir_reported := s\<rparr>) = failures r"
  by (simp_all add: failures_def)

lemma sync_failed_account [simp]:
  "accounted (sync_failed e r) = accounted r + 1" "unexplained (sync_failed e r) = unexplained r"
  "ir_consumed (sync_failed e r) = ir_consumed r"
  by (simp_all add: sync_failed_def accounted_def unexplained_def)

lemma frame_failed_account [simp]:
  "accounted (frame_failed e r) = accounted r + 1" "unexplained (frame_failed e r) = unexplained r"
  "ir_consumed (frame_failed e r) = ir_consumed r"
  by (simp_all add: frame_failed_def accounted_def unexplained_def)

lemma report_fallback_account [simp]:
  "accounted (report_fallback status r) = accounted r" "ir_consumed (report_fallback status r) = ir_consumed r"
  "status \<noteq> Compatible \<Longrightarrow> unexplained (report_fallback status r) = unexplained r"
  by (simp_all add: report_fallback_def accounted_def unexplained_def Let_def)

lemma zero_copy_account [simp]:
  "accounted (tally inference_zero_copy_ingress r) = accounted r"
  "unexplained (tally inference_zero_copy_ingress r) = unexplained r"
  by (simp_all add: accounted_def unexplained_def)

lemma copy_failed_account [simp]:
  "accounted (complain (''[inference] I420 copy fallback failed: '' @ e) (tally inference_preprocess_errors r)) = accounted r + 1"
  "unexplained (complain l (tally inference_preprocess_errors r)) = unexplained r"
  by (simp_all add: accounted_def unexplained_def)

lemma finish_frame_account [simp]:
  "accounted (finish_frame env frame ds r) = accounted r + 1" "unexplained (finish_frame env frame ds r) = unexplained r"
  by (simp_all add: finish_frame_def accounted_def unexplained_def Let_def)

text \<open>Every frame is accounted for once, every fallback is explained, what is consumed is sound.\<close>

definition frame_effect :: "app_config \<Rightarrow> frame_lease \<Rightarrow> inference_run \<Rightarrow> inference_run \<Rightarrow> bool" where
  "frame_effect config frame r r' \<longleftrightarrow>
     accounted r' = accounted r + 1 \<and> unexplained r' = unexplained r
     \<and> (ir_consumed r' = ir_consumed r
        \<or> (\<exists>ds. ir_consumed r' = ir_consumed r @ [(frame, ds)] \<and> ds \<noteq> []
             \<and> list_all (detection_ok (cfg_confidence_threshold config) (yuv_cols (fl_lores frame))
                          (uint (sv_height (fl_lores frame)))) ds))"

definition lores_view_ok :: "app_config \<Rightarrow> stream_view \<Rightarrow> bool" where
  "lores_view_ok config view \<longleftrightarrow>
     even (uint (sv_height view)) \<and> dimension (uint (sv_height view)) \<and> dimension (yuv_cols view)
     \<and> yuv_cols view \<le> uint (sv_height view) * int_of_u32 (cfg_inference_width config)
     \<and> uint (sv_height view) \<le> yuv_cols view * int_of_u32 (cfg_inference_height config)"

lemma yuv_rows_height:
  assumes "even (uint (sv_height view))" "uint (sv_height view) \<le> 2 ^ 20"
  shows "2 * yuv_rows view div 3 = uint (sv_height view)"
proof -
  let ?h = "sv_height view"
  have "uint (?h * 3) = uint ?h * 3" using assms(2) uint_nonnegative[of ?h] by (simp add: uint_word_ariths)
  then have u: "uint (?h * 3 div 2) = uint ?h * 3 div 2" by (simp add: uint_div)
  have "uint ?h * 3 div 2 < 2 ^ 31" using assms(2) by simp
  then have s: "sint (?h * 3 div 2) = uint (?h * 3 div 2)" unfolding u[symmetric] by (rule sint_small)
  obtain b where b: "uint ?h = 2 * b" using assms(1) by (rule evenE)
  show ?thesis unfolding yuv_rows_def s u b by simp
qed

lemma infer_sound:
  assumes cv: "opencv_ok env" and sorts: "\<And>ds. mset (ie_sort env ds) = mset ds" and size: "inference_size_ok config"
    and bgr: "image_ok bgr cols rows" "dimension cols" "dimension rows"
      "cols \<le> rows * int_of_u32 (cfg_inference_width config)" "rows \<le> cols * int_of_u32 (cfg_inference_height config)"
  shows "fst (infer env config b bgr m) \<noteq> Undefined \<and> snd (infer env config b bgr m) \<in> {m, bump (Inf inference_backend_errors) m}
    \<and> (\<forall>ds. fst (infer env config b bgr m) = Inferred ds \<longrightarrow> list_all (detection_ok (cfg_confidence_threshold config) cols rows) ds)"
proof -
  obtain t img where t: "infer env config b bgr m = infer_network env config b t bgr img m"
    using infer_letterboxed[OF cv size bgr, of b m] by blast
  have dims: "im_cols bgr = cols" "int (length (im_rows bgr)) = rows" using bgr(1) by (simp_all add: image_ok_def)
  have ok: "list_all (detection_ok (cfg_confidence_threshold config) cols rows)
      (decode_output (ie_sort env) (ie_meet env) (ie_area env) (cfg_confidence_threshold config)
        (cfg_nms_threshold config) t cols rows tensor)" for tensor
    using decode_output_ok[OF sorts] bgr(2,3) by (auto simp: list_all_iff)
  show ?thesis unfolding t
    by (auto simp: infer_network_def infer_output_def dims ok split: option.splits run_result.splits)
qed

lemma infer_frame_effect:
  assumes env: "opencv_ok env" "\<And>ds. mset (ie_sort env ds) = mset ds" "inference_size_ok config"
    and view: "lores_view_ok config (fl_lores frame)"
    and bgr: "image_ok bgr (yuv_cols (fl_lores frame)) (uint (sv_height (fl_lores frame)))"
  shows "\<exists>r'. infer_frame env config b frame bgr r = Some r' \<and> frame_effect config frame r r'"
proof -
  obtain result m where i: "infer env config b bgr (ir_metrics r) = (result, m)" by force
  have s: "result \<noteq> Undefined" "m = ir_metrics r \<or> m = bump (Inf inference_backend_errors) (ir_metrics r)"
      "result = Inferred ds \<Longrightarrow> list_all (detection_ok (cfg_confidence_threshold config) (yuv_cols (fl_lores frame))
        (uint (sv_height (fl_lores frame)))) ds" for ds
    using infer_sound[OF env bgr, of b "ir_metrics r"] view by (auto simp: lores_view_ok_def i)
  have m: "accounted (r\<lparr>ir_metrics := m\<rparr>) = accounted r" "unexplained (r\<lparr>ir_metrics := m\<rparr>) = unexplained r"
    using s(2) by (auto simp: accounted_def unexplained_def)
  show ?thesis
  proof (cases result)
    case (Inferred ds)
    have "ir_consumed (finish_frame env frame ds (r\<lparr>ir_metrics := m\<rparr>)) =
        (if ds \<noteq> [] \<and> ie_consumer env then ir_consumed r @ [(frame, ds)] else ir_consumed r)"
      by (simp add: finish_frame_def Let_def)
    then show ?thesis using s(3)[OF Inferred] by (simp add: infer_frame_def i Inferred frame_effect_def m)
  qed (use s(1) in \<open>simp_all add: infer_frame_def i frame_effect_def m\<close>)
qed

lemma frame_effect_from:
  "frame_effect config frame r1 r' \<Longrightarrow> accounted r1 = accounted r \<Longrightarrow> unexplained r1 = unexplained r \<Longrightarrow>
     ir_consumed r1 = ir_consumed r \<Longrightarrow> frame_effect config frame r r'"
  by (simp add: frame_effect_def)

lemma converted_frame_effect:
  assumes env: "opencv_ok env" "\<And>ds. mset (ie_sort env ds) = mset ds" "inference_size_ok config"
    and view: "lores_view_ok config (fl_lores frame)"
  shows "\<exists>r'. (case ie_cvtColor env (yuv_rows (fl_lores frame)) (yuv_cols (fl_lores frame)) data of
            Inl e \<Rightarrow> Some (frame_failed e r) | Inr bgr \<Rightarrow> infer_frame env config b frame bgr r) = Some r'
    \<and> frame_effect config frame r r'"
proof (cases "ie_cvtColor env (yuv_rows (fl_lores frame)) (yuv_cols (fl_lores frame)) data")
  case (Inl e)
  then show ?thesis by (simp add: frame_effect_def)
next
  case (Inr bgr)
  have "2 * yuv_rows (fl_lores frame) div 3 = uint (sv_height (fl_lores frame))"
    using view by (intro yuv_rows_height) (auto simp: lores_view_ok_def)
  then have "image_ok bgr (yuv_cols (fl_lores frame)) (uint (sv_height (fl_lores frame)))"
    using env(1) Inr unfolding opencv_ok_def by metis
  from infer_frame_effect[OF env view this] Inr show ?thesis by simp
qed

section \<open>Contract of one iteration\<close>

lemma zero_copy_frame_alt:
  "zero_copy_frame env config b frame data s c r =
     (let view = fl_lores frame;
          r1 = tally inference_zero_copy_ingress r;
          img = ie_cvtColor env (yuv_rows view) (yuv_cols view) (read_n (ie_mem env) data (nat (yuv_rows view * yuv_cols view)))
      in case sync_finish (ie_sync env) (ie_strerror env) s c of
           None \<Rightarrow> (case img of Inl e \<Rightarrow> Some (s, c, frame_failed e r1) | Inr bgr \<Rightarrow> None)
         | Some (ended, sync_error, s1, c1) \<Rightarrow>
             (case img of
                Inl e \<Rightarrow> Some (s, c, frame_failed e r1)
              | Inr bgr \<Rightarrow> map_option (\<lambda>r2. (s1, c1, r2))
                   (if ended then infer_frame env config b frame bgr r1 else Some (sync_failed sync_error r1))))"
  by (auto simp: zero_copy_frame_def Let_def split: sum.splits option.splits Option.bind_split)

lemma zero_copy_frame_effect:
  assumes env: "opencv_ok env" "\<And>ds. mset (ie_sort env ds) = mset ds" "inference_size_ok config"
    and view: "lores_view_ok config (fl_lores frame)"
    and finish: "sync_finish (ie_sync env) (ie_strerror env) s c = Some (ended, error, s1, c1)"
  shows "\<exists>s' c' r'. zero_copy_frame env config b frame data s c r = Some (s', c', r') \<and> frame_effect config frame r r'
    \<and> ((s', c') = (s, c) \<or> (s', c') = (s1, c1))"
proof -
  let ?img = "ie_cvtColor env (yuv_rows (fl_lores frame)) (yuv_cols (fl_lores frame))
    (read_n (ie_mem env) data (nat (yuv_rows (fl_lores frame) * yuv_cols (fl_lores frame))))"
  let ?r1 = "tally inference_zero_copy_ingress r"
  obtain r' where r': "(case ?img of Inl e \<Rightarrow> Some (frame_failed e ?r1) | Inr bgr \<Rightarrow> infer_frame env config b frame bgr ?r1) = Some r'"
      "frame_effect config frame ?r1 r'"
    using converted_frame_effect[OF env view] by blast
  have eff: "frame_effect config frame r r'" using r'(2) by (rule frame_effect_from) simp_all
  have failed: "frame_effect config frame r (frame_failed e ?r1)" "frame_effect config frame r (sync_failed e ?r1)" for e
    by (simp_all add: frame_effect_def)
  show ?thesis
    using r'(1) eff failed by (cases ?img; cases ended) (simp_all add: zero_copy_frame_alt finish)
qed

lemma copied_frame_effect:
  assumes env: "opencv_ok env" "\<And>ds. mset (ie_sort env ds) = mset ds" "inference_size_ok config"
    and view: "lores_view_ok config (fl_lores frame)" and status: "status \<noteq> Compatible"
    and finish: "sync_finish (ie_sync env) (ie_strerror env) s c = Some (ended, error, s1, c1)"
  shows "\<exists>s' c' r'. copied_frame env config b frame status s c r = Some (s', c', r') \<and> frame_effect config frame r r'
    \<and> ((s', c') = (s, c) \<or> (s', c') = (s1, c1))"
proof -
  let ?copy = "copyMappedI420 (ie_mem env) (fl_lores frame)"
  let ?img = "ie_cvtColor env (yuv_rows (fl_lores frame)) (yuv_cols (fl_lores frame)) (destination ?copy)"
  let ?r1 = "report_fallback status r"
  obtain r' where r': "(case ?img of Inl e \<Rightarrow> Some (frame_failed e ?r1) | Inr bgr \<Rightarrow> infer_frame env config b frame bgr ?r1) = Some r'"
      "frame_effect config frame ?r1 r'"
    using converted_frame_effect[OF env view] by blast
  have eff: "frame_effect config frame r r'" using r'(2) status by (intro frame_effect_from[OF r'(2)]) simp_all
  have failed: "frame_effect config frame r (sync_failed e ?r1)"
      "frame_effect config frame r (complain (''[inference] I420 copy fallback failed: '' @ e) (tally inference_preprocess_errors ?r1))" for e
    using status by (simp_all add: frame_effect_def del: append_Cons)
  show ?thesis
    using r'(1) eff failed by (cases "copy_ok ?copy"; cases ended) (simp_all add: copied_frame_def Let_def finish del: append_Cons)
qed


definition sample_frame :: frame_lease where
  "sample_frame = \<lparr>fl_request = 0, fl_main = sample_view, fl_lores = sample_view, fl_sequence = 9, fl_sensor_timestamp_ns = 33\<rparr>"

definition fresh_run :: "metrics \<Rightarrow> inference_run" where
  "fresh_run m = \<lparr>ir_reported = None, ir_metrics = m, ir_errors = [], ir_consumed = []\<rparr>"

lemma retry_once_responsive: "responsive retry_once"
proof -
  have yes: "settles retry_once fd flags True" for fd flags
    by (rule settles.now) (simp_all add: retry_once_def EINTR_def EAGAIN_def)
  moreover have "settles retry_once fd flags False" for fd flags
    using settles.retry[of retry_once fd flags False] yes by (simp add: retry_once_def)
  ultimately have "settles retry_once fd flags c" for fd flags c by (cases c) auto
  then show ?thesis by (simp add: responsive_def)
qed


section \<open>Life cycle\<close>

record ('i, 'm, 'k) inference_libs =
  il_exists :: "string \<Rightarrow> string + bool"
  il_files :: "string \<Rightarrow> model_file"
  il_checksum :: "'k checksum_lib"
  il_mnn :: "'i mnn"
  il_openvino :: "'m openvino"

text \<open>\<open>iw_thread\<close>: \<open>worker_\<close> is joinable; \<open>iw_active\<close>: its function has not returned.\<close>

record 'c inference_worker =
  iw_backend :: "backend option"
  iw_model_sha256 :: string
  iw_latest :: "frame_lease latest_queue"
  iw_thread :: bool
  iw_active :: bool
  iw_initialized :: bool
  iw_running :: bool
  iw_context :: 'c
  iw_run :: inference_run

definition iw_create :: "'c \<Rightarrow> metrics \<Rightarrow> 'c inference_worker" where
  "iw_create c m =
     \<lparr>iw_backend = None, iw_model_sha256 = [], iw_latest = lq_init, iw_thread = False, iw_active = False,
      iw_initialized = False, iw_running = False, iw_context = c, iw_run = fresh_run m\<rparr>"

definition initialize_failed :: "string \<Rightarrow> 'c inference_worker \<Rightarrow> bool \<times> 'c inference_worker" where
  "initialize_failed what w =
     (False, w\<lparr>iw_run := complain (''[inference] initialization failed: '' @ what) (iw_run w)\<rparr>)"

definition backend_initialize :: "('i, 'm, 'k) inference_libs \<Rightarrow> backend_kind \<Rightarrow> backend_config \<Rightarrow> string + backend" where
  "backend_initialize libs kind config =
     (case kind of
        OpenVinoBackend \<Rightarrow> openvino_initialize (il_openvino libs) config
      | MnnBackend \<Rightarrow> mnn_initialize (il_mnn libs) config)"

definition backend_name :: "backend_kind \<Rightarrow> string" where
  "backend_name kind = (case kind of OpenVinoBackend \<Rightarrow> ''openvino'' | MnnBackend \<Rightarrow> ''mnn'')"

definition load_backend :: "('i, 'm, 'k) inference_libs \<Rightarrow> app_config \<Rightarrow> 'c inference_worker \<Rightarrow> bool \<times> 'c inference_worker" where
  "load_backend libs config w =
     (case createInferenceBackend (cfg_inference_backend config) of
        Inl e \<Rightarrow> initialize_failed e w
      | Inr kind \<Rightarrow>
          (case backend_initialize libs kind (backend_config_of config) of
             Inl error \<Rightarrow>
               (False, w\<lparr>iw_backend := None,
                         iw_run := tally inference_backend_errors
                           (complain (''[inference] '' @ backend_name kind @ '' initialization failed: '' @ error) (iw_run w))\<rparr>)
           | Inr b \<Rightarrow> (True, w\<lparr>iw_backend := Some b, iw_initialized := True\<rparr>)))"

definition iw_initialize :: "('i, 'm, 'k) inference_libs \<Rightarrow> app_config \<Rightarrow> 'c inference_worker \<Rightarrow> bool \<times> 'c inference_worker" where
  "iw_initialize libs config w =
     (if \<not> cfg_inference_enabled config then (True, w\<lparr>iw_initialized := True\<rparr>)
      else
        case il_exists libs (cfg_model_path config) of
          Inl e \<Rightarrow> initialize_failed e w
        | Inr False \<Rightarrow> (False, w\<lparr>iw_run := complain (''[inference] model not found: '' @ cfg_model_path config) (iw_run w)\<rparr>)
        | Inr True \<Rightarrow>
            (case inferenceModelFingerprint (il_checksum libs) (il_files libs)
                    (cfg_inference_backend config) (cfg_model_path config) of
               Inl e \<Rightarrow> initialize_failed e w
             | Inr sha \<Rightarrow> load_backend libs config (w\<lparr>iw_model_sha256 := sha\<rparr>)))"

definition iw_start :: "app_config \<Rightarrow> 'c inference_worker \<Rightarrow> bool \<times> 'c inference_worker" where
  "iw_start config w =
     (if \<not> iw_initialized w then (False, w)
      else if \<not> cfg_inference_enabled config then (True, w)
      else if iw_running w then (True, w)
      else (True, w\<lparr>iw_running := True, iw_thread := True, iw_active := True,
                    iw_run := (iw_run w)\<lparr>ir_reported := None\<rparr>\<rparr>))"

definition iw_submit :: "frame_lease \<Rightarrow> 'c inference_worker \<Rightarrow> 'c inference_worker" where
  "iw_submit frame w =
     (if \<not> iw_running w then w
      else
        let (replaced, q) = lq_push frame (iw_latest w);
            w1 = w\<lparr>iw_latest := q\<rparr>
        in if replaced then w1\<lparr>iw_run := tally inference_dropped (iw_run w1)\<rparr> else w1)"

text \<open>One turn of the loop of \<open>workerLoop\<close>; a worker asleep in \<open>waitPop\<close> does not move.\<close>

definition iw_turn :: "'c inference_env \<Rightarrow> app_config \<Rightarrow> 'c inference_worker \<Rightarrow> 'c inference_worker option" where
  "iw_turn env config w =
     (if \<not> iw_active w then Some w
      else if \<not> iw_running w then Some (w\<lparr>iw_active := False\<rparr>)
      else
        case lq_waitPop (iw_latest w) of
          (PopBlocked, q) \<Rightarrow> Some w
        | (PopClosed, q) \<Rightarrow> Some (w\<lparr>iw_latest := q, iw_active := False\<rparr>)
        | (Popped frame, q) \<Rightarrow>
            (case iw_backend w of
               None \<Rightarrow> None
             | Some b \<Rightarrow>
                 do {
                   (c, r) \<leftarrow> process_frame env config b frame (iw_context w) (iw_run w);
                   Some (w\<lparr>iw_latest := q, iw_context := c, iw_run := r\<rparr>)
                 }))"

text \<open>\<open>stop\<close> up to the join, which waits for the worker's function to return.\<close>

definition iw_stop_request :: "'c inference_worker \<Rightarrow> 'c inference_worker" where
  "iw_stop_request w = (if \<not> iw_running w then w else w\<lparr>iw_running := False, iw_latest := lq_close (iw_latest w)\<rparr>)"

definition iw_stop_join :: "'c inference_worker \<Rightarrow> 'c inference_worker option" where
  "iw_stop_join w = (if iw_thread w \<and> iw_active w then None else Some (w\<lparr>iw_thread := False\<rparr>))"


definition sample_tensor_info :: "int list \<Rightarrow> mnn_tensor" where
  "sample_tensor_info shape = \<lparr>mt_shape = shape, mt_float = True, mt_bits = 32, mt_lanes = 1, mt_caffe = True,
     mt_host = True, mt_elementSize = prod_list shape\<rparr>"

definition sample_libs :: "(unit, unit, u8 list) inference_libs" where
  "sample_libs =
     \<lparr>il_exists = (\<lambda>p. Inr True), il_files = (\<lambda>p. Readable [1, 2, 3] True),
      il_checksum = \<lparr>ck_new = Some [], ck_update = (@), ck_string = map (\<lambda>b. CHR ''0'')\<rparr>,
      il_mnn = \<lparr>mnn_createFromFile = (\<lambda>p. Inr (Some ())),
                mnn_createSession = (\<lambda>i n. Inr (Some \<lparr>ms_inputs = [Some (sample_tensor_info [1, 3, 320, 320])],
                                                   ms_outputs = [Some (sample_tensor_info [1, 6300, 85])]\<rparr>))\<rparr>,
      il_openvino = \<lparr>ov_read_model = (\<lambda>p. Inl ''no model''), ov_inputs = (\<lambda>m. []), ov_outputs = (\<lambda>m. []),
                     ov_show_shape = (\<lambda>s. []), ov_compile = (\<lambda>m n. Inl ''no device'')\<rparr>\<rparr>"


lemma iw_turn_stopped:
  "\<not> iw_running w \<Longrightarrow> iw_turn env config w = Some (if iw_active w then w\<lparr>iw_active := False\<rparr> else w)"
  by (simp only: iw_turn_def if_True not_False_eq_True) (simp only: if_distrib[of Some] if_cancel split: if_split, simp)

lemma iw_turn_closed:
  "iw_running w \<Longrightarrow> iw_active w \<Longrightarrow> closed (iw_latest w) \<Longrightarrow> slot (iw_latest w) = None \<Longrightarrow>
     iw_turn env config w = Some (w\<lparr>iw_active := False\<rparr>)"
  by (simp add: iw_turn_def lq_waitPop_def)

text \<open>Whatever the worker is doing, a stop request lets it leave within its current frame.\<close>

lemma stop_releases_worker:
  assumes "iw_running w"
  shows "\<exists>w'. iw_turn env config (iw_stop_request w) = Some w' \<and> \<not> iw_active w' \<and> iw_run w' = iw_run w
    \<and> iw_stop_join w' = Some (w'\<lparr>iw_thread := False\<rparr>)"
proof -
  let ?w = "w\<lparr>iw_running := False, iw_latest := lq_close (iw_latest w)\<rparr>"
  have "iw_stop_request w = ?w" using assms by (simp add: iw_stop_request_def)
  then show ?thesis by (simp add: iw_turn_stopped iw_stop_join_def)
qed

text \<open>
  A worker that is started again after \<open>stop\<close> reports success and is dead: the queue stays closed, so
  the new thread leaves at once and every later frame is refused without being counted as dropped.
\<close>

lemma restarted_worker_is_dead:
  assumes "iw_initialized w" "iw_running w" "cfg_inference_enabled config" "iw_turn env config (iw_stop_request w) = Some w1"
    and "iw_stop_join w1 = Some w2" "iw_start config w2 = (ok, w3)" "iw_turn env config w3 = Some w4"
  shows "ok \<and> iw_running w4 \<and> \<not> iw_active w4 \<and> iw_submit frame w4 = w4"
proof -
  let ?w = "w\<lparr>iw_running := False, iw_latest := lq_close (iw_latest w)\<rparr>"
  have "iw_stop_request w = ?w" using assms(2) by (simp add: iw_stop_request_def)
  then have "w1 = (if iw_active w then ?w\<lparr>iw_active := False\<rparr> else ?w)" using assms(4) by (simp add: iw_turn_stopped)
  then have w2: "\<not> iw_running w2" "iw_initialized w2" "closed (iw_latest w2)" "slot (iw_latest w2) = None"
    using assms(1,5) by (auto simp: iw_stop_join_def lq_close_def split: if_splits)
  let ?w3 = "w2\<lparr>iw_running := True, iw_thread := True, iw_active := True, iw_run := (iw_run w2)\<lparr>ir_reported := None\<rparr>\<rparr>"
  have w3: "ok" "w3 = ?w3" using assms(3,6) w2 by (simp_all add: iw_start_def)
  then have "w4 = ?w3\<lparr>iw_active := False\<rparr>" using assms(7) w2 by (simp add: iw_turn_closed)
  then show ?thesis using w3(1) w2 by (simp add: iw_submit_def lq_push_def)
qed

end
