(* ===== verification/Event_Writer.thy ===== *)
theory Event_Writer
  imports Event_Recorder App_Config Detections "HOL-Library.Sublist"
begin

text \<open>
  The worker's side of \<open>EventRecorder\<close> (\<open>src/event_recorder.cpp\<close>): writing the snapshot, the clip and
  the metadata of a job into a hidden directory and publishing it by renaming. The file system is an
  association list from paths to nodes with the calls of \<open>std::filesystem\<close> the code makes; any call can
  additionally fail, as \<open>we_fault\<close> decides. The JPEG encoder and the GStreamer pipeline are parameters:
  whatever they answer and whatever they leave in the file they were given.
\<close>

section \<open>File system\<close>

type_synonym path = "string list"

datatype node = Directory | File string

type_synonym file_system = "(path \<times> node) list"

abbreviation lookup :: "file_system \<Rightarrow> path \<Rightarrow> node option" where
  "lookup \<equiv> map_of"

datatype fs_call =
    CreateDirectories path | Exists path | CreateDirectory path | Rename path path
  | OpenWrite path | FlushWrite path | FileSize path

text \<open>The directories above and at \<open>p\<close>, the root excluded.\<close>

definition ancestors :: "path \<Rightarrow> path list" where
  "ancestors p = map (\<lambda>n. take n p) [1..<length p + 1]"

definition fs_write :: "path \<Rightarrow> string \<Rightarrow> file_system \<Rightarrow> file_system" where
  "fs_write p content fs = (p, File content) # fs"

definition is_file :: "file_system \<Rightarrow> path \<Rightarrow> bool" where
  "is_file fs p \<longleftrightarrow> (case lookup fs p of Some (File c) \<Rightarrow> True | _ \<Rightarrow> False)"

definition fs_create_directories :: "path \<Rightarrow> file_system \<Rightarrow> string option \<times> file_system" where
  "fs_create_directories p fs =
     (if list_ex (is_file fs) (ancestors p) then (Some ''Not a directory'', fs)
      else (None, map (\<lambda>q. (q, Directory)) (filter (\<lambda>q. lookup fs q = None) (ancestors p)) @ fs))"

definition fs_create_directory :: "path \<Rightarrow> file_system \<Rightarrow> (bool \<times> string option) \<times> file_system" where
  "fs_create_directory p fs =
     (case lookup fs p of
        Some Directory \<Rightarrow> ((False, None), fs)
      | Some (File c) \<Rightarrow> ((False, Some ''File exists''), fs)
      | None \<Rightarrow>
          if lookup fs (butlast p) = Some Directory then ((True, None), (p, Directory) # fs)
          else ((False, Some ''No such file or directory''), fs))"

text \<open>Moving the subtree at \<open>p\<close> to \<open>q\<close>, replacing what is there.\<close>

definition fs_move :: "path \<Rightarrow> path \<Rightarrow> file_system \<Rightarrow> file_system" where
  "fs_move p q fs =
     map (\<lambda>(x, n). (if prefix p x then q @ drop (length p) x else x, n)) (filter (\<lambda>(x, n). \<not> prefix q x) fs)"

definition fs_rename :: "path \<Rightarrow> path \<Rightarrow> file_system \<Rightarrow> string option \<times> file_system" where
  "fs_rename p q fs =
     (case (lookup fs p, lookup fs q) of
        (None, target) \<Rightarrow> (Some ''No such file or directory'', fs)
      | (Some source, target) \<Rightarrow>
          if prefix p q \<or> prefix q p then (Some ''Invalid argument'', fs)
          else if lookup fs (butlast q) \<noteq> Some Directory then (Some ''No such file or directory'', fs)
          else
            (case (source, target) of
               (Directory, Some (File c)) \<Rightarrow> (Some ''Not a directory'', fs)
             | (File d, Some Directory) \<Rightarrow> (Some ''Is a directory'', fs)
             | (Directory, Some Directory) \<Rightarrow>
                 if list_ex (\<lambda>(x, n). strict_prefix q x) fs then (Some ''Directory not empty'', fs)
                 else (None, fs_move p q fs)
             | (source, target) \<Rightarrow> (None, fs_move p q fs)))"

section \<open>Environment\<close>

text \<open>What \<open>cv::cvtColor\<close> and \<open>cv::imwrite\<close> do with the snapshot, and what is then in the file.\<close>

datatype jpeg_result = JpegThrows string "string option" | JpegRejects "string option" | JpegWritten string

record mux_buffer =
  mb_payload :: "u8 list"
  mb_pts :: u64
  mb_dts :: u64
  mb_duration :: u64
  mb_delta :: bool

datatype mux_message = MuxEos | MuxError string | MuxSilent

record mux_env =
  mx_launch :: "string \<Rightarrow> string option"
  mx_elements :: bool
  mx_playing :: bool
  mx_alloc :: "u8 list \<Rightarrow> bool"
  mx_push :: "mux_buffer \<Rightarrow> string option"
  mx_eos :: bool
  mx_wait :: mux_message
  mx_file :: "mux_buffer list \<Rightarrow> string option"

record writer_env =
  we_fault :: "fs_call \<Rightarrow> string option"
  we_strftime :: "string \<Rightarrow> nat \<Rightarrow> string"
  we_jpeg :: "main_snapshot \<Rightarrow> int \<Rightarrow> jpeg_result"
  we_mux :: mux_env
  we_torn :: "string \<Rightarrow> string"

text \<open>A call that can fail for reasons outside the model.\<close>

definition guarded :: "writer_env \<Rightarrow> fs_call \<Rightarrow> string option \<times> file_system \<Rightarrow> file_system \<Rightarrow> string option \<times> file_system" where
  "guarded env call result fs = (case we_fault env call of Some e \<Rightarrow> (Some e, fs) | None \<Rightarrow> result)"

definition do_rename :: "writer_env \<Rightarrow> path \<Rightarrow> path \<Rightarrow> file_system \<Rightarrow> string option \<times> file_system" where
  "do_rename env p q fs = guarded env (Rename p q) (fs_rename p q fs) fs"

definition leave_file :: "path \<Rightarrow> string option \<Rightarrow> file_system \<Rightarrow> file_system" where
  "leave_file p content fs = (case content of None \<Rightarrow> fs | Some c \<Rightarrow> fs_write p c fs)"

text \<open>\<open>fs::file_size\<close> with an error reported as 0.\<close>

definition file_bytes :: "writer_env \<Rightarrow> path \<Rightarrow> file_system \<Rightarrow> u64" where
  "file_bytes env p fs =
     (if we_fault env (FileSize p) \<noteq> None then 0
      else case lookup fs p of Some (File c) \<Rightarrow> of_nat (length c) | _ \<Rightarrow> 0)"

section \<open>Text\<close>

definition formatDate :: "(string \<Rightarrow> nat \<Rightarrow> string) \<Rightarrow> nat \<Rightarrow> string" where
  "formatDate strftime wall = strftime ''%Y-%m-%d'' (wall div 1000000000)"

definition formatWallTime :: "(string \<Rightarrow> nat \<Rightarrow> string) \<Rightarrow> nat \<Rightarrow> string" where
  "formatWallTime strftime wall =
     (let time = wall div 1000000000;
          offset = strftime ''%z'' time;
          formatted_offset = (if length offset = 5 then take 3 offset @ '':'' @ drop 3 offset else offset)
      in strftime ''%Y-%m-%dT%H:%M:%S'' time @ ''.'' @ pad3 (wall div 1000000 mod 1000) @ formatted_offset)"

definition hex_digit :: "nat \<Rightarrow> char" where
  "hex_digit d = (if d < 10 then char_of (48 + d) else char_of (87 + d))"

text \<open>The escape of one character; the two that have no literal form here are written by their codes.\<close>

definition escape_char :: "char \<Rightarrow> string" where
  "escape_char c =
     (let n = of_char c :: nat
      in if n = 34 then [CHR 92, CHR 34]
         else if n = 92 then [CHR 92, CHR 92]
         else if n = 8 then CHR 92 # ''b''
         else if n = 12 then CHR 92 # ''f''
         else if n = 10 then CHR 92 # ''n''
         else if n = 13 then CHR 92 # ''r''
         else if n = 9 then CHR 92 # ''t''
         else if n < 32 then CHR 92 # ''u00'' @ [hex_digit (n div 16), hex_digit (n mod 16)]
         else [c])"

definition jsonEscape :: "string \<Rightarrow> string" where
  "jsonEscape value = concat (map escape_char value)"

text \<open>A reader of the rest of a JSON string literal (RFC 8259), for characters up to 255.\<close>

definition hex_value :: "char \<Rightarrow> nat option" where
  "hex_value c =
     (let n = of_char c :: nat
      in if 48 \<le> n \<and> n < 58 then Some (n - 48)
         else if 97 \<le> n \<and> n < 103 then Some (n - 87)
         else if 65 \<le> n \<and> n < 71 then Some (n - 55)
         else None)"

definition simple_escape :: "char \<Rightarrow> char option" where
  "simple_escape c =
     (let n = of_char c :: nat
      in if n = 34 \<or> n = 92 \<or> n = 47 then Some c
         else if n = 98 then Some (CHR 8)
         else if n = 102 then Some (CHR 12)
         else if n = 110 then Some (CHR 10)
         else if n = 114 then Some (CHR 13)
         else if n = 116 then Some (CHR 9)
         else None)"

fun read_json_string :: "string \<Rightarrow> (string \<times> string) option" where
  "read_json_string [] = None"
| "read_json_string (c # cs) =
     (if c = CHR 34 then Some ([], cs)
      else if c = CHR 92
      then (case cs of
              [] \<Rightarrow> None
            | e # es \<Rightarrow>
                if e = CHR ''u''
                then (case es of
                        a # b # x # y # after \<Rightarrow>
                          (case (hex_value a, hex_value b, hex_value x, hex_value y) of
                             (Some 0, Some 0, Some h, Some l) \<Rightarrow>
                               map_option (\<lambda>(s, rest). (char_of (16 * h + l) # s, rest)) (read_json_string after)
                           | _ \<Rightarrow> None)
                      | _ \<Rightarrow> None)
                else (case simple_escape e of
                        None \<Rightarrow> None
                      | Some d \<Rightarrow> map_option (\<lambda>(s, rest). (d # s, rest)) (read_json_string es)))
      else if of_char c < (32 :: nat) then None
      else map_option (\<lambda>(s, rest). (c # s, rest)) (read_json_string cs))"

declare read_json_string.simps(2) [simp del]

lemma of_char_eq: "of_char c = (n :: nat) \<Longrightarrow> c = char_of n"
  by (metis char_of_char)

lemma char_codes:
  "char_of (34 :: nat) = CHR 34" "char_of (92 :: nat) = CHR 92" "char_of (8 :: nat) = CHR 8" "char_of (12 :: nat) = CHR 12"
  "char_of (10 :: nat) = CHR 10" "char_of (13 :: nat) = CHR 13" "char_of (9 :: nat) = CHR 9"
  by code_simp+

lemma hex_value_hex_digit: "d < 16 \<Longrightarrow> hex_value (hex_digit d) = Some d"
  by (auto simp: hex_value_def hex_digit_def Let_def of_char_of)

lemma read_escaped_char:
  assumes "read_json_string text = Some (s, rest)"
  shows "read_json_string (escape_char c @ text) = Some (c # s, rest)"
proof -
  let ?n = "of_char c :: nat"
  consider "?n = 34" | "?n = 92" | "?n = 8" | "?n = 12" | "?n = 10" | "?n = 13" | "?n = 9"
    | "?n < 32" "?n \<notin> {34, 92, 8, 12, 10, 13, 9}" | "32 \<le> ?n" "?n \<noteq> 34" "?n \<noteq> 92" by force
  then show ?thesis
  proof cases
    case 8
    then have e: "escape_char c = CHR 92 # ''u00'' @ [hex_digit (?n div 16), hex_digit (?n mod 16)]"
      by (simp add: escape_char_def Let_def)
    have "hex_value (CHR ''0'') = Some 0" by (simp add: hex_value_def)
    then show ?thesis using 8 hex_value_hex_digit[of "?n div 16"] hex_value_hex_digit[of "?n mod 16"] assms
      by (simp add: e read_json_string.simps(2)[of "CHR 92"])
  next
    case 9
    then have "c \<noteq> CHR 34" "c \<noteq> CHR 92" by auto
    then show ?thesis using 9 assms by (simp add: escape_char_def Let_def read_json_string.simps(2)[of c])
  qed (use assms in \<open>auto dest!: of_char_eq simp: char_codes escape_char_def Let_def read_json_string.simps(2)[of "CHR 92"] simple_escape_def\<close>)
qed

text \<open>
  C17. Escaping is invertible and cannot be escaped from: whatever text, including quotes, backslashes and
  control characters of file names and library error messages, is written between quotes, a JSON reader
  recovers exactly that text and stops at the closing quote.
\<close>

theorem json_string_roundtrip:
  "read_json_string (jsonEscape v @ CHR 34 # rest) = Some (v, rest)"
proof (induction v)
  case Nil
  then show ?case by (simp add: jsonEscape_def read_json_string.simps(2)[of "CHR 34"])
next
  case (Cons c cs)
  from read_escaped_char[OF this, of c] show ?case by (simp add: jsonEscape_def)
qed

section \<open>Snapshot\<close>

record artifact_result =
  ar_status :: string
  ar_path :: string
  ar_bytes :: u64
  ar_error :: string

definition artifact_initial :: artifact_result where
  "artifact_initial = \<lparr>ar_status = ''unavailable'', ar_path = [], ar_bytes = 0, ar_error = []\<rparr>"

definition artifact_failed :: "string \<Rightarrow> artifact_result" where
  "artifact_failed error = artifact_initial\<lparr>ar_status := ''failed'', ar_error := error\<rparr>"

text \<open>The common end of both artifacts: the finished file gets its final name.\<close>

definition finalize :: "writer_env \<Rightarrow> string \<Rightarrow> path \<Rightarrow> path \<Rightarrow> file_system \<Rightarrow> (bool \<times> artifact_result) \<times> file_system" where
  "finalize env what partial_path final_path fs =
     (case do_rename env partial_path final_path fs of
        (Some e, fs1) \<Rightarrow> ((False, artifact_failed (what @ '' rename failed: '' @ e)), fs1)
      | (None, fs1) \<Rightarrow>
          ((True, artifact_initial\<lparr>ar_status := ''complete'', ar_path := last final_path,
                                    ar_bytes := file_bytes env final_path fs1\<rparr>), fs1))"

definition writeSnapshot :: "writer_env \<Rightarrow> main_snapshot \<Rightarrow> path \<Rightarrow> path \<Rightarrow> int \<Rightarrow> file_system
     \<Rightarrow> (bool \<times> artifact_result) \<times> file_system" where
  "writeSnapshot env snap partial_path final_path quality fs =
     (if snap_i420 snap = [] \<or> snap_width snap = 0 \<or> snap_height snap = 0
      then ((False, artifact_failed ''snapshot pixels are unavailable''), fs)
      else if of_nat (length (snap_i420 snap)) \<noteq> (ucast (snap_width snap) * ucast (snap_height snap) * 3 div 2 :: u64)
      then ((False, artifact_failed ''snapshot I420 size does not match its dimensions''), fs)
      else
        (case we_jpeg env snap quality of
           JpegThrows what left \<Rightarrow>
             ((False, artifact_failed (''OpenCV JPEG failure: '' @ what)), leave_file partial_path left fs)
         | JpegRejects left \<Rightarrow>
             ((False, artifact_failed ''OpenCV rejected the JPEG write''), leave_file partial_path left fs)
         | JpegWritten content \<Rightarrow>
             finalize env ''snapshot'' partial_path final_path (fs_write partial_path content fs)))"

section \<open>Video\<close>

definition unit_bytes :: "access_unit \<Rightarrow> u8 list" where
  "unit_bytes u = (case payload u of None \<Rightarrow> [] | Some p \<Rightarrow> p)"

definition mux_buffer_of :: "u64 \<Rightarrow> access_unit \<Rightarrow> mux_buffer" where
  "mux_buffer_of base u =
     (let local_timestamp = (if sensor_timestamp_ns u \<ge> base then sensor_timestamp_ns u - base else 0)
      in \<lparr>mb_payload = unit_bytes u, mb_pts = local_timestamp, mb_dts = local_timestamp,
          mb_duration = duration_ns u, mb_delta = \<not> keyframe u\<rparr>)"

fun mux_push_units :: "mux_env \<Rightarrow> u64 \<Rightarrow> access_unit list \<Rightarrow> mux_buffer list \<Rightarrow> string option \<times> mux_buffer list" where
  "mux_push_units mx base [] done_buffers = (None, done_buffers)"
| "mux_push_units mx base (u # us) done_buffers =
     (if \<not> mx_alloc mx (unit_bytes u) then (Some ''event mux could not allocate an H.264 buffer'', done_buffers)
      else
        case mx_push mx (mux_buffer_of base u) of
          Some flow \<Rightarrow> (Some (''event mux appsrc push failed: '' @ flow), done_buffers)
        | None \<Rightarrow> mux_push_units mx base us (done_buffers @ [mux_buffer_of base u]))"

definition pipeline_description :: "app_config \<Rightarrow> string" where
  "pipeline_description config =
     ''appsrc name=event_source is-live=false format=time block=true ''
     @ ''! video/x-h264,stream-format=byte-stream,alignment=au ''
     @ ''! h264parse config-interval=-1 ! ''
     @ (if cfg_event_container config = ''mp4'' then ''mp4mux'' else ''matroskamux'')
     @ '' ! filesink name=event_sink sync=false''"

text \<open>From the push of the units to the message of the bus: the error, if the file was not finalised.\<close>

definition mux_outcome :: "mux_env \<Rightarrow> string option \<Rightarrow> string option" where
  "mux_outcome mx push_error =
     (case push_error of
        Some e \<Rightarrow> Some e
      | None \<Rightarrow>
          if \<not> mx_eos mx then Some ''event mux could not send EOS''
          else
            case mx_wait mx of
              MuxEos \<Rightarrow> None
            | MuxError what \<Rightarrow> Some (''event mux failed: '' @ what)
            | MuxSilent \<Rightarrow> Some ''event mux did not finalize within 15 seconds'')"

definition mux_run :: "writer_env \<Rightarrow> access_unit list \<Rightarrow> path \<Rightarrow> path \<Rightarrow> file_system \<Rightarrow> (bool \<times> artifact_result) \<times> file_system" where
  "mux_run env us partial_path final_path fs =
     (let mx = we_mux env;
          (push_error, buffers) = mux_push_units mx (sensor_timestamp_ns (hd us)) us [];
          fs1 = leave_file partial_path (mx_file mx buffers) fs
      in case mux_outcome mx push_error of
           Some e \<Rightarrow> ((False, artifact_failed e), fs1)
         | None \<Rightarrow> finalize env ''video'' partial_path final_path fs1)"

definition muxVideo :: "writer_env \<Rightarrow> detection event_job \<Rightarrow> app_config \<Rightarrow> path \<Rightarrow> path \<Rightarrow> file_system
     \<Rightarrow> (bool \<times> artifact_result) \<times> file_system" where
  "muxVideo env job config partial_path final_path fs =
     (case units job of
        [] \<Rightarrow> ((False, artifact_initial\<lparr>ar_error := no_preroll_error\<rparr>), fs)
      | u # us \<Rightarrow>
          if \<not> independentlyDecodable u
          then ((False, artifact_failed ''event video does not begin with IDR/SPS/PPS''), fs)
          else if list_ex (\<lambda>x. unit_bytes x = [] \<or> generation x \<noteq> job_generation job) (u # us)
          then ((False, artifact_failed ''event video contains an invalid or mixed-generation access unit''), fs)
          else
            (case mx_launch (we_mux env) (pipeline_description config) of
               Some what \<Rightarrow> ((False, artifact_failed (''event mux pipeline creation failed: '' @ what)), fs)
             | None \<Rightarrow>
                 if \<not> mx_elements (we_mux env)
                 then ((False, artifact_failed ''event mux pipeline is missing appsrc or filesink''), fs)
                 else if \<not> mx_playing (we_mux env)
                 then ((False, artifact_failed ''event mux pipeline failed to enter PLAYING''), fs)
                 else mux_run env (u # us) partial_path final_path fs))"

section \<open>Metadata\<close>

text \<open>\<open>std::fixed\<close> with \<open>std::setprecision(6)\<close>; integer output.\<close>

definition pad6 :: "nat \<Rightarrow> string" where
  "pad6 n = replicate (6 - length (show_nat n)) (CHR ''0'') @ show_nat n"

definition show_fixed6 :: "fval \<Rightarrow> string" where
  "show_fixed6 x =
     (case x of
        FNaN \<Rightarrow> ''nan''
      | FInf negative \<Rightarrow> (if negative then ''-inf'' else ''inf'')
      | Fin q \<Rightarrow>
          let n = nat (round_even (\<bar>q\<bar> * 1000000))
          in (if q < 0 then ''-'' else []) @ show_nat (n div 1000000) @ ''.'' @ pad6 (n mod 1000000))"

definition show_u64 :: "u64 \<Rightarrow> string" where "show_u64 w = show_nat (unat w)"
definition show_u32 :: "u32 \<Rightarrow> string" where "show_u32 w = show_nat (unat w)"
definition show_bool :: "bool \<Rightarrow> string" where "show_bool b = (if b then ''true'' else ''false'')"

text \<open>\<open>static_cast<std::uint64_t>(seconds * 1000.0 + 0.5)\<close>; \<open>None\<close> where the conversion is undefined.\<close>

definition milliseconds_of :: "fval \<Rightarrow> u64 option" where
  "milliseconds_of seconds =
     (case fadd binary64 (fmul binary64 seconds (Fin 1000)) (Fin (1 / 2)) of
        Fin q \<Rightarrow> if - 1 < q \<and> q < 2 ^ 64 then Some (of_int (max 0 \<lfloor>q\<rfloor>)) else None
      | _ \<Rightarrow> None)"

definition quoted :: "string \<Rightarrow> string" where "quoted s = CHR 34 # s @ [CHR 34]"
definition newline :: string where "newline = [CHR 10]"

definition json_field :: "string \<Rightarrow> string \<times> string \<Rightarrow> string" where
  "json_field indent f = indent @ quoted (fst f) @ '': '' @ snd f"

fun separated :: "string \<Rightarrow> string list \<Rightarrow> string" where
  "separated s [] = []"
| "separated s [x] = x"
| "separated s (x # y # ys) = x @ s @ separated s (y # ys)"

definition json_object :: "(string \<times> string) list \<Rightarrow> string" where
  "json_object fs = ''{'' @ newline @ separated ('','' @ newline) (map (json_field ''    '') fs) @ newline @ ''  }''"

definition optional_path :: "string \<Rightarrow> string" where
  "optional_path p = (if p = [] then ''null'' else quoted (jsonEscape p))"

definition detection_text :: "detection \<Rightarrow> string" where
  "detection_text d =
     ''    {'' @ quoted ''class_id'' @ '': '' @ show_int (class_id d) @ '', '' @ quoted ''confidence'' @ '': ''
     @ show_fixed6 (confidence d) @ '', '' @ quoted ''lores_box'' @ '': {'' @ quoted ''x'' @ '': '' @ show_fixed6 (rx (box d))
     @ '', '' @ quoted ''y'' @ '': '' @ show_fixed6 (ry (box d)) @ '', '' @ quoted ''width'' @ '': ''
     @ show_fixed6 (rwidth (box d)) @ '', '' @ quoted ''height'' @ '': '' @ show_fixed6 (rheight (box d)) @ ''}}''"

definition detections_text :: "detection list \<Rightarrow> string" where
  "detections_text ds =
     (if ds = [] then ''[]''
      else ''['' @ newline @ separated ('','' @ newline) (map detection_text ds) @ newline @ ''  ]'')"

definition metadata_fields :: "writer_env \<Rightarrow> detection event_job \<Rightarrow> app_config \<Rightarrow> artifact_result \<Rightarrow> artifact_result
     \<Rightarrow> string list \<Rightarrow> u64 \<Rightarrow> u64 \<Rightarrow> (string \<times> string) list" where
  "metadata_fields env job config snap video errs pre_ms post_ms =
     [(''schema_version'', ''1''),
      (''event_id'', quoted (jsonEscape (job_id job))),
      (''trigger_wall_time'', quoted (jsonEscape (formatWallTime (we_strftime env) (wall_time job)))),
      (''trigger_sequence'', show_u64 (trigger_sequence job)),
      (''trigger_sensor_timestamp_ns'', show_u64 (trigger_ts job)),
      (''requested_pre_roll_ms'', show_u64 pre_ms),
      (''requested_post_roll_ms'', show_u64 post_ms),
      (''requested_start_sensor_timestamp_ns'', show_u64 (requested_start_ts job)),
      (''requested_end_sensor_timestamp_ns'', show_u64 (requested_end_ts job)),
      (''actual_start_sensor_timestamp_ns'', show_u64 (actual_start_ts job)),
      (''actual_end_sensor_timestamp_ns'', show_u64 (actual_end_ts job)),
      (''pre_roll_complete'', show_bool (job_pre_roll_complete job)),
      (''post_roll_complete'', show_bool (post_roll_complete job)),
      (''video'', json_object
         [(''status'', quoted (ar_status video)), (''path'', optional_path (ar_path video)), (''codec'', quoted ''h264''),
          (''profile'', quoted ''high''), (''level'', quoted ''4''), (''container'', quoted (jsonEscape (cfg_event_container config))),
          (''width'', show_u32 (cfg_main_width config)), (''height'', show_u32 (cfg_main_height config)),
          (''nominal_fps'', show_u32 (cfg_fps config)), (''access_units'', show_nat (length (units job))),
          (''bytes'', show_u64 (ar_bytes video))]),
      (''snapshot'', json_object
         [(''status'', quoted (ar_status snap)), (''path'', optional_path (ar_path snap)),
          (''width'', show_u32 (snap_width (snapshot job))), (''height'', show_u32 (snap_height (snapshot job))),
          (''sequence'', show_u64 (snap_sequence (snapshot job))),
          (''sensor_timestamp_ns'', show_u64 (snap_sensor_timestamp_ns (snapshot job))),
          (''jpeg_quality'', show_int (cfg_event_jpeg_quality config))]),
      (''detections'', detections_text (detections job)),
      (''encoder_generation'', show_u64 (job_generation job)),
      (''errors'', ''['' @ separated '', '' (map (\<lambda>e. quoted (jsonEscape e)) errs) @ '']'')]"

definition metadata_text :: "(string \<times> string) list \<Rightarrow> string" where
  "metadata_text fs = ''{'' @ newline @ separated ('','' @ newline) (map (json_field ''  '') fs) @ newline @ ''}'' @ newline"

definition writeMetadata :: "writer_env \<Rightarrow> detection event_job \<Rightarrow> app_config \<Rightarrow> artifact_result \<Rightarrow> artifact_result
     \<Rightarrow> string list \<Rightarrow> path \<Rightarrow> file_system \<Rightarrow> (bool \<times> file_system) option" where
  "writeMetadata env job config snap video errs p fs =
     (if we_fault env (OpenWrite p) \<noteq> None then Some (False, fs)
      else
        case (milliseconds_of (cfg_event_pre_seconds config), milliseconds_of (cfg_event_post_seconds config)) of
          (Some pre_ms, Some post_ms) \<Rightarrow>
            let text = metadata_text (metadata_fields env job config snap video errs pre_ms post_ms)
            in if we_fault env (FlushWrite p) \<noteq> None then Some (False, fs_write p (we_torn env text) fs)
               else Some (True, fs_write p text fs)
        | _ \<Rightarrow> None)"

section \<open>Writing an event\<close>

function components :: "string \<Rightarrow> path" where
  "components [] = []"
| "components (c # cs) =
     (if c = CHR ''/'' then components cs
      else (c # takeWhile (\<lambda>x. x \<noteq> CHR ''/'') cs) # components (dropWhile (\<lambda>x. x \<noteq> CHR ''/'') cs))"
  by pat_completeness auto

termination components
  by (relation "measure length") (auto simp: less_Suc_eq_le length_dropWhile_le)

abbreviation event_failed :: "metrics \<Rightarrow> metrics" where "event_failed \<equiv> bump (Ev events_failed)"

text \<open>The throwing overload of \<open>fs::exists\<close>: an error ends the program, because nothing catches it.\<close>

definition fs_exists :: "writer_env \<Rightarrow> path \<Rightarrow> file_system \<Rightarrow> bool option" where
  "fs_exists env p fs = (if we_fault env (Exists p) \<noteq> None then None else Some (lookup fs p \<noteq> None))"

definition metadata_partial :: "path \<Rightarrow> path" where "metadata_partial dir = dir @ [''metadata.partial.json'']"
definition metadata_final :: "path \<Rightarrow> path" where "metadata_final dir = dir @ [''metadata.json'']"
definition snapshot_partial :: "path \<Rightarrow> path" where "snapshot_partial dir = dir @ [''snapshot.partial.jpg'']"
definition snapshot_final :: "path \<Rightarrow> path" where "snapshot_final dir = dir @ [''snapshot.jpg'']"

definition extension :: "app_config \<Rightarrow> string" where
  "extension config = (if cfg_event_container config = ''mp4'' then ''.mp4'' else ''.mkv'')"

definition clip_partial :: "app_config \<Rightarrow> path \<Rightarrow> path" where
  "clip_partial config dir = dir @ [''clip.partial'' @ extension config]"

definition clip_final :: "app_config \<Rightarrow> path \<Rightarrow> path" where
  "clip_final config dir = dir @ [''clip'' @ extension config]"

definition publish :: "writer_env \<Rightarrow> path \<Rightarrow> path \<Rightarrow> metrics \<Rightarrow> file_system \<Rightarrow> metrics \<times> file_system" where
  "publish env partial_dir final_dir m fs =
     (case do_rename env (metadata_partial partial_dir) (metadata_final partial_dir) fs of
        (Some e, fs1) \<Rightarrow> (event_failed m, fs1)
      | (None, fs1) \<Rightarrow>
          (case do_rename env partial_dir final_dir fs1 of
             (Some e, fs2) \<Rightarrow> (event_failed m, fs2)
           | (None, fs2) \<Rightarrow> (bump (Ev events_completed) m, fs2)))"

definition after_snapshot :: "bool \<times> artifact_result \<Rightarrow> metrics \<Rightarrow> string list \<Rightarrow> metrics \<times> string list" where
  "after_snapshot result m errs =
     (case result of (ok, snap) \<Rightarrow>
        if \<not> ok
        then (bump (Ev event_snapshot_errors) m, if ar_error snap \<noteq> [] then errs @ [ar_error snap] else errs)
        else (bump_by (Ev event_snapshot_bytes) (ar_bytes snap) m, errs))"

definition after_video :: "bool \<times> artifact_result \<Rightarrow> metrics \<Rightarrow> string list \<Rightarrow> metrics \<times> string list" where
  "after_video result m errs =
     (case result of (ok, video) \<Rightarrow>
        if \<not> ok \<and> ar_status video = ''failed''
        then (bump (Ev event_mux_errors) m, if ar_error video \<noteq> [] then errs @ [ar_error video] else errs)
        else if ok then (bump_by (Ev event_video_bytes) (ar_bytes video) m, errs)
        else (m, errs))"

definition write_artifacts :: "writer_env \<Rightarrow> app_config \<Rightarrow> detection event_job \<Rightarrow> path \<Rightarrow> path \<Rightarrow> metrics \<Rightarrow> file_system
     \<Rightarrow> (metrics \<times> file_system) option" where
  "write_artifacts env config job partial_dir final_dir m fs =
     (let ((snapshot_ok, snap), fs1) = writeSnapshot env (snapshot job) (snapshot_partial partial_dir)
            (snapshot_final partial_dir) (cfg_event_jpeg_quality config) fs;
          (m1, errs1) = after_snapshot (snapshot_ok, snap) m (errors job);
          ((video_ok, video), fs2) = muxVideo env job config (clip_partial config partial_dir)
            (clip_final config partial_dir) fs1;
          (m2, errs2) = after_video (video_ok, video) m1 errs1
      in do {
           (written, fs3) \<leftarrow> writeMetadata env job config snap video errs2 (metadata_partial partial_dir) fs2;
           Some (if \<not> written then (event_failed m2, fs3)
                 else if \<not> video_ok \<and> ar_status video = ''failed'' \<or> \<not> snapshot_ok \<and> \<not> video_ok
                 then (event_failed m2, fs3)
                 else publish env partial_dir final_dir m2 fs3)
         })"

definition partial_name :: "string \<Rightarrow> string" where "partial_name i = ''.'' @ i @ ''.partial''"

definition date_dir_of :: "writer_env \<Rightarrow> app_config \<Rightarrow> detection event_job \<Rightarrow> path" where
  "date_dir_of env config job = components (cfg_events_dir config) @ [formatDate (we_strftime env) (wall_time job)]"

text \<open>\<open>None\<close>: the program ends with an uncaught exception or its behaviour is undefined.\<close>

definition writeEvent :: "writer_env \<Rightarrow> app_config \<Rightarrow> detection event_job \<Rightarrow> metrics \<Rightarrow> file_system
     \<Rightarrow> (metrics \<times> file_system) option" where
  "writeEvent env config job m fs =
     (let date_dir = date_dir_of env config job;
          partial_dir = date_dir @ [partial_name (job_id job)];
          final_dir = date_dir @ [job_id job];
          (error, fs1) = guarded env (CreateDirectories date_dir) (fs_create_directories date_dir fs) fs
      in if error \<noteq> None then Some (event_failed m, fs1)
         else do {
           stale \<leftarrow> fs_exists env partial_dir fs1;
           if stale then Some (event_failed m, fs1)
           else do {
             taken \<leftarrow> fs_exists env final_dir fs1;
             if taken then Some (event_failed m, fs1)
             else
               case (case we_fault env (CreateDirectory partial_dir) of
                       Some e \<Rightarrow> ((False, Some e), fs1)
                     | None \<Rightarrow> fs_create_directory partial_dir fs1) of
                 ((created, e), fs2) \<Rightarrow>
                   if \<not> created then Some (event_failed m, fs2)
                   else write_artifacts env config job partial_dir final_dir m fs2
           }
         })"

section \<open>Lemmas on the file system\<close>

lemma lookup_write: "lookup (fs_write p c fs) x = (if x = p then Some (File c) else lookup fs x)"
  by (simp add: fs_write_def)

lemma lookup_move:
  assumes "\<not> prefix p q" "\<not> prefix q p"
  shows "lookup (fs_move p q fs) x =
    (if prefix q x then lookup fs (p @ drop (length q) x) else if prefix p x then None else lookup fs x)"
proof -
  have disjoint: "\<not> (prefix p z \<and> prefix q z)" for z
    using assms prefix_same_cases by blast
  have source: "prefix p (p @ zs)" "\<not> prefix q (p @ zs)" for zs using disjoint[of "p @ zs"] by auto
  have key: "(if prefix p y then q @ drop (length p) y else y) = x \<longleftrightarrow>
      (if prefix q x then y = p @ drop (length q) x else \<not> prefix p x \<and> y = x)" if "\<not> prefix q y" for y
    using that disjoint[of x] by (auto simp: source elim!: prefixE)
  have gone: "y \<noteq> (if prefix q x then p @ drop (length q) x else x)" if "prefix q y" for y
    using that source by auto
  show ?thesis
  proof (induction fs)
    case (Cons e fs)
    obtain y n where e: "e = (y, n)" by (cases e)
    show ?case
    proof (cases "prefix q y")
      case True
      then show ?thesis using Cons gone[OF True] by (auto simp: fs_move_def e)
    next
      case False
      have "lookup (fs_move p q (e # fs)) x =
          (if (if prefix p y then q @ drop (length p) y else y) = x then Some n else lookup (fs_move p q fs) x)"
        using False by (simp add: fs_move_def e)
      then show ?thesis unfolding key[OF False] Cons by (auto simp: e)
    qed
  qed (simp add: fs_move_def)
qed

text \<open>Only at and below the given paths anything changed.\<close>

definition touches :: "path list \<Rightarrow> file_system \<Rightarrow> file_system \<Rightarrow> bool" where
  "touches ps fs fs' \<longleftrightarrow> (\<forall>x. (\<forall>p \<in> set ps. \<not> prefix p x) \<longrightarrow> lookup fs' x = lookup fs x)"

lemma touches_refl [simp]: "touches ps fs fs"
  by (simp add: touches_def)

lemma touches_trans: "touches ps fs fs1 \<Longrightarrow> touches ps fs1 fs2 \<Longrightarrow> touches ps fs fs2"
  by (simp add: touches_def)

lemma touches_mono: "touches ps fs fs' \<Longrightarrow> set ps \<subseteq> set qs \<Longrightarrow> touches qs fs fs'"
  by (auto simp: touches_def)

lemma touches_below: "touches ps fs fs' \<Longrightarrow> \<forall>p \<in> set ps. prefix d p \<Longrightarrow> touches [d] fs fs'"
  by (auto simp: touches_def dest: prefix_order.order_trans)

lemma touchesD: "touches ps fs fs' \<Longrightarrow> \<forall>p \<in> set ps. \<not> prefix p x \<Longrightarrow> lookup fs' x = lookup fs x"
  by (simp add: touches_def)

lemma touches_write: "p \<in> set ps \<Longrightarrow> touches ps fs (fs_write p c fs)"
  by (auto simp: touches_def lookup_write)

lemma touches_leave: "p \<in> set ps \<Longrightarrow> touches ps fs (leave_file p c fs)"
  by (simp add: leave_file_def touches_write split: option.split)

lemma rename_cases:
  "do_rename env p q fs = (e, fs') \<Longrightarrow>
     (\<exists>what. e = Some what \<and> fs' = fs)
     \<or> (e = None \<and> fs' = fs_move p q fs \<and> lookup fs p \<noteq> None \<and> \<not> prefix p q \<and> \<not> prefix q p)"
  by (auto simp: do_rename_def guarded_def fs_rename_def split: option.splits if_splits node.splits)

lemma touches_rename:
  assumes "do_rename env p q fs = (e, fs')" "p \<in> set ps" "q \<in> set ps"
  shows "touches ps fs fs'"
  using rename_cases[OF assms(1)] assms(2,3) by (auto simp: touches_def lookup_move)

lemma rename_moved:
  assumes "do_rename env p q fs = (None, fs')"
  shows "lookup fs' (q @ zs) = lookup fs (p @ zs)" "lookup fs' (p @ zs) = None" "lookup fs p \<noteq> None"
  using rename_cases[OF assms] prefix_same_cases[of p "p @ zs" q] by (auto simp: lookup_move)

section \<open>What each step leaves\<close>

lemma finalize_spec:
  assumes "finalize env what p q fs = ((ok, ar), fs')"
  shows "touches [p, q] fs fs'"
    and "if ok then ar_status ar = ''complete'' \<and> lookup fs' q = lookup fs p \<and> lookup fs p \<noteq> None
         else ar_status ar = ''failed'' \<and> fs' = fs"
proof -
  obtain e fs1 where r: "do_rename env p q fs = (e, fs1)" by force
  show "touches [p, q] fs fs'" using assms touches_rename[OF r, of "[p, q]"]
    by (auto simp: finalize_def r split: option.splits)
  show "if ok then ar_status ar = ''complete'' \<and> lookup fs' q = lookup fs p \<and> lookup fs p \<noteq> None
         else ar_status ar = ''failed'' \<and> fs' = fs"
    using assms rename_cases[OF r] rename_moved(1)[of env p q fs fs1 "[]"]
    by (auto simp: finalize_def r artifact_failed_def split: option.splits)
qed

text \<open>An artifact is complete exactly when the step succeeded, and then its file exists with a good content.\<close>

definition artifact_ok :: "(string \<Rightarrow> bool) \<Rightarrow> bool \<Rightarrow> artifact_result \<Rightarrow> path \<Rightarrow> file_system \<Rightarrow> bool" where
  "artifact_ok good ok ar p fs \<longleftrightarrow>
     (ok \<longleftrightarrow> ar_status ar = ''complete'') \<and> (ok \<longrightarrow> (\<exists>content. lookup fs p = Some (File content) \<and> good content))"

lemma finalize_artifact:
  assumes "finalize env what p q fs = ((ok, ar), fs')" "lookup fs p = None \<or> (\<exists>c. lookup fs p = Some (File c) \<and> good c)"
  shows "artifact_ok good ok ar q fs'"
  using finalize_spec(2)[OF assms(1)] assms(2) by (auto simp: artifact_ok_def split: if_splits)

text \<open>The buffers of a whole clip, and what the finished files of an event contain.\<close>

definition clip_buffers :: "'d event_job \<Rightarrow> mux_buffer list" where
  "clip_buffers job = map (mux_buffer_of (sensor_timestamp_ns (hd (units job)))) (units job)"

definition clip_content :: "writer_env \<Rightarrow> detection event_job \<Rightarrow> string \<Rightarrow> bool" where
  "clip_content env job c \<longleftrightarrow> mx_file (we_mux env) (clip_buffers job) = Some c"

definition snapshot_content :: "writer_env \<Rightarrow> main_snapshot \<Rightarrow> int \<Rightarrow> string \<Rightarrow> bool" where
  "snapshot_content env snap quality c \<longleftrightarrow> we_jpeg env snap quality = JpegWritten c"

lemma writeSnapshot_spec:
  assumes "writeSnapshot env snap p q quality fs = ((ok, ar), fs')"
  shows "touches [p, q] fs fs'" "artifact_ok (snapshot_content env snap quality) ok ar q fs'"
proof -
  have f: "finalize env what p q (fs_write p content fs) = ((ok, ar), fs') \<Longrightarrow> we_jpeg env snap quality = JpegWritten content \<Longrightarrow>
      touches [p, q] fs fs' \<and> artifact_ok (snapshot_content env snap quality) ok ar q fs'" for what content
    using finalize_spec(1)[of env what p q "fs_write p content fs"] touches_write[of p "[p, q]" fs content]
      finalize_artifact[of env what p q "fs_write p content fs" ok ar fs' "snapshot_content env snap quality"] touches_trans
    by (auto simp: lookup_write snapshot_content_def)
  show "touches [p, q] fs fs'" "artifact_ok (snapshot_content env snap quality) ok ar q fs'"
    using assms f by (auto simp: writeSnapshot_def touches_leave artifact_ok_def artifact_failed_def
        split: if_splits jpeg_result.splits)
qed

lemma push_units_prefix:
  "\<exists>sent. snd (mux_push_units mx base us sent_before) = sent_before @ sent \<and> prefix sent (map (mux_buffer_of base) us)
     \<and> (fst (mux_push_units mx base us sent_before) = None \<longrightarrow> sent = map (mux_buffer_of base) us)"
proof (induction us arbitrary: sent_before)
  case (Cons u us)
  show ?case
  proof (cases "mx_alloc mx (unit_bytes u) \<and> mx_push mx (mux_buffer_of base u) = None")
    case True
    then show ?thesis using Cons.IH[of "sent_before @ [mux_buffer_of base u]"] by auto
  qed (auto split: option.splits)
qed simp

lemma mux_run_spec:
  assumes "mux_run env (units job) p q fs = ((ok, ar), fs')" "lookup fs p = None"
  shows "touches [p, q] fs fs'" "artifact_ok (clip_content env job) ok ar q fs'" "ok \<or> ar_status ar = ''failed''"
proof -
  obtain e buffers where push: "mux_push_units (we_mux env) (sensor_timestamp_ns (hd (units job))) (units job) [] = (e, buffers)" by force
  let ?fs = "leave_file p (mx_file (we_mux env) buffers) fs"
  have t: "touches [p, q] fs ?fs" by (rule touches_leave) simp
  have all: "e = None \<Longrightarrow> buffers = clip_buffers job"
    using push_units_prefix[of "we_mux env" "sensor_timestamp_ns (hd (units job))" "units job" "[]"] push
    by (auto simp: clip_buffers_def)
  have l: "e = None \<Longrightarrow> lookup ?fs p = None \<or> (\<exists>c. lookup ?fs p = Some (File c) \<and> clip_content env job c)"
    using assms(2) all by (auto simp: leave_file_def lookup_write clip_content_def split: option.splits)
  have f: "e = None \<Longrightarrow> finalize env what p q ?fs = ((ok, ar), fs') \<Longrightarrow>
      touches [p, q] fs fs' \<and> artifact_ok (clip_content env job) ok ar q fs' \<and> (ok \<or> ar_status ar = ''failed'')" for what
    using finalize_spec[of env what p q ?fs] finalize_artifact[OF _ l] touches_trans[OF t] by (metis (full_types))
  have "mux_outcome (we_mux env) e = None \<Longrightarrow> e = None" by (cases e) (auto simp: mux_outcome_def)
  then show "touches [p, q] fs fs'" "artifact_ok (clip_content env job) ok ar q fs'" "ok \<or> ar_status ar = ''failed''"
    using assms(1) f t
    by (cases "mux_outcome (we_mux env) e"; auto simp: mux_run_def push Let_def artifact_ok_def artifact_failed_def)+
qed

lemma muxVideo_spec:
  assumes "muxVideo env job config p q fs = ((ok, ar), fs')" "lookup fs p = None"
  shows "touches [p, q] fs fs'" "artifact_ok (clip_content env job) ok ar q fs'"
    "if units job = [] then \<not> ok else ok \<or> ar_status ar = ''failed''"
proof -
  consider "muxVideo env job config p q fs = mux_run env (units job) p q fs" "units job \<noteq> []"
    | "fs' = fs" "\<not> ok" "ar_status ar \<noteq> ''complete''" "units job \<noteq> [] \<longrightarrow> ar_status ar = ''failed''"
    using assms(1)
    by (cases "units job") (auto simp: muxVideo_def artifact_failed_def artifact_initial_def split: option.splits if_splits)
  then have "touches [p, q] fs fs' \<and> artifact_ok (clip_content env job) ok ar q fs'
      \<and> (if units job = [] then \<not> ok else ok \<or> ar_status ar = ''failed'')"
  proof cases
    case 1
    then have "mux_run env (units job) p q fs = ((ok, ar), fs')" using assms(1) by simp
    then show ?thesis using mux_run_spec[OF _ assms(2)] 1(2) by (metis (no_types))
  qed (auto simp: artifact_ok_def)
  then show "touches [p, q] fs fs'" "artifact_ok (clip_content env job) ok ar q fs'"
    "if units job = [] then \<not> ok else ok \<or> ar_status ar = ''failed''" by blast+
qed

definition metadata_of :: "writer_env \<Rightarrow> detection event_job \<Rightarrow> app_config \<Rightarrow> artifact_result \<Rightarrow> artifact_result \<Rightarrow> string list \<Rightarrow> string option" where
  "metadata_of env job config snap video errs =
     do {
       pre_ms \<leftarrow> milliseconds_of (cfg_event_pre_seconds config);
       post_ms \<leftarrow> milliseconds_of (cfg_event_post_seconds config);
       Some (metadata_text (metadata_fields env job config snap video errs pre_ms post_ms))
     }"

lemma writeMetadata_spec:
  assumes "writeMetadata env job config snap video errs p fs = Some (written, fs')"
  shows "touches [p] fs fs'"
    and "written \<Longrightarrow> \<exists>content. metadata_of env job config snap video errs = Some content \<and> lookup fs' p = Some (File content)"
  using assms by (auto simp: writeMetadata_def metadata_of_def touches_write lookup_write Let_def split: if_splits option.splits)

lemma child_names [simp]:
  "prefix (d @ [a]) (d @ [b]) \<longleftrightarrow> a = b" "\<not> prefix (d @ [a]) d"
  by auto

lemma publish_spec:
  assumes "publish env d f m fs = (m', fs')"
  shows "m' = event_failed m \<and> touches [d] fs fs'
      \<and> (\<not> prefix d f \<longrightarrow> \<not> prefix f d \<longrightarrow> (\<forall>zs. lookup fs' (f @ zs) = lookup fs (f @ zs)))
    \<or> m' = bump (Ev events_completed) m \<and> touches [d, f] fs fs' \<and> lookup fs' f = lookup fs d \<and> lookup fs' d = None
      \<and> lookup fs' (metadata_final f) = lookup fs (metadata_partial d) \<and> lookup fs' (metadata_partial f) = None
      \<and> (\<forall>a. a \<noteq> ''metadata.json'' \<longrightarrow> a \<noteq> ''metadata.partial.json'' \<longrightarrow> lookup fs' (f @ [a]) = lookup fs (d @ [a]))"
proof -
  let ?a = "metadata_partial d" and ?b = "metadata_final d"
  obtain e fs1 where r1: "do_rename env ?a ?b fs = (e, fs1)" by force
  have t1: "touches [?a, ?b] fs fs1" using touches_rename[OF r1, of "[?a, ?b]"] by simp
  then have td: "touches [d] fs fs1" by (rule touches_below) (auto simp: metadata_partial_def metadata_final_def)
  have far: "lookup fs1 (f @ zs) = lookup fs (f @ zs)" if "\<not> prefix d f" "\<not> prefix f d" for zs
    using touchesD[OF td, of "f @ zs"] that prefix_same_cases[of d "f @ zs" f] by auto
  show ?thesis
  proof (cases e)
    case (Some what)
    then show ?thesis using assms td far by (auto simp: publish_def r1)
  next
    case None
    obtain e2 fs2 where r2: "do_rename env d f fs1 = (e2, fs2)" by force
    show ?thesis
    proof (cases e2)
      case (Some what)
      then have "fs2 = fs1" using rename_cases[OF r2] by auto
      then show ?thesis using assms td far by (auto simp: publish_def r1 r2 None Some)
    next
      case moved: None
      note r2' = r2[unfolded moved] and r1' = r1[unfolded None]
      have m: "m' = bump (Ev events_completed) m" "fs' = fs2" using assms by (simp_all add: publish_def r1 r2 None moved)
      have t: "touches [d, f] fs fs2"
        using touches_trans[OF touches_mono[OF td, of "[d, f]"] touches_rename[OF r2, of "[d, f]"]] by simp
      have d: "lookup fs1 d = lookup fs d" using touchesD[OF t1, of d] by (simp add: metadata_partial_def metadata_final_def)
      have "lookup fs2 (f @ [a]) = lookup fs (d @ [a])" if "a \<noteq> ''metadata.json''" "a \<noteq> ''metadata.partial.json''" for a
        using touchesD[OF t1, of "d @ [a]"] rename_moved(1)[OF r2', of "[a]"] that
        by (simp add: metadata_partial_def metadata_final_def)
      moreover have "lookup fs2 (metadata_final f) = lookup fs ?a" "lookup fs2 (metadata_partial f) = None"
        using rename_moved(1)[OF r2', of "[''metadata.json'']"] rename_moved(1)[OF r2', of "[''metadata.partial.json'']"]
          rename_moved(1,2)[OF r1', of "[]"] by (simp_all add: metadata_partial_def metadata_final_def)
      ultimately show ?thesis using m t d rename_moved(1,2)[OF r2', of "[]"] by simp
    qed
  qed
qed

section \<open>Publication\<close>

definition published :: "writer_env \<Rightarrow> app_config \<Rightarrow> detection event_job \<Rightarrow> path \<Rightarrow> file_system \<Rightarrow> bool" where
  "published env config job f fs \<longleftrightarrow>
     lookup fs f = Some Directory \<and> lookup fs (metadata_partial f) = None
     \<and> (\<exists>snap video errs content. metadata_of env job config snap video errs = Some content
          \<and> lookup fs (metadata_final f) = Some (File content)
          \<and> (ar_status snap = ''complete'' \<or> ar_status video = ''complete'') \<and> ar_status video \<noteq> ''failed''
          \<and> (ar_status snap = ''complete'' \<longrightarrow> (\<exists>c. lookup fs (snapshot_final f) = Some (File c)
                \<and> snapshot_content env (snapshot job) (cfg_event_jpeg_quality config) c))
          \<and> (ar_status video = ''complete'' \<longrightarrow> (\<exists>c. lookup fs (clip_final config f) = Some (File c) \<and> clip_content env job c))
          \<and> (ar_status video = ''complete'' \<longleftrightarrow> units job \<noteq> []))"

lemma after_metrics:
  "after_snapshot r m errs = (m', errs') \<Longrightarrow> m' (Ev events_completed) = m (Ev events_completed) \<and> m' (Ev events_failed) = m (Ev events_failed)"
  "after_video r m errs = (m', errs') \<Longrightarrow> m' (Ev events_completed) = m (Ev events_completed) \<and> m' (Ev events_failed) = m (Ev events_failed)"
  by (auto simp: after_snapshot_def after_video_def split: prod.splits if_splits)

text \<open>The two ways a job can end, for the directory \<open>d\<close> it is built in and its final name \<open>f\<close>.\<close>

definition event_outcome :: "writer_env \<Rightarrow> app_config \<Rightarrow> detection event_job \<Rightarrow> path \<Rightarrow> path \<Rightarrow> metrics \<Rightarrow> file_system
     \<Rightarrow> metrics \<Rightarrow> file_system \<Rightarrow> bool" where
  "event_outcome env config job d f m fs m' fs' \<longleftrightarrow>
     (if m' (Ev events_completed) = m (Ev events_completed) + 1
      then m' (Ev events_failed) = m (Ev events_failed) \<and> touches [d, f] fs fs' \<and> lookup fs' d = None
           \<and> published env config job f fs'
      else m' (Ev events_completed) = m (Ev events_completed) \<and> m' (Ev events_failed) = m (Ev events_failed) + 1
           \<and> touches [d] fs fs' \<and> (\<forall>zs. lookup fs' (f @ zs) = lookup fs (f @ zs)))"

lemma child_of_far:
  "\<not> prefix d f \<Longrightarrow> \<not> prefix f d \<Longrightarrow> touches [d] fs fs' \<Longrightarrow> lookup fs' (f @ zs) = lookup fs (f @ zs)"
  using prefix_same_cases[of d "f @ zs" f] by (auto intro: touchesD)

lemma clip_names:
  "clip_partial config d = d @ [''clip.partial'' @ extension config]" "clip_final config d = d @ [''clip'' @ extension config]"
  "''clip.partial'' @ extension config \<noteq> ''clip'' @ extension config"
  by (simp_all add: clip_partial_def clip_final_def extension_def)

lemma write_artifacts_spec:
  assumes run: "write_artifacts env config job d f m fs = Some (m', fs')"
    and dir: "lookup fs d = Some Directory" and fresh: "lookup fs (clip_partial config d) = None"
    and far: "\<not> prefix d f" "\<not> prefix f d"
  shows "event_outcome env config job d f m fs m' fs'"
proof -
  let ?sp = "snapshot_partial d" and ?sf = "snapshot_final d" and ?cp = "clip_partial config d" and ?cf = "clip_final config d"
    and ?mp = "metadata_partial d"
  obtain sok snap fs1 where sn: "writeSnapshot env (snapshot job) ?sp ?sf (cfg_event_jpeg_quality config) fs = ((sok, snap), fs1)"
    by (metis prod.exhaust)
  obtain m1 errs1 where as: "after_snapshot (sok, snap) m (errors job) = (m1, errs1)" by force
  obtain vok video fs2 where mx: "muxVideo env job config ?cp ?cf fs1 = ((vok, video), fs2)" by (metis prod.exhaust)
  obtain m2 errs2 where av: "after_video (vok, video) m1 errs1 = (m2, errs2)" by force
  have rest: "do { (written, fs3) \<leftarrow> writeMetadata env job config snap video errs2 ?mp fs2;
           Some (if \<not> written then (event_failed m2, fs3)
                 else if \<not> vok \<and> ar_status video = ''failed'' \<or> \<not> sok \<and> \<not> vok then (event_failed m2, fs3)
                 else publish env d f m2 fs3) } = Some (m', fs')"
    using run by (simp add: write_artifacts_def sn as mx av)
  then obtain written fs3 where md: "writeMetadata env job config snap video errs2 ?mp fs2 = Some (written, fs3)"
    by (auto split: bind_splits)
  have keep: "m2 (Ev events_completed) = m (Ev events_completed)" "m2 (Ev events_failed) = m (Ev events_failed)"
    using after_metrics(1)[OF as] after_metrics(2)[OF av] by simp_all
  have names: "x \<noteq> y \<Longrightarrow> \<not> prefix (d @ [x]) (d @ [y])" for x y by simp
  have t1: "touches [?sp, ?sf] fs fs1" "artifact_ok (snapshot_content env (snapshot job) (cfg_event_jpeg_quality config)) sok snap ?sf fs1"
    using writeSnapshot_spec[OF sn] by simp_all
  have "lookup fs1 ?cp = None"
    using touchesD[OF t1(1), of ?cp] fresh by (simp add: clip_names snapshot_partial_def snapshot_final_def extension_def)
  from muxVideo_spec[OF mx this] have t2: "touches [?cp, ?cf] fs1 fs2" "artifact_ok (clip_content env job) vok video ?cf fs2"
    "if units job = [] then \<not> vok else vok \<or> ar_status video = ''failed''" by blast+
  have t3: "touches [?mp] fs2 fs3" using writeMetadata_spec(1)[OF md] .
  have below: "touches [d] fs fs1" "touches [d] fs1 fs2" "touches [d] fs2 fs3"
    using touches_below[OF t1(1), of d] touches_below[OF t2(1), of d] touches_below[OF t3, of d]
    by (simp_all add: clip_names snapshot_partial_def snapshot_final_def metadata_partial_def)
  have all: "touches [d] fs fs3" using touches_trans[OF touches_trans[OF below(1,2)] below(3)] .
  have kept: "lookup fs3 ?sf = lookup fs1 ?sf" "lookup fs3 ?cf = lookup fs2 ?cf" "lookup fs3 d = Some Directory"
    using touchesD[OF t2(1), of ?sf] touchesD[OF t3, of ?sf] touchesD[OF t3, of ?cf]
      touchesD[OF t1(1), of d] touchesD[OF t2(1), of d] touchesD[OF t3, of d] dir
    by (simp_all add: clip_names snapshot_partial_def snapshot_final_def metadata_partial_def extension_def)
  show ?thesis
  proof (cases "\<not> written \<or> (\<not> vok \<and> ar_status video = ''failed'' \<or> \<not> sok \<and> \<not> vok)")
    case True
    then have "m' = event_failed m2" "fs' = fs3" using rest md by (auto split: if_splits)
    then show ?thesis using keep all child_of_far[OF far all] by (simp add: event_outcome_def)
  next
    case False
    then have pub: "publish env d f m2 fs3 = (m', fs')" using rest md by auto
    obtain content where content: "metadata_of env job config snap video errs2 = Some content" "lookup fs3 ?mp = Some (File content)"
      using writeMetadata_spec(2)[OF md] False by auto
    from publish_spec[OF pub] show ?thesis
    proof (elim disjE conjE)
      assume "m' = event_failed m2" and t: "touches [d] fs3 fs'"
      moreover have tt: "touches [d] fs fs'" using touches_trans[OF all t] .
      ultimately show ?thesis using keep child_of_far[OF far tt] by (simp add: event_outcome_def)
    next
      assume m': "m' = bump (Ev events_completed) m2" and t: "touches [d, f] fs3 fs'" and moved: "lookup fs' f = lookup fs3 d"
        "lookup fs' d = None" "lookup fs' (metadata_final f) = lookup fs3 ?mp" "lookup fs' (metadata_partial f) = None"
        and others: "\<forall>a. a \<noteq> ''metadata.json'' \<longrightarrow> a \<noteq> ''metadata.partial.json'' \<longrightarrow> lookup fs' (f @ [a]) = lookup fs3 (d @ [a])"
      have files: "lookup fs' (snapshot_final f) = lookup fs1 ?sf" "lookup fs' (clip_final config f) = lookup fs2 ?cf"
        using others[rule_format, of "''snapshot.jpg''"] others[rule_format, of "''clip'' @ extension config"] kept
        by (simp_all add: snapshot_final_def clip_names extension_def)
      have status: "sok \<longleftrightarrow> ar_status snap = ''complete''" "vok \<longleftrightarrow> ar_status video = ''complete''"
        and stored: "sok \<longrightarrow> (\<exists>c. lookup fs1 ?sf = Some (File c) \<and> snapshot_content env (snapshot job) (cfg_event_jpeg_quality config) c)"
          "vok \<longrightarrow> (\<exists>c. lookup fs2 ?cf = Some (File c) \<and> clip_content env job c)"
        using t1(2) t2(2) unfolding artifact_ok_def by blast+
      have one: "sok \<or> vok" and video: "ar_status video \<noteq> ''failed''" using False status(2) by auto
      have clip: "vok \<longleftrightarrow> units job \<noteq> []" using t2(3) video by presburger
      have "published env config job f fs'" unfolding published_def files
        by (rule conjI, simp only: moved kept(3), rule conjI, simp only: moved)
          (rule exI[of _ snap], rule exI[of _ video], rule exI[of _ errs2], rule exI[of _ content],
            simp only: moved content status[symmetric] clip one[unfolded clip] video simp_thms,
            use stored clip in blast)
      moreover have "touches [d, f] fs fs'" using touches_trans[OF touches_mono[OF all, of "[d, f]"] t] by simp
      ultimately show ?thesis using m' keep moved(2) by (simp add: event_outcome_def)
    qed
  qed
qed

text \<open>Nothing lies below a directory that does not exist.\<close>

definition tree_ok :: "file_system \<Rightarrow> bool" where
  "tree_ok fs \<longleftrightarrow> list_all (\<lambda>(p, n). length p \<le> 1 \<or> lookup fs (butlast p) = Some Directory) fs"

lemma tree_ok_child: "tree_ok fs \<Longrightarrow> lookup fs d = None \<Longrightarrow> d \<noteq> [] \<Longrightarrow> lookup fs (d @ [a]) = None"
proof (rule ccontr)
  assume t: "tree_ok fs" "lookup fs d = None" "d \<noteq> []" "lookup fs (d @ [a]) \<noteq> None"
  then obtain n where "(d @ [a], n) \<in> set fs" by (auto dest: map_of_SomeD)
  then show False using t by (auto simp: tree_ok_def list_all_iff)
qed

lemma ancestors_iff: "x \<in> set (ancestors p) \<longleftrightarrow> x \<noteq> [] \<and> prefix x p"
proof
  assume "x \<noteq> [] \<and> prefix x p"
  then have "x = take (length x) p" "1 \<le> length x" "length x \<le> length p"
    by (auto simp: prefix_def Suc_le_eq)
  then show "x \<in> set (ancestors p)" unfolding ancestors_def
    by (metis atLeastLessThan_iff image_eqI less_add_one order.strict_trans1 set_map set_upt)
qed (auto simp: ancestors_def take_is_prefix)

lemma lookup_create_directories:
  "fs_create_directories p fs = (e, fs') \<Longrightarrow> x \<notin> set (ancestors p) \<Longrightarrow> lookup fs' x = lookup fs x"
  by (auto simp: fs_create_directories_def map_add_def split: if_splits option.split dest!: map_of_SomeD)

lemma event_directories:
  "partial_name i \<noteq> i" "\<not> prefix (d @ [partial_name i]) (d @ [i])" "\<not> prefix (d @ [i]) (d @ [partial_name i])"
proof -
  have "length (partial_name i) \<noteq> length i" by (simp add: partial_name_def)
  then show ne: "partial_name i \<noteq> i" by metis
  show "\<not> prefix (d @ [partial_name i]) (d @ [i])" "\<not> prefix (d @ [i]) (d @ [partial_name i])" using ne by auto
qed

lemma writeEvent_outcome:
  fixes env config and job :: "detection event_job"
  defines "date \<equiv> date_dir_of env config job"
  defines "d \<equiv> date @ [partial_name (job_id job)]" and "f \<equiv> date @ [job_id job]"
  assumes run: "writeEvent env config job m fs = Some (m', fs')" and tree: "tree_ok fs"
  shows "(if m' (Ev events_completed) = m (Ev events_completed) + 1
      then m' (Ev events_failed) = m (Ev events_failed) \<and> lookup fs f = None
           \<and> lookup fs' d = None \<and> published env config job f fs'
      else m' (Ev events_completed) = m (Ev events_completed) \<and> m' (Ev events_failed) = m (Ev events_failed) + 1
           \<and> (\<forall>zs. lookup fs' (f @ zs) = lookup fs (f @ zs)))
    \<and> (\<forall>x. x \<notin> set (ancestors date) \<and> \<not> prefix d x \<and> \<not> prefix f x \<longrightarrow> lookup fs' x = lookup fs x)"
proof -
  obtain e fs1 where cd: "guarded env (CreateDirectories date) (fs_create_directories date fs) fs = (e, fs1)" by force
  have t1: "x \<notin> set (ancestors date) \<Longrightarrow> lookup fs1 x = lookup fs x" for x
    using cd lookup_create_directories[of date fs e fs1 x] by (auto simp: guarded_def split: option.splits)
  have below: "f @ zs \<notin> set (ancestors date)" "d @ zs \<notin> set (ancestors date)" for zs
    by (auto simp: ancestors_iff f_def d_def prefix_def)
  have failed: ?thesis if "m' = event_failed m" "fs' = fs1"
    using that t1 below by simp
  note names = event_directories(2,3)[of date "job_id job", folded d_def f_def]
  have start: "writeEvent env config job m fs =
     (if e \<noteq> None then Some (event_failed m, fs1)
      else do {
        stale \<leftarrow> fs_exists env d fs1;
        if stale then Some (event_failed m, fs1)
        else do {
          taken \<leftarrow> fs_exists env f fs1;
          if taken then Some (event_failed m, fs1)
          else case (case we_fault env (CreateDirectory d) of Some e \<Rightarrow> ((False, Some e), fs1) | None \<Rightarrow> fs_create_directory d fs1) of
                 ((created, e), fs2) \<Rightarrow> if \<not> created then Some (event_failed m, fs2) else write_artifacts env config job d f m fs2
        } })"
    unfolding writeEvent_def Let_def date_def[symmetric]
    unfolding d_def[symmetric] f_def[symmetric] cd prod.case by (rule refl)
  show ?thesis
  proof (cases "e \<noteq> None \<or> fs_exists env d fs1 = Some True \<or> fs_exists env f fs1 = Some True")
    case True
    then show ?thesis using run start failed by (auto split: bind_splits if_splits prod.splits)
  next
    case False
    then have ex: "e = None" "fs_exists env d fs1 = Some False" "fs_exists env f fs1 = Some False"
      using run start by (auto split: bind_splits if_splits)
    then have absent: "lookup fs1 d = None" "lookup fs1 f = None" by (auto simp: fs_exists_def split: if_splits)
    obtain created e2 fs2 where mk: "(case we_fault env (CreateDirectory d) of Some e \<Rightarrow> ((False, Some e), fs1)
        | None \<Rightarrow> fs_create_directory d fs1) = ((created, e2), fs2)" by (metis prod.exhaust)
    show ?thesis
    proof (cases created)
      case False
      then have "fs2 = fs1" using mk by (auto simp: fs_create_directory_def split: option.splits node.splits if_splits)
      then show ?thesis using run start ex mk False failed by auto
    next
      case True
      then have fs2: "fs2 = (d, Directory) # fs1"
        using mk by (auto simp: fs_create_directory_def split: option.splits node.splits if_splits)
      have wa: "write_artifacts env config job d f m fs2 = Some (m', fs')" using run start ex mk True by simp
      have "lookup fs (d @ [a]) = None" for a
        using tree_ok_child[OF tree, of d a] absent(1) t1[of d] below(2)[of "[]"] by (simp add: d_def)
      then have "lookup fs2 (clip_partial config d) = None"
        using t1[OF below(2)] by (simp add: fs2 clip_names)
      from write_artifacts_spec[OF wa _ this names] have out: "event_outcome env config job d f m fs2 m' fs'"
        by (simp add: fs2)
      have same2: "lookup fs2 x = lookup fs1 x" if "x \<noteq> d" for x using that by (simp add: fs2)
      have f2: "lookup fs2 (f @ zs) = lookup fs (f @ zs)" for zs
        using same2[of "f @ zs"] t1[OF below(1)] names(2) by (metis prefixI)
      have rest: "lookup fs' x = lookup fs x" if "x \<notin> set (ancestors date)" "\<not> prefix d x" "\<not> prefix f x" for x
      proof -
        have "lookup fs' x = lookup fs2 x"
          using out that by (auto simp: event_outcome_def intro: touchesD split: if_splits)
        then show ?thesis using same2[of x] t1[OF that(1)] that(2) by auto
      qed
      show ?thesis using out f2 rest absent(2) t1[OF below(1), of "[]"] by (auto simp: event_outcome_def split: if_splits)
    qed
  qed
qed


definition sample_writer :: writer_env where
  "sample_writer =
     \<lparr>we_fault = (\<lambda>c. None), we_strftime = (\<lambda>fmt t. ''2026''), we_jpeg = (\<lambda>snap q. JpegWritten ''JPEG''),
      we_mux = \<lparr>mx_launch = (\<lambda>d. None), mx_elements = True, mx_playing = True, mx_alloc = (\<lambda>b. True), mx_push = (\<lambda>b. None),
                mx_eos = True, mx_wait = MuxEos, mx_file = (\<lambda>bs. Some ''MP4'')\<rparr>,
      we_torn = (\<lambda>t. [])\<rparr>"

definition sample_job :: "detection event_job" where
  "sample_job =
     \<lparr>job_id = ''e1'', wall_time = 0, trigger_sequence = 7, trigger_ts = 100, requested_start_ts = 0, requested_end_ts = 200,
      actual_start_ts = 0, actual_end_ts = 100, job_generation = 1, job_pre_roll_complete = False, post_roll_complete = False,
      snapshot = \<lparr>snap_width = 2, snap_height = 2, snap_sequence = 7, snap_sensor_timestamp_ns = 100, snap_i420 = [1, 2, 3, 4, 5, 6]\<rparr>,
      detections = sample_detections, units = [], errors = [no_preroll_error]\<rparr>"

definition sample_event_config :: app_config where
  "sample_event_config = default_config\<lparr>cfg_events_dir := ''/ev'', cfg_event_pre_seconds := Fin 1, cfg_event_post_seconds := Fin 1\<rparr>"

lemma sample_milliseconds: "milliseconds_of (Fin 1) = Some 1000"
  by code_simp

lemma sample_components: "components ''/ev'' = [''ev'']"
  by simp

lemma sample_date_dir: "date_dir_of sample_writer sample_event_config sample_job = [''ev'', ''2026'']"
  by (simp add: date_dir_of_def sample_event_config_def sample_writer_def formatDate_def)

lemma sample_artifacts:
  "\<exists>m' fs'. write_artifacts sample_writer sample_event_config sample_job [''ev'', ''2026'', ''.e1.partial''] [''ev'', ''2026'', ''e1''] m
      [([''ev'', ''2026'', ''.e1.partial''], Directory), ([''ev''], Directory), ([''ev'', ''2026''], Directory)] = Some (m', fs')
    \<and> m' (Ev events_completed) = m (Ev events_completed) + 1"
  by (simp add: write_artifacts_def writeSnapshot_def finalize_def muxVideo_def writeMetadata_def publish_def after_snapshot_def
      after_video_def do_rename_def guarded_def fs_rename_def fs_move_def fs_write_def sample_writer_def sample_job_def
      sample_event_config_def sample_milliseconds artifact_initial_def snapshot_partial_def snapshot_final_def
      metadata_partial_def metadata_final_def Let_def)

lemma sample_written:
  "\<exists>m' fs'. writeEvent sample_writer sample_event_config sample_job metrics_init [] = Some (m', fs')
    \<and> m' (Ev events_completed) = 1"
proof -
  have cd: "guarded sample_writer (CreateDirectories [''ev'', ''2026'']) (fs_create_directories [''ev'', ''2026''] []) []
      = (None, [([''ev''], Directory), ([''ev'', ''2026''], Directory)])"
    by (simp add: guarded_def sample_writer_def fs_create_directories_def ancestors_def is_file_def numeral_2_eq_2)
  have none: "we_fault sample_writer c = None" for c by (simp add: sample_writer_def)
  have i: "job_id sample_job = ''e1''" "partial_name ''e1'' = ''.e1.partial''" by (simp_all add: sample_job_def partial_name_def)
  have "writeEvent sample_writer sample_event_config sample_job metrics_init [] =
      write_artifacts sample_writer sample_event_config sample_job [''ev'', ''2026'', ''.e1.partial''] [''ev'', ''2026'', ''e1''] metrics_init
      [([''ev'', ''2026'', ''.e1.partial''], Directory), ([''ev''], Directory), ([''ev'', ''2026''], Directory)]"
    unfolding writeEvent_def sample_date_dir Let_def i cd
    by (simp add: fs_exists_def none fs_create_directory_def)
  then show ?thesis using sample_artifacts[of metrics_init] by (simp add: metrics_init_def)
qed


section \<open>The clip's time line\<close>


definition sample_units :: "access_unit list" where
  "sample_units =
     [\<lparr>sensor_timestamp_ns = 100, pts_ns = 0, dts_ns = 0, duration_ns = 33, generation = 1, keyframe = True, has_sps = True,
       has_pps = True, payload = Some [1]\<rparr>,
      \<lparr>sensor_timestamp_ns = 133, pts_ns = 33, dts_ns = 33, duration_ns = 33, generation = 1, keyframe = False, has_sps = False,
       has_pps = False, payload = Some [2]\<rparr>]"


end
