(* ===== verification/Application.thy ===== *)
theory Application
  imports App_Config Event_Writer
begin

text \<open>
  \<open>main\<close> (\<open>app/main.cpp\<close>): construction, initialisation and start of the components, the supervision loop
  with the recovery of the encoder and the metrics report, the shutdown and the exit code. The
  components themselves are the subject of the other theories; here a call of one of them is recorded
  in a trace and answered by the environment: it returns a truth value or throws. The steady clock is
  the number of nanoseconds since \<open>started\<close>.
\<close>

section \<open>Calls\<close>

datatype component = RtspServer | H264Encoder | EventRecorder | InferenceWorker | CameraCapture

datatype call =
    Initialize component | Start component | Stop component | Destroy component
  | WaitForIndependentFrame | ClearHistory

datatype call_result = Returns bool | Throws string

datatype calls_end = AllTrue | SomeFalse | Threw string

text \<open>A chain of calls joined by \<open>||\<close> on their negations: it stops at the first that fails.\<close>

fun run_calls :: "(call \<Rightarrow> call_result) \<Rightarrow> call list \<Rightarrow> call list \<times> calls_end" where
  "run_calls answer [] = ([], AllTrue)"
| "run_calls answer (c # cs) =
     (case answer c of
        Returns True \<Rightarrow> (let (made, e) = run_calls answer cs in (c # made, e))
      | Returns False \<Rightarrow> ([c], SomeFalse)
      | Throws what \<Rightarrow> ([c], Threw what))"

definition initialize_calls :: "call list" where
  "initialize_calls = [Initialize EventRecorder, Initialize InferenceWorker, Initialize H264Encoder, Initialize CameraCapture]"

definition start_calls :: "call list" where
  "start_calls = [Start EventRecorder, Start H264Encoder, Start InferenceWorker, Start CameraCapture,
                  WaitForIndependentFrame, Start RtspServer]"

definition stop_calls :: "call list" where
  "stop_calls = [Stop CameraCapture, Stop InferenceWorker, Stop H264Encoder, Stop EventRecorder, Stop RtspServer]"

definition recovery_calls :: "call list" where
  "recovery_calls = [Initialize H264Encoder, Start H264Encoder, WaitForIndependentFrame]"

text \<open>Destructors run in the reverse order of construction.\<close>

definition destroy_calls :: "call list" where
  "destroy_calls = [Destroy CameraCapture, Destroy InferenceWorker, Destroy EventRecorder, Destroy H264Encoder, Destroy RtspServer]"

section \<open>The metrics report\<close>

definition show_fixed2 :: "fval \<Rightarrow> string" where
  "show_fixed2 x =
     (case x of
        FNaN \<Rightarrow> ''nan''
      | FInf negative \<Rightarrow> (if negative then ''-inf'' else ''inf'')
      | Fin q \<Rightarrow>
          let n = nat (round_even (\<bar>q\<bar> * 100)); cents = show_nat (n mod 100)
          in (if q < 0 then ''-'' else []) @ show_nat (n div 100) @ ''.'' @ (if length cents = 1 then ''0'' @ cents else cents))"

definition double_of_u64 :: "u64 \<Rightarrow> fval" where
  "double_of_u64 w = fround binary64 (of_nat (unat w))"

definition rate :: "u64 \<Rightarrow> u64 \<Rightarrow> fval \<Rightarrow> string" where
  "rate current previous seconds = show_fixed2 (fdiv binary64 (double_of_u64 (current - previous)) seconds)"

definition average_ms :: "u64 \<Rightarrow> u64 \<Rightarrow> string" where
  "average_ms total_us n =
     show_fixed2 (if n = 0 then Fin 0
                  else fdiv binary64 (fdiv binary64 (double_of_u64 total_us) (Fin 1000)) (double_of_u64 n))"

record app_loop =
  last_report :: nat
  last_capture :: u64
  last_rtsp :: u64
  last_inference :: u64
  loop_trace :: "call list"
  loop_reports :: "string list"
  loop_recoveries :: nat
  loop_recovery_failures :: nat

definition counter_fields :: "(string \<times> counter) list" where
  "counter_fields =
     [(''outstanding_leases'', Cap outstanding_leases), (''outstanding_leases_peak'', Cap outstanding_leases_peak),
      (''encoder_access_units'', Enc encoder_access_units), (''encoder_output_bytes'', Enc encoder_output_bytes),
      (''encoder_dropped'', Enc encoder_dropped), (''encoder_errors'', Enc encoder_errors),
      (''encoder_recoveries'', Enc encoder_recoveries), (''encoder_recovery_failures'', Enc encoder_recovery_failures),
      (''rtsp_dropped'', Rtsp rtsp_dropped), (''inference_dropped'', Inf inference_dropped)]"

definition inference_fields :: "(string \<times> counter) list" where
  "inference_fields =
     [(''inference_zero_copy_ingress'', Inf inference_zero_copy_ingress),
      (''inference_copy_fallback'', Inf inference_copy_fallback),
      (''inference_preprocess_errors'', Inf inference_preprocess_errors),
      (''inference_dma_sync_errors'', Inf inference_dma_sync_errors),
      (''inference_backend_errors'', Inf inference_backend_errors)]"

definition i420_fields :: "(string \<times> counter) list" where
  "i420_fields =
     [(''invalid_dimensions'', I420 inference_i420_invalid_dimensions),
      (''unexpected_plane_count'', I420 inference_i420_unexpected_plane_count),
      (''unexpected_stride'', I420 inference_i420_unexpected_stride), (''invalid_fd'', I420 inference_i420_invalid_fd),
      (''separate_fds'', I420 inference_i420_separate_fds), (''missing_mapping'', I420 inference_i420_missing_mapping),
      (''inconsistent_mapping'', I420 inference_i420_inconsistent_mapping),
      (''non_compact_offsets'', I420 inference_i420_non_compact_offsets),
      (''plane_too_short'', I420 inference_i420_plane_too_short),
      (''payload_too_short'', I420 inference_i420_payload_too_short),
      (''mapping_too_short'', I420 inference_i420_mapping_too_short)]"

definition service_fields :: "(string \<times> counter) list" where
  "service_fields =
     [(''capture_errors'', Cap capture_errors), (''rtsp_errors'', Rtsp rtsp_errors), (''rtsp_recoveries'', Rtsp rtsp_recoveries),
      (''rtsp_recovery_failures'', Rtsp rtsp_recovery_failures), (''rtsp_sessions_current'', Rtsp rtsp_sessions_current),
      (''rtsp_sessions_peak'', Rtsp rtsp_sessions_peak), (''rtsp_sessions_cleaned'', Rtsp rtsp_sessions_cleaned)]"

definition event_fields :: "(string \<times> counter) list" where
  "event_fields =
     [(''events_triggered'', Ev events_triggered), (''events_suppressed'', Ev events_suppressed),
      (''events_completed'', Ev events_completed), (''events_partial_preroll'', Ev events_partial_preroll),
      (''events_partial_postroll'', Ev events_partial_postroll), (''events_failed'', Ev events_failed),
      (''event_video_bytes'', Ev event_video_bytes), (''event_snapshot_bytes'', Ev event_snapshot_bytes),
      (''event_mux_errors'', Ev event_mux_errors), (''event_snapshot_errors'', Ev event_snapshot_errors),
      (''event_disk_space_rejections'', Ev event_disk_space_rejections)]"

definition report_field :: "string \<times> string \<Rightarrow> string" where
  "report_field f = quoted (fst f) @ '':'' @ snd f"

definition report_counters :: "metrics \<Rightarrow> (string \<times> counter) list \<Rightarrow> string list" where
  "report_counters m cs = map (\<lambda>(k, c). report_field (k, show_u64 (m c))) cs"

definition metrics_report :: "app_config \<Rightarrow> string \<Rightarrow> metrics \<Rightarrow> ring_stats \<Rightarrow> nat \<Rightarrow> app_loop \<Rightarrow> string" where
  "metrics_report config sha m ring now s =
     (let seconds = fdiv binary64 (fround binary64 (of_nat (now - last_report s))) (Fin 1000000000);
          inferred = m (Inf inference_processed)
      in ''{'' @ separated '',''
           ([report_field (''type'', quoted ''metrics''), report_field (''uptime_ms'', show_nat (now div 1000000)),
             report_field (''capture_fps'', rate (m (Cap captured)) (last_capture s) seconds),
             report_field (''rtsp_fps'', rate (m (Rtsp rtsp_pushed)) (last_rtsp s) seconds),
             report_field (''inference_fps'', rate inferred (last_inference s) seconds),
             report_field (''inference_avg_ms'', average_ms (m (Inf inference_total_us)) inferred),
             report_field (''inference_input_avg_ms'', average_ms (m (Inf inference_input_total_us)) inferred)]
            @ report_counters m counter_fields
            @ [report_field (''inference_backend'', quoted (cfg_inference_backend config)),
               report_field (''inference_model_sha256'', quoted sha)]
            @ report_counters m inference_fields
            @ [report_field (''inference_i420_rejections'', ''{'' @ separated '','' (report_counters m i420_fields) @ ''}'')]
            @ report_counters m service_fields
            @ [report_field (''encoded_ring_units'', show_nat (stat_units ring)),
               report_field (''encoded_ring_bytes'', show_u64 (stat_bytes ring)),
               report_field (''encoded_ring_peak_bytes'', show_u64 (stat_peak_bytes ring)),
               report_field (''encoded_ring_resets'', show_u64 (stat_resets ring))]
            @ report_counters m event_fields)
         @ ''}'' @ newline)"

section \<open>Supervision\<close>

text \<open>What one turn of the loop observes: the flag of the signal handler, the components and the clock.\<close>

record tick =
  tk_exit :: bool
  tk_recovery :: bool
  tk_answer :: "call \<Rightarrow> call_result"
  tk_now :: nat
  tk_metrics :: metrics
  tk_ring :: ring_stats

datatype loop_end = LoopLeft | LoopFatal | LoopThrew string

definition recover_encoder :: "tick \<Rightarrow> app_loop \<Rightarrow> loop_end option \<times> app_loop" where
  "recover_encoder t s =
     (if \<not> tk_recovery t then (None, s)
      else
        let (made, e) = run_calls (tk_answer t) recovery_calls;
            s1 = s\<lparr>loop_trace := loop_trace s @ [Stop H264Encoder, ClearHistory] @ made\<rparr>
        in case e of
             AllTrue \<Rightarrow> (None, s1\<lparr>loop_recoveries := Suc (loop_recoveries s1)\<rparr>)
           | SomeFalse \<Rightarrow> (Some LoopFatal, s1\<lparr>loop_recovery_failures := Suc (loop_recovery_failures s1)\<rparr>)
           | Threw what \<Rightarrow> (Some (LoopThrew what), s1))"

definition second :: nat where "second = 1000000000"

definition report :: "app_config \<Rightarrow> string \<Rightarrow> tick \<Rightarrow> app_loop \<Rightarrow> app_loop" where
  "report config sha t s =
     (if tk_now t - last_report s < unat (cfg_metrics_interval_seconds config) * second then s
      else s\<lparr>loop_reports := loop_reports s @ [metrics_report config sha (tk_metrics t) (tk_ring t) (tk_now t) s],
             last_capture := tk_metrics t (Cap captured), last_rtsp := tk_metrics t (Rtsp rtsp_pushed),
             last_inference := tk_metrics t (Inf inference_processed), last_report := tk_now t\<rparr>)"

definition loop_body :: "app_config \<Rightarrow> string \<Rightarrow> tick \<Rightarrow> app_loop \<Rightarrow> loop_end option \<times> app_loop" where
  "loop_body config sha t s =
     (case recover_encoder t s of
        (Some e, s1) \<Rightarrow> (Some e, s1)
      | (None, s1) \<Rightarrow>
          if cfg_duration_seconds config > 0 \<and> tk_now t \<ge> unat (cfg_duration_seconds config) * second
          then (Some LoopLeft, s1)
          else (None, report config sha t s1))"

partial_function (option) main_loop :: "(nat \<Rightarrow> tick) \<Rightarrow> app_config \<Rightarrow> string \<Rightarrow> nat \<Rightarrow> app_loop \<Rightarrow> (loop_end \<times> app_loop) option" where
  "main_loop ticks config sha i s =
     (if tk_exit (ticks i) then Some (LoopLeft, s)
      else case loop_body config sha (ticks i) s of
             (Some e, s') \<Rightarrow> Some (e, s')
           | (None, s') \<Rightarrow> main_loop ticks config sha (Suc i) s')"

section \<open>The program\<close>

definition loop_start :: app_loop where
  "loop_start = \<lparr>last_report = 0, last_capture = 0, last_rtsp = 0, last_inference = 0, loop_trace = [], loop_reports = [],
                 loop_recoveries = 0, loop_recovery_failures = 0\<rparr>"

record app_run =
  run_trace :: "call list"
  run_exit :: int
  run_reports :: "string list"

text \<open>\<open>static_cast<std::uint64_t>(seconds * 1'000'000'000.0 + 0.5)\<close>; \<open>None\<close> where the conversion is undefined.\<close>

definition ring_retention_ns :: "app_config \<Rightarrow> u64 option" where
  "ring_retention_ns config =
     (case fadd binary64 (fmul binary64 (cfg_event_ring_seconds config) (Fin 1000000000)) (Fin (1 / 2)) of
        Fin q \<Rightarrow> if - 1 < q \<and> q < 2 ^ 64 then Some (of_int (max 0 \<lfloor>q\<rfloor>)) else None
      | _ \<Rightarrow> None)"

definition exit_code :: "loop_end \<Rightarrow> u64 \<Rightarrow> int" where
  "exit_code e outstanding =
     (case e of LoopFatal \<Rightarrow> 5 | LoopThrew what \<Rightarrow> 1 | LoopLeft \<Rightarrow> if outstanding = 0 then 0 else 4)"

definition finish_run :: "call list \<Rightarrow> int \<Rightarrow> string list \<Rightarrow> app_run option" where
  "finish_run made code reports = Some \<lparr>run_trace = made @ destroy_calls, run_exit = code, run_reports = reports\<rparr>"

definition supervise :: "(nat \<Rightarrow> tick) \<Rightarrow> app_config \<Rightarrow> string \<Rightarrow> u64 \<Rightarrow> call list \<Rightarrow> app_run option" where
  "supervise ticks config sha outstanding made =
     do {
       (e, s) \<leftarrow> main_loop ticks config sha 0 loop_start;
       finish_run (made @ loop_trace s @ (case e of LoopThrew what \<Rightarrow> [] | _ \<Rightarrow> stop_calls)) (exit_code e outstanding)
         (loop_reports s)
     }"

definition run_components :: "(call \<Rightarrow> call_result) \<Rightarrow> (nat \<Rightarrow> tick) \<Rightarrow> app_config \<Rightarrow> string \<Rightarrow> u64 \<Rightarrow> app_run option" where
  "run_components answer ticks config sha outstanding =
     (case run_calls answer initialize_calls of
        (made, Threw what) \<Rightarrow> finish_run made 1 []
      | (made, SomeFalse) \<Rightarrow> finish_run made 2 []
      | (made, AllTrue) \<Rightarrow>
          (case run_calls answer start_calls of
             (started, Threw what) \<Rightarrow> finish_run (made @ started) 1 []
           | (started, SomeFalse) \<Rightarrow> finish_run (made @ started @ stop_calls) 3 []
           | (started, AllTrue) \<Rightarrow> supervise ticks config sha outstanding (made @ started)))"

text \<open>The ring is constructed after the server and the encoder; its constructor can throw.\<close>

definition app_main :: "(call \<Rightarrow> call_result) \<Rightarrow> (nat \<Rightarrow> tick) \<Rightarrow> string \<Rightarrow> u64 \<Rightarrow> string list \<Rightarrow> app_run option" where
  "app_main answer ticks sha outstanding args =
     (case parseArguments args of
        ParseThrows what \<Rightarrow> Some \<lparr>run_trace = [], run_exit = 1, run_reports = []\<rparr>
      | ParseHelp \<Rightarrow> Some \<lparr>run_trace = [], run_exit = 0, run_reports = []\<rparr>
      | ParseOk config \<Rightarrow>
          (case ring_retention_ns config of
             None \<Rightarrow> None
           | Some retention \<Rightarrow>
               (case ring_new retention (cfg_event_ring_max_bytes config) of
                  Inl e \<Rightarrow> Some \<lparr>run_trace = [Destroy H264Encoder, Destroy RtspServer], run_exit = 1, run_reports = []\<rparr>
                | Inr ring \<Rightarrow> run_components answer ticks config sha outstanding)))"

section \<open>Chains of calls\<close>

definition all_true :: "(call \<Rightarrow> call_result) \<Rightarrow> call list \<Rightarrow> bool" where
  "all_true answer = list_all (\<lambda>c. answer c = Returns True)"

text \<open>The calls \<open>p\<close> are those of the chain \<open>cs\<close> up to and including the first that does not return true.\<close>

definition cut_short :: "(call \<Rightarrow> call_result) \<Rightarrow> call list \<Rightarrow> call list \<Rightarrow> call_result \<Rightarrow> bool" where
  "cut_short answer cs p r \<longleftrightarrow> p \<noteq> [] \<and> prefix p cs \<and> all_true answer (butlast p) \<and> answer (last p) = r"

lemma run_calls_spec:
  assumes "run_calls answer cs = (made, e)"
  shows "case e of
           AllTrue \<Rightarrow> made = cs \<and> all_true answer cs
         | SomeFalse \<Rightarrow> cut_short answer cs made (Returns False)
         | Threw what \<Rightarrow> cut_short answer cs made (Throws what)"
  using assms
proof (induction cs arbitrary: made)
  case Nil
  then show ?case by (auto simp: all_true_def)
next
  case (Cons c cs)
  show ?case
  proof (cases "answer c = Returns True")
    case True
    then obtain ms where "made = c # ms" "run_calls answer cs = (ms, e)" using Cons.prems by (auto split: prod.splits)
    then show ?thesis using Cons.IH[of ms] True by (auto simp: all_true_def cut_short_def split: calls_end.splits)
  next
    case False
    then show ?thesis using Cons.prems
      by (auto simp: cut_short_def all_true_def split: call_result.splits bool.splits)
  qed
qed

section \<open>The trace of the program\<close>

definition recovered :: "call list" where
  "recovered = [Stop H264Encoder, ClearHistory] @ recovery_calls"

text \<open>A recovery that was cut short by the call that failed.\<close>

definition failed_recovery :: "call list \<Rightarrow> bool" where
  "failed_recovery cs \<longleftrightarrow> (\<exists>p. cs = [Stop H264Encoder, ClearHistory] @ p \<and> p \<noteq> [] \<and> prefix p recovery_calls)"

text \<open>
  What the turns of the loop add to the trace: \<open>n\<close> complete recoveries and, when the loop ends because
  of one, a last one that failed; the counters agree.
\<close>

definition loop_effect :: "app_loop \<Rightarrow> loop_end option \<Rightarrow> app_loop \<Rightarrow> bool" where
  "loop_effect s e s' \<longleftrightarrow>
     (\<exists>n cs. loop_trace s' = loop_trace s @ concat (replicate n recovered) @ cs
        \<and> loop_recoveries s' = loop_recoveries s + n
        \<and> loop_recovery_failures s' = loop_recovery_failures s + (if e = Some LoopFatal then 1 else 0)
        \<and> (if e = None \<or> e = Some LoopLeft then cs = [] else failed_recovery cs))"

lemma loop_effect_refl: "loop_effect s None s" "loop_effect s (Some LoopLeft) s"
  unfolding loop_effect_def by (intro exI[of _ 0]; simp)+

lemma loop_effect_trans:
  assumes "loop_effect s None s1" "loop_effect s1 e s2"
  shows "loop_effect s e s2"
proof -
  obtain n where n: "loop_trace s1 = loop_trace s @ concat (replicate n recovered)" "loop_recoveries s1 = loop_recoveries s + n"
    "loop_recovery_failures s1 = loop_recovery_failures s"
    using assms(1) by (auto simp: loop_effect_def)
  obtain m cs where m: "loop_trace s2 = loop_trace s1 @ concat (replicate m recovered) @ cs" "loop_recoveries s2 = loop_recoveries s1 + m"
    "loop_recovery_failures s2 = loop_recovery_failures s1 + (if e = Some LoopFatal then 1 else 0)"
    "if e = None \<or> e = Some LoopLeft then cs = [] else failed_recovery cs"
    using assms(2) by (auto simp: loop_effect_def)
  show ?thesis unfolding loop_effect_def
    by (intro exI[of _ "n + m"] exI[of _ cs]) (use n m in \<open>simp add: replicate_add\<close>)
qed

lemma recover_encoder_effect:
  assumes "recover_encoder t s = (e, s')"
  shows "loop_effect s e s'"
proof (cases "tk_recovery t")
  case True
  obtain made x where m: "run_calls (tk_answer t) recovery_calls = (made, x)" by force
  have failed: "failed_recovery ([Stop H264Encoder, ClearHistory] @ made)"
    using run_calls_spec[OF m]
    by (cases x) (auto simp: failed_recovery_def cut_short_def recovery_calls_def)
  show ?thesis
  proof (cases x)
    case AllTrue
    then have "made = recovery_calls" using run_calls_spec[OF m] by simp
    then show ?thesis using assms True m AllTrue unfolding loop_effect_def
      by (intro exI[of _ 1] exI[of _ "[]"]) (auto simp: recover_encoder_def recovered_def)
  qed (use assms True m failed in \<open>auto simp: recover_encoder_def loop_effect_def intro!: exI[of _ 0]\<close>)
qed (use assms in \<open>auto simp: recover_encoder_def loop_effect_refl\<close>)

lemma loop_effect_report:
  "loop_effect s e (report config sha t s') = loop_effect s e s'"
  by (simp add: loop_effect_def report_def)

lemma loop_body_effect:
  assumes "loop_body config sha t s = (e, s')"
  shows "loop_effect s e s'"
proof -
  obtain x s1 where r: "recover_encoder t s = (x, s1)" by force
  then have "loop_effect s x s1" by (rule recover_encoder_effect)
  then show ?thesis using assms r loop_effect_trans[OF _ loop_effect_refl(2)]
    by (auto simp: loop_body_def loop_effect_report split: option.splits if_splits)
qed

lemma main_loop_effect:
  assumes ret: "main_loop ticks config sha i s = Some r"
  shows "loop_effect s (Some (fst r)) (snd r)"
proof (rule main_loop.raw_induct[where P = "\<lambda>ticks config sha i s r. loop_effect s (Some (fst r)) (snd r)", OF _ ret])
  fix rec ticks config sha i s r
  assume IH: "\<And>ticks config sha i s r. rec ticks config sha i s = Some r \<Longrightarrow> loop_effect s (Some (fst r)) (snd r)"
    and step: "(if tk_exit (ticks i) then Some (LoopLeft, s)
                else case loop_body config sha (ticks i) s of
                       (None, s') \<Rightarrow> rec ticks config sha (Suc i) s'
                     | (Some e, s') \<Rightarrow> Some (e, s')) = Some r"
  obtain e s1 where body: "loop_body config sha (ticks i) s = (e, s1)" by force
  note first = loop_body_effect[OF body]
  show "loop_effect s (Some (fst r)) (snd r)"
  proof (cases "tk_exit (ticks i)")
    case True
    then show ?thesis using step loop_effect_refl by auto
  next
    case False
    show ?thesis
    proof (cases e)
      case None
      then have "rec ticks config sha (Suc i) s1 = Some r" using step False body by simp
      then show ?thesis using IH first None loop_effect_trans by blast
    qed (use step False body first in auto)
  qed
qed

lemma supervise_trace:
  assumes "supervise ticks config sha outstanding made = Some run"
  obtains n cs where "run_trace run = made @ concat (replicate n recovered) @ cs @ destroy_calls"
    and "run_exit run \<in> {0, 4} \<and> cs = stop_calls \<and> (run_exit run = 0 \<longleftrightarrow> outstanding = 0)
       \<or> (\<exists>f. failed_recovery f \<and> (run_exit run = 5 \<and> cs = f @ stop_calls \<or> run_exit run = 1 \<and> cs = f))"
proof -
  obtain e s where l: "main_loop ticks config sha 0 loop_start = Some (e, s)" and
    run: "run = \<lparr>run_trace = (made @ loop_trace s @ (case e of LoopThrew what \<Rightarrow> [] | _ \<Rightarrow> stop_calls)) @ destroy_calls,
                 run_exit = exit_code e outstanding, run_reports = loop_reports s\<rparr>"
    using assms by (auto simp: supervise_def finish_run_def bind_eq_Some_conv)
  obtain n f where "loop_trace s = concat (replicate n recovered) @ f" "if e = LoopLeft then f = [] else failed_recovery f"
    using main_loop_effect[OF l] by (auto simp: loop_effect_def loop_start_def)
  then show thesis using that[of n "f @ (case e of LoopThrew what \<Rightarrow> [] | _ \<Rightarrow> stop_calls)"]
    by (cases e) (auto simp: run exit_code_def)
qed


definition demo_tick :: "nat \<Rightarrow> tick" where
  "demo_tick i = \<lparr>tk_exit = (i = 2), tk_recovery = (i = 0), tk_answer = (\<lambda>c. Returns True), tk_now = (i + 1) * 100000000,
                   tk_metrics = (\<lambda>c. 0), tk_ring = \<lparr>stat_units = 0, stat_bytes = 0, stat_peak_bytes = 0, stat_resets = 0\<rparr>\<rparr>"

lemma demo_run:
  "app_main (\<lambda>c. Returns True) demo_tick ''sha'' 0 [] =
     Some \<lparr>run_trace = initialize_calls @ start_calls @ recovered @ stop_calls @ destroy_calls, run_exit = 0, run_reports = []\<rparr>"
proof -
  have parsed: "parseArguments [] = ParseOk default_config" by code_simp
  have kept: "ring_retention_ns default_config = Some 4000000000" by code_simp
  have ring: "\<exists>r. ring_new 4000000000 (cfg_event_ring_max_bytes default_config) = Inr r"
    by (simp add: ring_new_def default_config_def)
  have loop: "\<exists>s. main_loop demo_tick default_config ''sha'' 0 loop_start = Some (LoopLeft, s) \<and> loop_trace s = recovered \<and> loop_reports s = []"
    by (simp add: main_loop.simps[of demo_tick] loop_body_def recover_encoder_def recovery_calls_def recovered_def report_def
        demo_tick_def loop_start_def default_config_def second_def)
  show ?thesis using ring loop
    by (auto simp: app_main_def parsed kept run_components_def initialize_calls_def start_calls_def supervise_def
        finish_run_def exit_code_def)
qed


section \<open>The loop ends\<close>

definition leaves :: "app_config \<Rightarrow> tick \<Rightarrow> bool" where
  "leaves config t \<longleftrightarrow>
     tk_exit t \<or> cfg_duration_seconds config > 0 \<and> tk_now t \<ge> unat (cfg_duration_seconds config) * second"

text \<open>A turn at which the program may leave is never survived, so the loop reads no tick after it.\<close>

lemma main_loop_leaves:
  assumes "leaves config (ticks i)" "k \<le> i"
  shows "\<exists>r. \<forall>ticks'. (\<forall>j\<le>i. ticks' j = ticks j) \<longrightarrow> main_loop ticks' config sha k s = Some r"
  using assms(2)
proof (induction "i - k" arbitrary: k s)
  case 0
  then have "k = i" by simp
  obtain e s' where b: "loop_body config sha (ticks i) s = (e, s')" by force
  show ?case
  proof (cases "tk_exit (ticks i)")
    case True
    then show ?thesis using \<open>k = i\<close> by (auto simp: main_loop.simps)
  next
    case False
    then have "e \<noteq> None" using assms(1) b by (auto simp: leaves_def loop_body_def split: prod.splits option.splits)
    then show ?thesis using b False \<open>k = i\<close> by (auto simp: main_loop.simps)
  qed
next
  case (Suc d)
  obtain e s' where b: "loop_body config sha (ticks k) s = (e, s')" by force
  have "\<exists>r. \<forall>ticks'. (\<forall>j\<le>i. ticks' j = ticks j) \<longrightarrow> main_loop ticks' config sha (Suc k) s' = Some r"
    using Suc.hyps(1)[of "Suc k" s'] Suc.hyps(2) by simp
  then obtain r where r: "\<And>ticks'. \<forall>j\<le>i. ticks' j = ticks j \<Longrightarrow> main_loop ticks' config sha (Suc k) s' = Some r" by blast
  show ?case
    by (rule exI[of _ "if tk_exit (ticks k) then (LoopLeft, s) else case e of None \<Rightarrow> r | Some x \<Rightarrow> (x, s')"])
      (use b r Suc.prems in \<open>auto simp: main_loop.simps[of _ config sha k s] split: option.splits\<close>)
qed

text \<open>
  C18. Termination and its bound. Every turn sleeps for 100 ms. If the exit flag is up at turn \<open>i\<close>, or a
  duration is configured and \<open>i\<close> is past ten times that many turns, the program returns, whatever its
  components answer; and it has returned by turn \<open>i\<close>: the result does not depend on anything that would
  happen later.
\<close>

theorem main_terminates:
  assumes "\<And>j. (j + 1) * 100000000 \<le> tk_now (ticks j)"
    and "tk_exit (ticks i) \<or> cfg_duration_seconds config > 0 \<and> 10 * unat (cfg_duration_seconds config) \<le> i + 1"
  shows "\<exists>run. \<forall>ticks'. (\<forall>j\<le>i. ticks' j = ticks j) \<longrightarrow> run_components answer ticks' config sha outstanding = Some run"
proof -
  have "leaves config (ticks i)" using assms(2) assms(1)[of i] by (auto simp: leaves_def second_def)
  then obtain e s where "\<And>ticks'. \<forall>j\<le>i. ticks' j = ticks j \<Longrightarrow> main_loop ticks' config sha 0 loop_start = Some (e, s)"
    using main_loop_leaves[of config ticks i 0 sha loop_start] by auto
  then have "\<exists>run. \<forall>ticks'. (\<forall>j\<le>i. ticks' j = ticks j) \<longrightarrow> supervise ticks' config sha outstanding made = Some run" for made
    by (auto simp: supervise_def finish_run_def)
  note supervised = this
  obtain ini e1 sta e2 where "run_calls answer initialize_calls = (ini, e1)" "run_calls answer start_calls = (sta, e2)" by force
  then show ?thesis using supervised[of "ini @ sta"]
    by (cases e1; cases e2) (simp_all add: run_components_def finish_run_def)
qed

text \<open>A program run for one second whose components never fail returns within ten turns.\<close>

theorem main_terminates_witness:
  "\<exists>run. run_components (\<lambda>c. Returns True) (\<lambda>i. (demo_tick i)\<lparr>tk_exit := False\<rparr>)
           (default_config\<lparr>cfg_duration_seconds := 1\<rparr>) ''sha'' 0 = Some run"
proof -
  have "\<exists>run. \<forall>ticks'. (\<forall>j\<le>9. ticks' j = (demo_tick j)\<lparr>tk_exit := False\<rparr>) \<longrightarrow>
          run_components (\<lambda>c. Returns True) ticks' (default_config\<lparr>cfg_duration_seconds := 1\<rparr>) ''sha'' 0 = Some run"
    by (rule main_terminates) (simp_all add: demo_tick_def default_config_def)
  then show ?thesis by auto
qed

end
