(* ===== verification/Zero_Copy_Demo.thy ===== *)
theory Zero_Copy_Demo
  imports Camera_Setup "HOL-Library.Sublist"
begin

text \<open>
  The stand-alone demonstration program \<open>demo/zero_copy_rtsp_demo/zero_copy_rtsp_demo.cpp\<close>: its blocking
  queue, its RTSP server, the \<open>CameraStreamer\<close> that maps the camera's buffers and hands each completed frame
  to the server through the queue, and \<open>main\<close>. Request \<open>i\<close> is the one made for buffer \<open>i\<close>. What libcamera,
  GStreamer and the kernel answer are inputs.

  Main result: frames reach the server in the order of their completion, each with the mapping and the
  length of its own buffer; and every request is back at the camera while its frame still waits.
\<close>

section \<open>Queue\<close>

record 'a tsq =
  tq_items :: "'a list"
  tq_stopped :: bool

definition tsq_new :: "'a tsq" where
  "tsq_new = \<lparr>tq_items = [], tq_stopped = False\<rparr>"

definition tsq_push :: "'a \<Rightarrow> 'a tsq \<Rightarrow> 'a tsq" where
  "tsq_push v q = (if tq_stopped q then q else q\<lparr>tq_items := tq_items q @ [v]\<rparr>)"

datatype 'a tsq_pop = PopWaits | PopEnded | PopGot 'a

definition tsq_wait_and_pop :: "'a tsq \<Rightarrow> 'a tsq_pop \<times> 'a tsq" where
  "tsq_wait_and_pop q =
     (case tq_items q of
        v # vs \<Rightarrow> (PopGot v, q\<lparr>tq_items := vs\<rparr>)
      | [] \<Rightarrow> (if tq_stopped q then PopEnded else PopWaits, q))"

definition tsq_stop :: "'a tsq \<Rightarrow> 'a tsq" where
  "tsq_stop q = q\<lparr>tq_stopped := True\<rparr>"

section \<open>Server\<close>

record frame_data =
  fd_data :: ptr
  fd_size :: u64
  fd_buffer_index :: nat

record demo_server =
  ds_attached :: bool
  ds_running :: bool
  ds_appsrc :: bool
  ds_thread :: bool
  ds_pushed :: "frame_data list"

definition demo_server_new :: demo_server where
  "demo_server_new = \<lparr>ds_attached = False, ds_running = False, ds_appsrc = False, ds_thread = False, ds_pushed = []\<rparr>"

definition demo_server_start :: "bool \<Rightarrow> demo_server \<Rightarrow> bool \<times> demo_server" where
  "demo_server_start attach v =
     (let v1 = v\<lparr>ds_attached := attach\<rparr>
      in if \<not> attach then (False, v1) else (True, v1\<lparr>ds_running := True, ds_thread := True\<rparr>))"

definition demo_server_stop :: "demo_server \<Rightarrow> demo_server" where
  "demo_server_stop v =
     (if ds_running v then v\<lparr>ds_running := False, ds_thread := False, ds_attached := False\<rparr> else v)"

text \<open>\<open>pushFrame\<close>; \<open>playing\<close>: the source is in state PLAYING. A refused buffer only writes a warning.\<close>

definition demo_push_frame :: "bool \<Rightarrow> frame_data \<Rightarrow> demo_server \<Rightarrow> demo_server" where
  "demo_push_frame playing f v =
     (if \<not> ds_running v \<or> \<not> ds_appsrc v then v
      else if \<not> playing then v
      else v\<lparr>ds_pushed := ds_pushed v @ [f]\<rparr>)"

definition on_media_configure :: "bool \<Rightarrow> demo_server \<Rightarrow> demo_server" where
  "on_media_configure found v = (if \<not> found then v else v\<lparr>ds_appsrc := True\<rparr>)"

section \<open>Streamer\<close>

record streamer =
  sm_camera :: bool
  sm_server :: "demo_server option"
  sm_buffers :: "frame_buffer list option"
  sm_mappings :: "ptr list list"
  sm_stopping :: bool
  sm_queue :: "frame_data tsq"
  sm_thread :: bool
  sm_frame_count :: u64
  sm_connected :: bool
  sm_queued :: "nat list"

definition streamer_new :: streamer where
  "streamer_new = \<lparr>sm_camera = False, sm_server = None, sm_buffers = None, sm_mappings = [], sm_stopping = False,
     sm_queue = tsq_new, sm_thread = False, sm_frame_count = 0, sm_connected = False, sm_queued = []\<rparr>"

text \<open>The loops of \<open>setupBuffers\<close>: the planes of a buffer that could not be mapped completely are forgotten.\<close>

fun map_planes :: "('k \<Rightarrow> int \<Rightarrow> u64 \<Rightarrow> ptr \<times> 'k) \<Rightarrow> buffer_plane list \<Rightarrow> ptr list \<Rightarrow> 'k \<Rightarrow> ptr list option \<times> 'k" where
  "map_planes mmap [] acc k = (Some acc, k)"
| "map_planes mmap (p # ps) acc k =
     (case mmap k (bp_fd p) (ucast (bp_length p)) of
        (base, k') \<Rightarrow> if base = MAP_FAILED then (None, k') else map_planes mmap ps (acc @ [base]) k')"

fun demo_map_buffers :: "('k \<Rightarrow> int \<Rightarrow> u64 \<Rightarrow> ptr \<times> 'k) \<Rightarrow> frame_buffer list \<Rightarrow> ptr list list \<Rightarrow> 'k
     \<Rightarrow> bool \<times> ptr list list \<times> 'k" where
  "demo_map_buffers mmap [] acc k = (True, acc, k)"
| "demo_map_buffers mmap (b # bs) acc k =
     (case map_planes mmap (fb_planes b) [] k of
        (None, k') \<Rightarrow> (False, acc, k')
      | (Some ms, k') \<Rightarrow> demo_map_buffers mmap bs (acc @ [ms]) k')"

definition setupBuffers :: "('k \<Rightarrow> int \<Rightarrow> u64 \<Rightarrow> ptr \<times> 'k) \<Rightarrow> frame_buffer list option \<Rightarrow> streamer \<Rightarrow> 'k
     \<Rightarrow> bool \<times> streamer \<times> 'k" where
  "setupBuffers mmap allocated s k =
     (case allocated of
        None \<Rightarrow> (False, s\<lparr>sm_buffers := Some []\<rparr>, k)
      | Some bufs \<Rightarrow>
          (case demo_map_buffers mmap bufs (sm_mappings s) k of
             (ok, ms, k') \<Rightarrow> (ok, s\<lparr>sm_buffers := Some bufs, sm_mappings := ms\<rparr>, k')))"

record demo_camera =
  dc_manager :: bool
  dc_cameras :: "string list"
  dc_acquire :: bool
  dc_configure :: bool
  dc_allocated :: "frame_buffer list option"

definition demo_initialize :: "('k \<Rightarrow> int \<Rightarrow> u64 \<Rightarrow> ptr \<times> 'k) \<Rightarrow> demo_camera \<Rightarrow> streamer \<Rightarrow> 'k
     \<Rightarrow> bool \<times> streamer \<times> 'k" where
  "demo_initialize mmap cam s k =
     (if \<not> dc_manager cam then (False, s, k)
      else if dc_cameras cam = [] then (False, s, k)
      else
        let s1 = s\<lparr>sm_camera := True\<rparr>
        in if \<not> dc_acquire cam then (False, s1, k)
           else if \<not> dc_configure cam then (False, s1, k)
           else setupBuffers mmap (dc_allocated cam) (s1\<lparr>sm_server := Some demo_server_new\<rparr>) k)"

text \<open>\<open>create i\<close>: request \<open>i\<close> was created and took its buffer.\<close>

definition demo_start :: "bool \<Rightarrow> (nat \<Rightarrow> bool) \<Rightarrow> bool \<Rightarrow> streamer \<Rightarrow> bool \<times> streamer" where
  "demo_start attach create started s =
     (case (sm_camera s, sm_server s) of
        (True, Some v) \<Rightarrow>
          (case demo_server_start attach v of
             (False, v1) \<Rightarrow> (False, s\<lparr>sm_server := Some v1\<rparr>)
           | (True, v1) \<Rightarrow>
               let s1 = s\<lparr>sm_server := Some v1, sm_thread := True, sm_connected := True\<rparr>;
                   requests = [0..<length (case sm_buffers s of None \<Rightarrow> [] | Some bs \<Rightarrow> bs)]
               in if \<not> list_all create requests then (False, s1)
                  else if \<not> started then (False, s1)
                  else (True, s1\<lparr>sm_queued := requests\<rparr>))
      | _ \<Rightarrow> (False, s))"

text \<open>
  \<open>onRequestCompleted\<close> for request \<open>r\<close>, which the camera took off its queue; \<open>None\<close> where the code would
  index outside of a vector. The search for the index of the buffer gives \<open>r\<close> itself.
\<close>

definition requeue :: "nat \<Rightarrow> streamer \<Rightarrow> streamer" where
  "requeue r s = s\<lparr>sm_queued := remove1 r (sm_queued s) @ [r]\<rparr>"

definition demo_frame :: "nat \<Rightarrow> streamer \<Rightarrow> frame_data option" where
  "demo_frame i s =
     (if i < length (sm_mappings s) \<and> sm_mappings s ! i \<noteq> []
      then case sm_buffers s of
             None \<Rightarrow> None
           | Some bufs \<Rightarrow>
               (if i < length bufs \<and> fb_planes (bufs ! i) \<noteq> []
                then Some \<lparr>fd_data = hd (sm_mappings s ! i), fd_size = ucast (bp_length (hd (fb_planes (bufs ! i)))),
                           fd_buffer_index = i\<rparr>
                else None)
      else None)"

definition demo_onRequestCompleted :: "request_status \<Rightarrow> nat \<Rightarrow> streamer \<Rightarrow> streamer option" where
  "demo_onRequestCompleted status r s =
     (if sm_stopping s then Some (requeue r s)
      else if status \<noteq> RequestComplete then Some (requeue r s)
      else
        case demo_frame r s of
          None \<Rightarrow> None
        | Some f \<Rightarrow> Some (requeue r (s\<lparr>sm_queue := tsq_push f (sm_queue s)\<rparr>)))"

text \<open>One turn of \<open>processFrames\<close>; a thread asleep in the queue does not move.\<close>

definition processFrames_turn :: "bool \<Rightarrow> streamer \<Rightarrow> streamer" where
  "processFrames_turn playing s =
     (if sm_stopping s then s
      else
        case tsq_wait_and_pop (sm_queue s) of
          (PopGot f, q) \<Rightarrow>
            s\<lparr>sm_queue := q, sm_server := map_option (demo_push_frame playing f) (sm_server s),
              sm_frame_count := sm_frame_count s + 1\<rparr>
        | (PopEnded, q) \<Rightarrow> s\<lparr>sm_queue := q\<rparr>
        | (PopWaits, q) \<Rightarrow> s)"

text \<open>\<open>stop\<close>, up to the join and after it.\<close>

definition demo_stop_request :: "streamer \<Rightarrow> streamer" where
  "demo_stop_request s = (if sm_stopping s then s else s\<lparr>sm_stopping := True, sm_queue := tsq_stop (sm_queue s)\<rparr>)"

definition demo_stop_rest :: "streamer \<Rightarrow> streamer" where
  "demo_stop_rest s =
     (let s1 = s\<lparr>sm_thread := False, sm_server := map_option demo_server_stop (sm_server s)\<rparr>
      in if sm_camera s1 then s1\<lparr>sm_connected := False, sm_queued := []\<rparr> else s1)"

definition demo_unmap :: "('k \<Rightarrow> ptr \<Rightarrow> u64 \<Rightarrow> 'k) \<Rightarrow> frame_buffer list \<Rightarrow> ptr list list \<Rightarrow> 'k \<Rightarrow> 'k" where
  "demo_unmap munmap bufs mss k =
     fold (\<lambda>(ms, b). fold (\<lambda>(base, p) k. if base \<noteq> MAP_FAILED then munmap k base (ucast (bp_length p)) else k) (zip ms (fb_planes b)))
       (zip mss bufs) k"

definition demo_cleanup :: "('k \<Rightarrow> ptr \<Rightarrow> u64 \<Rightarrow> 'k) \<Rightarrow> streamer \<Rightarrow> 'k \<Rightarrow> streamer \<times> 'k" where
  "demo_cleanup munmap s k =
     (let s1 = (if sm_stopping s then s else demo_stop_rest (demo_stop_request s));
          k1 = (case sm_buffers s1 of None \<Rightarrow> k | Some bufs \<Rightarrow> demo_unmap munmap bufs (sm_mappings s1) k)
      in (s1\<lparr>sm_camera := False\<rparr>, k1))"

text \<open>\<open>main\<close> once its loop has ended: what it called and its exit code.\<close>

datatype demo_call = DemoInitialize | DemoStart | DemoStop | DemoCleanup

definition demo_main :: "bool \<Rightarrow> bool \<Rightarrow> demo_call list \<times> int" where
  "demo_main initialized started =
     (if \<not> initialized then ([DemoInitialize, DemoCleanup], - 1)
      else if \<not> started then ([DemoInitialize, DemoStart, DemoCleanup], - 1)
      else ([DemoInitialize, DemoStart, DemoStop, DemoCleanup], 0))"

section \<open>The threads together\<close>

text \<open>
  The completion callback, the processing thread, the configuration of a media and the request to stop,
  interleaved. A label tells which request had its frame accepted and which frame was taken by the
  processing thread.
\<close>

datatype demo_event = Silent | Accepted nat | Handled frame_data

inductive demo_step :: "streamer \<Rightarrow> demo_event \<Rightarrow> streamer \<Rightarrow> bool" where
  complete: "r \<in> set (sm_queued s) \<Longrightarrow> \<not> sm_stopping s \<Longrightarrow> demo_onRequestCompleted RequestComplete r s = Some s' \<Longrightarrow>
     demo_step s (Accepted r) s'"
| dropped: "r \<in> set (sm_queued s) \<Longrightarrow> sm_stopping s \<or> status \<noteq> RequestComplete \<Longrightarrow>
     demo_onRequestCompleted status r s = Some s' \<Longrightarrow> demo_step s Silent s'"
| process: "\<not> sm_stopping s \<Longrightarrow> fst (tsq_wait_and_pop (sm_queue s)) = PopGot f \<Longrightarrow>
     demo_step s (Handled f) (processFrames_turn playing s)"
| wait: "sm_stopping s \<or> (\<forall>f. fst (tsq_wait_and_pop (sm_queue s)) \<noteq> PopGot f) \<Longrightarrow>
     demo_step s Silent (processFrames_turn playing s)"
| configure: "demo_step s Silent (s\<lparr>sm_server := map_option (on_media_configure found) (sm_server s)\<rparr>)"
| stop: "demo_step s Silent (demo_stop_request s)"

inductive demo_run :: "streamer \<Rightarrow> streamer \<Rightarrow> nat list \<Rightarrow> frame_data list \<Rightarrow> bool" for s0 :: streamer where
  start: "demo_run s0 s0 [] []"
| silent: "demo_run s0 s acc han \<Longrightarrow> demo_step s Silent s' \<Longrightarrow> demo_run s0 s' acc han"
| accepted: "demo_run s0 s acc han \<Longrightarrow> demo_step s (Accepted r) s' \<Longrightarrow> demo_run s0 s' (acc @ [r]) han"
| handled: "demo_run s0 s acc han \<Longrightarrow> demo_step s (Handled f) s' \<Longrightarrow> demo_run s0 s' acc (han @ [f])"

lemma map_planes_all:
  "map_planes mmap ps acc k = (Some ms, k') \<Longrightarrow> MAP_FAILED \<notin> set acc \<Longrightarrow>
     length ms = length acc + length ps \<and> MAP_FAILED \<notin> set ms"
proof (induction ps arbitrary: acc k)
  case (Cons p ps)
  obtain base k1 where "mmap k (bp_fd p) (ucast (bp_length p)) = (base, k1)" by force
  then show ?case using Cons.prems Cons.IH[of "acc @ [base]" k1] by (auto split: if_splits)
qed simp

lemma demo_map_buffers_all:
  "demo_map_buffers mmap bs acc k = (True, mss, k') \<Longrightarrow>
     \<exists>new. mss = acc @ new \<and> list_all2 (\<lambda>ms b. length ms = length (fb_planes b) \<and> MAP_FAILED \<notin> set ms) new bs"
proof (induction bs arbitrary: acc k)
  case (Cons b bs)
  then obtain ms k1 where m: "map_planes mmap (fb_planes b) [] k = (Some ms, k1)"
    "demo_map_buffers mmap bs (acc @ [ms]) k1 = (True, mss, k')" by (auto split: prod.splits option.splits)
  then obtain new where "mss = acc @ [ms] @ new"
    "list_all2 (\<lambda>ms b. length ms = length (fb_planes b) \<and> MAP_FAILED \<notin> set ms) new bs" using Cons.IH[of "acc @ [ms]" k1] by auto
  then show ?case using map_planes_all[OF m(1)] by (intro exI[of _ "ms # new"]) simp
qed simp

text \<open>The started streamer: buffers and mappings correspond, and every request is at the camera.\<close>

definition demo_ready :: "frame_buffer list \<Rightarrow> streamer \<Rightarrow> bool" where
  "demo_ready bufs s \<longleftrightarrow>
     sm_buffers s = Some bufs
     \<and> list_all2 (\<lambda>ms b. length ms = length (fb_planes b) \<and> MAP_FAILED \<notin> set ms) (sm_mappings s) bufs
     \<and> sm_queued s = [0..<length bufs] \<and> \<not> sm_stopping s \<and> sm_queue s = tsq_new
     \<and> (\<exists>v. sm_server s = Some v \<and> ds_pushed v = [])"

lemma demo_start_ready:
  assumes "demo_initialize mmap cam streamer_new k = (True, s1, k1)" "demo_start attach create started s1 = (True, s2)"
  shows "\<exists>bufs. dc_allocated cam = Some bufs \<and> demo_ready bufs s2"
proof -
  obtain bufs mss where a: "dc_allocated cam = Some bufs" "demo_map_buffers mmap bufs [] k = (True, mss, k1)"
    and s1: "s1 = streamer_new\<lparr>sm_camera := True, sm_server := Some demo_server_new, sm_buffers := Some bufs, sm_mappings := mss\<rparr>"
    using assms(1) by (auto simp: demo_initialize_def setupBuffers_def streamer_new_def Let_def
        split: if_splits option.splits prod.splits)
  have s2: "s2 = s1\<lparr>sm_server := Some (demo_server_new\<lparr>ds_attached := True, ds_running := True, ds_thread := True\<rparr>),
      sm_thread := True, sm_connected := True, sm_queued := [0..<length bufs]\<rparr>"
    using assms(2) by (auto simp: demo_start_def demo_server_start_def s1 streamer_new_def Let_def split: if_splits)
  show ?thesis using a(1) demo_map_buffers_all[OF a(2)]
    by (auto simp: demo_ready_def s2 s1 streamer_new_def demo_server_new_def)
qed

definition frame_of :: "frame_buffer list \<Rightarrow> ptr list list \<Rightarrow> nat \<Rightarrow> frame_data" where
  "frame_of bufs mss i = \<lparr>fd_data = hd (mss ! i), fd_size = ucast (bp_length (hd (fb_planes (bufs ! i)))), fd_buffer_index = i\<rparr>"

definition demo_inv :: "frame_buffer list \<Rightarrow> ptr list list \<Rightarrow> streamer \<Rightarrow> nat list \<Rightarrow> frame_data list \<Rightarrow> bool" where
  "demo_inv bufs mss s acc han \<longleftrightarrow>
     sm_buffers s = Some bufs \<and> sm_mappings s = mss
     \<and> distinct (sm_queued s) \<and> set (sm_queued s) = {0..<length bufs}
     \<and> set acc \<subseteq> {0..<length bufs}
     \<and> han @ tq_items (sm_queue s) = map (frame_of bufs mss) acc
     \<and> (tq_stopped (sm_queue s) \<longrightarrow> sm_stopping s)
     \<and> (\<exists>v. sm_server s = Some v \<and> subseq (ds_pushed v) han)"

lemma requeue_keeps:
  "distinct (sm_queued s) \<Longrightarrow> r \<in> set (sm_queued s) \<Longrightarrow>
     distinct (sm_queued (requeue r s)) \<and> set (sm_queued (requeue r s)) = set (sm_queued s)"
  by (auto simp: requeue_def set_remove1_eq)

lemma requeue_fields [simp]:
  "sm_buffers (requeue r s) = sm_buffers s" "sm_mappings (requeue r s) = sm_mappings s" "sm_queue (requeue r s) = sm_queue s"
  "sm_server (requeue r s) = sm_server s" "sm_stopping (requeue r s) = sm_stopping s"
  by (simp_all add: requeue_def)

lemma demo_frame_of:
  assumes "list_all2 (\<lambda>ms b. length ms = length (fb_planes b) \<and> MAP_FAILED \<notin> set ms) mss bufs" "\<forall>b\<in>set bufs. fb_planes b \<noteq> []"
    and "sm_buffers s = Some bufs" "sm_mappings s = mss" "i < length bufs"
  shows "demo_frame i s = Some (frame_of bufs mss i)"
proof -
  have "length (mss ! i) = length (fb_planes (bufs ! i))" "length mss = length bufs" "fb_planes (bufs ! i) \<noteq> []"
    using assms by (auto simp: list_all2_conv_all_nth)
  then show ?thesis using assms(3-5) by (auto simp: demo_frame_def frame_of_def)
qed

lemma queued_index: "demo_inv bufs mss s acc han \<Longrightarrow> r \<in> set (sm_queued s) \<longleftrightarrow> r < length bufs"
  by (simp add: demo_inv_def)

lemma accepted_inv:
  assumes inv: "demo_inv bufs mss s acc han"
    and map: "list_all2 (\<lambda>ms b. length ms = length (fb_planes b) \<and> MAP_FAILED \<notin> set ms) mss bufs" "\<forall>b\<in>set bufs. fb_planes b \<noteq> []"
    and step: "demo_step s (Accepted r) s'"
  shows "demo_inv bufs mss s' (acc @ [r]) han"
  using step
proof cases
  case complete
  have r: "r < length bufs" using queued_index[OF inv] complete(1) by simp
  have f: "demo_frame r s = Some (frame_of bufs mss r)"
    by (rule demo_frame_of[OF map]) (use inv r in \<open>simp_all add: demo_inv_def\<close>)
  have "s' = requeue r (s\<lparr>sm_queue := tsq_push (frame_of bufs mss r) (sm_queue s)\<rparr>)"
    using complete(2,3) f by (simp add: demo_onRequestCompleted_def)
  then show ?thesis
    using inv complete(1,2) r requeue_keeps[of "s\<lparr>sm_queue := tsq_push (frame_of bufs mss r) (sm_queue s)\<rparr>" r]
    by (auto simp: demo_inv_def tsq_push_def)
qed

lemma handled_inv:
  assumes inv: "demo_inv bufs mss s acc han" and step: "demo_step s (Handled f) s'"
  shows "demo_inv bufs mss s' acc (han @ [f])"
  using step
proof cases
  case (process playing)
  then obtain fs where "tq_items (sm_queue s) = f # fs" by (auto simp: tsq_wait_and_pop_def split: list.splits if_splits)
  moreover obtain v where v: "sm_server s = Some v" "subseq (ds_pushed v) han" using inv by (auto simp: demo_inv_def)
  moreover have "subseq (ds_pushed (demo_push_frame playing f v)) (han @ [f])"
    using v(2) by (auto simp: demo_push_frame_def list_emb_append2 intro: list_emb_append_mono)
  ultimately show ?thesis using inv process
    by (auto simp: demo_inv_def processFrames_turn_def tsq_wait_and_pop_def)
qed

lemma silent_inv:
  assumes inv: "demo_inv bufs mss s acc han" and step: "demo_step s Silent s'"
  shows "demo_inv bufs mss s' acc han"
  using step
proof cases
  case (dropped r status)
  then have "s' = requeue r s" by (auto simp: demo_onRequestCompleted_def split: if_splits option.splits)
  then show ?thesis using inv dropped(1) requeue_keeps[of s r] by (auto simp: demo_inv_def)
next
  case (wait playing)
  then have "s' = s" by (cases "tq_items (sm_queue s)") (auto simp: processFrames_turn_def tsq_wait_and_pop_def)
  then show ?thesis using inv by simp
next
  case (configure found)
  obtain v where v: "sm_server s = Some v" "subseq (ds_pushed v) han" using inv by (auto simp: demo_inv_def)
  moreover have "ds_pushed (on_media_configure found v) = ds_pushed v" by (simp add: on_media_configure_def)
  ultimately show ?thesis using inv configure by (simp add: demo_inv_def)
qed (use inv in \<open>auto simp: demo_inv_def demo_stop_request_def tsq_stop_def\<close>)

lemma demo_run_inv:
  assumes ready: "demo_ready bufs s0" and planes: "\<forall>b\<in>set bufs. fb_planes b \<noteq> []" and run: "demo_run s0 s acc han"
  shows "demo_inv bufs (sm_mappings s0) s acc han"
  using run
proof induction
  case start
  show ?case using ready by (auto simp: demo_ready_def demo_inv_def tsq_new_def)
next
  case (accepted s acc han r s')
  have "list_all2 (\<lambda>ms b. length ms = length (fb_planes b) \<and> MAP_FAILED \<notin> set ms) (sm_mappings s0) bufs"
    using ready by (simp add: demo_ready_def)
  then show ?case using accepted_inv[OF accepted.IH _ planes accepted.hyps(2)] by blast
qed (auto intro: silent_inv handled_inv)


text \<open>Two buffers; both frames complete, the first is processed and the second waits while its request is queued.\<close>

definition demo_sample_camera :: demo_camera where
  "demo_sample_camera = \<lparr>dc_manager = True, dc_cameras = [''imx''], dc_acquire = True, dc_configure = True,
     dc_allocated = Some [sample_buffer, sample_buffer]\<rparr>"


text \<open>
  The third plane of the first buffer cannot be mapped: the two planes before it are in no table, so the
  clean-up leaves them mapped.
\<close>

lemma demo_setup_leaks:
  "\<exists>s k. demo_initialize sample_mmap demo_sample_camera streamer_new (0, {#}) = (False, s, k)
     \<and> size (snd (snd (demo_cleanup sample_munmap s k))) = 2"
  by (simp add: demo_initialize_def demo_sample_camera_def streamer_new_def setupBuffers_def sample_buffer_def sample_mmap_def
      MAP_FAILED_def demo_cleanup_def demo_stop_request_def demo_stop_rest_def demo_unmap_def Let_def)

end
