(* ===== verification/Spec2Isabelle.thy ===== *)
theory Spec2Isabelle
  imports Recording_Pipeline Camera_Setup H264_Encoder App_Config Rtsp_Recovery Inference Event_Writer Application
    Logging Zero_Copy_Demo
begin

text \<open>
  EggVision is a C++ program for a Raspberry Pi with a camera: it serves the picture as an H.264 RTSP stream, looks
  for objects in a low-resolution copy of it with a neural network, and records a clip, a snapshot and metadata
  around every detection. This development models it from the sources under \<open>src/\<close> and proves what makes its
  parts, and some of their combinations, correct.

  \<^bold>\<open>How the parts interact.\<close> The camera hands out completed requests as leases (\<open>Camera_Setup\<close>, \<open>Camera_Capture\<close>).
  The full-resolution side of a frame goes to the encoder (\<open>H264_Encoder\<close>), the low-resolution side to the inference
  worker (\<open>Inference\<close>), each through a queue of capacity one (\<open>Latest_Queue\<close>). Encoded access units enter the ring
  buffer (\<open>Encoded_Ring\<close>), are observed by the event recorder (\<open>Event_Recorder\<close>) and submitted to the RTSP server
  (\<open>Rtsp_Server\<close>). Detections trigger the recorder, which takes a pre-roll from the ring, stages a snapshot
  (\<open>Dma_Sync\<close>, \<open>I420_Frame\<close>), collects a post-roll and queues a job, which its worker writes to disk (\<open>Event_Writer\<close>).
  \<open>main\<close> (\<open>Application\<close>) builds, starts, supervises and stops all of them. \<open>Recording_Pipeline\<close> and the end of this
  theory are about compositions.

  \<^bold>\<open>Theories.\<close>
  \<^item> \<open>Egg_Prelude\<close>: the integer types at their width, the counters of \<open>metrics.hpp\<close> as one datatype, decimal output,
    and the facts on words and lists that the other theories share.
  \<^item> \<open>Latest_Queue\<close> (\<open>latest_frame_queue.hpp\<close>): one function per member; the locale \<open>mailbox\<close> is the contract of its
    clients, interpreted on these functions. In any sequence of operations every pushed item is delivered once, is
    still waiting, or was reported as dropped.
  \<^item> \<open>H264_Bitstream\<close> (\<open>h264_bitstream.cpp\<close>): the Annex-B scan equals the syntax of a sequence of NAL units.
  \<^item> \<open>Encoded_Ring\<close> (\<open>encoded_ring_buffer.cpp\<close>): the ring's invariant, a complete description of \<open>selectPreRoll\<close>, and the
    refinement of an unbounded history; the locale \<open>preroll_source\<close> is what the recorder needs of it.
  \<^item> \<open>I420_Frame\<close> (\<open>frame.hpp\<close>, \<open>i420.cpp\<close>): guarded size arithmetic, the copy over an explicit byte memory, and the
    agreement of the zero-copy test with the copy.
  \<^item> \<open>Dma_Sync\<close> (\<open>dma_buf_sync.cpp\<close>, \<open>snapshot.cpp\<close>): read synchronisation sessions, ended exactly once on every path,
    and the staging of a snapshot.
  \<^item> \<open>Event_Recorder\<close> (\<open>event_recorder.cpp\<close>): gate, trigger, post-roll, queue of jobs, lifecycle; soundness of every job,
    cooldown, and the draining of the queue after a stop.
  \<^item> \<open>Event_Writer\<close> (\<open>event_recorder.cpp\<close>): an explicit file system, JSON text, the snapshot, the clip, the metadata and
    the publication by renaming; an event is published completely or not at all.
  \<^item> \<open>Recording_Pipeline\<close> (\<open>app/main.cpp\<close>): the encoder's consumer, the detections and the event worker interleaved.
  \<^item> \<open>Camera_Setup\<close>, \<open>Camera_Capture\<close> (\<open>camera_capture.cpp\<close>): configuration, mapping and unmapping; views inside their
    mappings; conservation of requests among camera, leases, recycler and stop; and how \<open>stop\<close> can hang.
  \<^item> \<open>H264_Encoder\<close> (\<open>h264_encoder.cpp\<close>): admission of frames, timestamps, generations and isolation of errors.
  \<^item> \<open>Cxx_Number\<close>, \<open>Float_Rounding\<close>: number parsing of the C++ library and IEEE arithmetic as rounded rationals.
  \<^item> \<open>App_Config\<close> (\<open>config.hpp\<close>, \<open>app/main.cpp\<close>): the command line.
  \<^item> \<open>Detections\<close>, \<open>Inference_Backend\<close>, \<open>Inference\<close> (\<open>inference.cpp\<close>, \<open>inference_backend.cpp\<close>, \<open>mnn_backend.cpp\<close>,
    \<open>openvino_backend.cpp\<close>): geometry and suppression of boxes in single precision, acceptance of a model by either
    backend (the locale \<open>model_backend\<close>, interpreted on both), and the worker with its error paths. The locale
    \<open>confidence_sort\<close> is the guarantee of \<open>std::sort\<close>.
  \<^item> \<open>Rtsp_Server\<close>, \<open>Rtsp_Recovery\<close> (\<open>rtsp_server.cpp\<close>): callbacks, watchdog, recovery worker, feeder and lifecycle as one
    step relation; ownership of media, the exact effect of \<open>recoverMedia\<close>, recovery of the service, and two ways of
    losing the listener for good.
  \<^item> \<open>Application\<close> (\<open>app/main.cpp\<close>): the calls the program makes by exit code, the metrics report, and termination.
  \<^item> \<open>Logging\<close> (\<open>logging.cpp\<close>): log lines of several threads do not mix.
  \<^item> \<open>Zero_Copy_Demo\<close> (\<open>demo/zero_copy_rtsp_demo\<close>): the stand-alone demonstration program.

  \<^bold>\<open>How code becomes definitions.\<close> Definitions carry the names of the code where the logic allows it. A class is a
  record of its members, an enumeration a datatype, \<open>unsigned\<close>, \<open>std::uint64_t\<close> and \<open>std::size_t\<close> are words of 32 and 64
  bits, \<open>float\<close> and \<open>double\<close> are rationals with NaN and infinities, rounded after every operation (the sign of zero
  is not kept). A function that holds a mutex for its whole body is one state transformer; where a lock is
  released in between, or none is taken, the parts are separate steps of a relation. Exceptions and error
  texts are values. Tables of pointers are maps from numbers.

  \<^bold>\<open>Loops.\<close> No fuel is used. Loops over data are structural recursions or have a termination proof. Two loops have no
  bound in the source and are partial functions into an option type: the retry loop of \<open>synchronize\<close> in \<open>Dma_Sync\<close>,
  where the kernel is assumed not to interrupt the call forever, and the supervision loop \<open>main_loop\<close> in
  \<open>Application\<close>, which is shown to end within ten turns for every second of the configured duration. Worker
  threads are modelled one turn at a time.

  \<^bold>\<open>Parameters.\<close> libcamera, GStreamer and its RTSP library, OpenCV, MNN, OpenVINO, GLib's checksum, the kernel's
  \<open>mmap\<close> and DMA-BUF calls, the clock and \<open>strftime\<close> are arguments of the definitions that use them. What a theorem
  needs of them is a hypothesis, such as \<open>mapping_laws\<close> for \<open>mmap\<close> and \<open>munmap\<close> or \<open>mnn_sizes_ok\<close> for the sizes MNN
  reports, and each such theorem has a witness at concrete parameters.

  \<^bold>\<open>Not modelled.\<close> The test hooks that are compiled out of normal builds; \<open>printConfiguration\<close> and the texts of log
  lines, except for the metrics report and the errors that are part of the behaviour; the attaching of
  GLib sources and signal handlers, whose success is an input; what a backend's \<open>run\<close> computes; the tests, scripts and
  deployment files. Weak memory effects are outside of the model: atomics are sequentially consistent.
\<close>

section \<open>From the encoder to the disk\<close>


lemma sample_event:
  "active (sample_recorder_of d) = Some e \<Longrightarrow>
     job_id e = ''.000_seq7'' \<and> snapshot e = empty_snapshot \<and> job_generation e = 1 \<and> wall_time e = 0"
proof -
  have i: "formatEventId (\<lambda>_ _. []) 0 7 = ''.000_seq7''" by (simp add: formatEventId_def pad3_def show_nat.simps digit_char_def numeral_3_eq_3) code_simp
  show "active (sample_recorder_of d) = Some e \<Longrightarrow> ?thesis"
    by (auto simp: sample_recorder_of_def sample_ops_of_def recorder_new_def rec_initialize_def storageAvailable_def
        sample_config_def rec_start_def trigger_def tryBegin_def gate_new_def Let_def sample_lease_def
        secondsToNs_samples sample_selection new_event_def no_stage_def saturatingAdd_def i)
qed

text \<open>Writing a job without a snapshot whose clip is one unit.\<close>

lemma sample_clip_written:
  fixes j :: "detection event_job"
  assumes "job_id j = ''.000_seq7''" "snapshot j = empty_snapshot" "job_generation j = 1" "units j = [sample_unit 10 1 True 3]"
  shows "\<exists>m' fs'. writeEvent sample_writer sample_event_config j metrics_init [] = Some (m', fs') \<and> m' (Ev events_completed) = 1"
proof -
  have none: "we_fault sample_writer c = None" for c by (simp add: sample_writer_def)
  have date: "date_dir_of sample_writer sample_event_config j = [''ev'', ''2026'']"
    by (simp add: date_dir_of_def sample_event_config_def sample_writer_def formatDate_def)
  have cd: "guarded sample_writer (CreateDirectories [''ev'', ''2026'']) (fs_create_directories [''ev'', ''2026''] []) []
      = (None, [([''ev''], Directory), ([''ev'', ''2026''], Directory)])"
    by (simp add: guarded_def sample_writer_def fs_create_directories_def ancestors_def is_file_def numeral_2_eq_2)
  show ?thesis unfolding writeEvent_def date Let_def assms(1) cd
    by (simp add: fs_exists_def none fs_create_directory_def write_artifacts_def writeSnapshot_def finalize_def muxVideo_def
        mux_run_def mux_outcome_def writeMetadata_def publish_def after_snapshot_def after_video_def do_rename_def guarded_def
        fs_rename_def fs_move_def fs_write_def leave_file_def sample_writer_def sample_event_config_def sample_milliseconds
        artifact_initial_def artifact_failed_def snapshot_partial_def snapshot_final_def metadata_partial_def metadata_final_def
        clip_names extension_def partial_name_def unit_bytes_def empty_snapshot_def default_config_def metrics_init_def assms Let_def)
qed


end
